(* ===== verification/Prelude.thy ===== *)
theory Prelude
  imports Main "HOL-Library.Word"
begin

text \<open>
  What every component shares: the machine integers, the outcomes of a C++ call (a value, a thrown
  exception, or undefined behaviour) and the state-passing actions built from them, bytes and
  little-endian words, and the text formatting functions of the standard library that the
  disassembler and the error messages use.
\<close>

unbundle bit_operations_syntax

section \<open>Machine integers\<close>

type_synonym u8 = "8 word"
type_synonym u16 = "16 word"
type_synonym u32 = "32 word"
type_synonym u64 = "64 word"

text \<open>\<open>size_t\<close> of the 64-bit targets the library is built for.\<close>

type_synonym size_t = "64 word"

lemma unat_u32_less: "unat (w :: u32) < 2 ^ 32"
proof -
  have "unat w < 2 ^ LENGTH(32)" by (rule unsigned_less)
  then show ?thesis by simp
qed

lemma unat_of_nat_u32: "n < 2 ^ 32 \<Longrightarrow> unat (of_nat n :: u32) = n"
  by (simp add: unat_of_nat take_bit_nat_eq_self)

section \<open>Outcomes\<close>

text \<open>
  Undefined behaviour of the language is an outcome of its own, so that a theorem can say that it
  cannot happen, or exactly when it does.
\<close>

datatype undefined_behaviour =
    Shift_Out_Of_Range
  | Signed_Overflow
  | Out_Of_Bounds
  | Null_Dereference
  | Division_By_Zero
  | Endless_Loop  \<comment> \<open>without input, output or synchronisation\<close>

datatype exn =
    unknown_instruction string
  | unknown_syscall string
  | code_access_error string
  | data_access_error string
  | control_access_error string
  | domain_error string
  | undefined undefined_behaviour

text \<open>
  An action reads and writes a state and returns or throws. The state is returned in both cases:
  what was written before a \<open>throw\<close> stays written.
\<close>

type_synonym ('s, 'a) action = "'s \<Rightarrow> (exn + 'a) \<times> 's"

named_theorems action_simps \<open>how the action combinators compute\<close>
named_theorems action_intros \<open>rules for what every outcome of an action satisfies\<close>

definition ret :: "'a \<Rightarrow> ('s, 'a) action" where
  "ret x s = (Inr x, s)"

definition throw :: "exn \<Rightarrow> ('s, 'a) action" where
  "throw e s = (Inl e, s)"

definition andThen :: "('s, 'a) action \<Rightarrow> ('a \<Rightarrow> ('s, 'b) action) \<Rightarrow> ('s, 'b) action" where
  "andThen f g s = (case f s of (Inl e, s') \<Rightarrow> (Inl e, s') | (Inr x, s') \<Rightarrow> g x s')"

text \<open>A \<open>const\<close> method: it reads the state and returns or throws.\<close>

definition query :: "('s \<Rightarrow> exn + 'a) \<Rightarrow> ('s, 'a) action" where
  "query f s = (f s, s)"

text \<open>Evaluation of an expression that may be undefined and does not touch the state.\<close>

definition checked :: "exn + 'a \<Rightarrow> ('s, 'a) action" where
  "checked r s = (r, s)"

definition modify :: "('s \<Rightarrow> 's) \<Rightarrow> ('s, unit) action" where
  "modify f s = (Inr (), f s)"

definition whenever :: "bool \<Rightarrow> ('s, unit) action \<Rightarrow> ('s, unit) action" where
  "whenever b f = (if b then f else ret ())"

lemmas [action_simps] =
  ret_def throw_def andThen_def query_def checked_def modify_def whenever_def

lemma andThen_assoc: "andThen (andThen f g) h = andThen f (\<lambda>x. andThen (g x) h)"
  by (rule ext) (simp add: andThen_def split: prod.splits sum.splits)

lemma andThen_ret [simp]: "andThen (ret x) f = f x"
  by (rule ext) (simp add: andThen_def ret_def)

lemma andThen_throw [simp]: "andThen (throw e) f = throw e"
  by (rule ext) (simp add: andThen_def throw_def)

subsection \<open>What every outcome satisfies\<close>

text \<open>
  \<open>safe E P f\<close>: from a state with \<open>P\<close>, the action ends in a state with \<open>P\<close>, thrown exceptions
  included, and whatever it throws is in \<open>E\<close>.
\<close>

definition safe :: "exn set \<Rightarrow> ('s \<Rightarrow> bool) \<Rightarrow> ('s, 'a) action \<Rightarrow> bool" where
  "safe E P f \<longleftrightarrow> (\<forall>s. P s \<longrightarrow> P (snd (f s)) \<and> (\<forall>e. fst (f s) = Inl e \<longrightarrow> e \<in> E))"

lemma safeI:
  assumes "\<And>s. P s \<Longrightarrow> P (snd (f s))" and "\<And>s e. P s \<Longrightarrow> fst (f s) = Inl e \<Longrightarrow> e \<in> E"
  shows "safe E P f"
  using assms by (simp add: safe_def)

lemma safeD:
  assumes "safe E P f" and "P s"
  shows "P (snd (f s))" and "fst (f s) = Inl e \<Longrightarrow> e \<in> E"
  using assms by (simp_all add: safe_def)

lemma safe_state: "safe E P f \<Longrightarrow> P s \<Longrightarrow> f s = (r, s') \<Longrightarrow> P s'"
  by (metis safeD(1) snd_conv)

lemma safe_error: "safe E P f \<Longrightarrow> P s \<Longrightarrow> f s = (Inl e, s') \<Longrightarrow> e \<in> E"
  by (metis safeD(2) fst_conv)

lemma safe_ret [simp, action_intros]: "safe E P (ret x)"
  by (simp add: safe_def ret_def)

lemma safe_throw [action_intros]: "e \<in> E \<Longrightarrow> safe E P (throw e)"
  by (simp add: safe_def throw_def)

lemma safe_query [action_intros]: "(\<And>s e. P s \<Longrightarrow> f s = Inl e \<Longrightarrow> e \<in> E) \<Longrightarrow> safe E P (query f)"
  by (simp add: safe_def query_def)

lemma safe_checked [action_intros]: "(\<And>e. r = Inl e \<Longrightarrow> e \<in> E) \<Longrightarrow> safe E P (checked r)"
  by (simp add: safe_def checked_def)

lemma safe_modify [action_intros]: "(\<And>s. P s \<Longrightarrow> P (f s)) \<Longrightarrow> safe E P (modify f)"
  by (simp add: safe_def modify_def)

lemma safe_andThen [action_intros]:
  assumes "safe E P f" and "\<And>x. safe E P (g x)"
  shows "safe E P (andThen f g)"
proof (rule safeI)
  fix s
  assume P: "P s"
  obtain r s1 where f: "f s = (r, s1)" by (cases "f s")
  then have P1: "P s1" using assms(1) P by (rule safe_state [rotated -1])
  show "P (snd (andThen f g s))"
    using safeD(1) [OF assms(2) P1] P1 by (simp add: andThen_def f split: sum.splits)
  fix e
  assume "fst (andThen f g s) = Inl e"
  then show "e \<in> E"
    using safe_error [OF assms(1) P, of e s1] safeD(2) [OF assms(2) P1]
    by (auto simp: andThen_def f split: sum.splits)
qed

lemma safe_whenever [action_intros]: "safe E P f \<Longrightarrow> safe E P (whenever b f)"
  by (simp add: whenever_def)

lemma safe_if [action_intros]: "safe E P f \<Longrightarrow> safe E P g \<Longrightarrow> safe E P (if b then f else g)"
  by simp

section \<open>Bytes and little-endian words\<close>

text \<open>
  Only little-endian hosts are supported (the \<open>static_assert\<close> of vm_bit_tools.hxx), so reading an
  integer through a byte pointer takes the least significant byte first.
\<close>

fun le_word :: "u8 list \<Rightarrow> u32" where
  "le_word [] = 0"
| "le_word (b # bs) = ucast b OR push_bit 8 (le_word bs)"

definition le_bytes :: "nat \<Rightarrow> u32 \<Rightarrow> u8 list" where
  "le_bytes n w = map (\<lambda>i. ucast (drop_bit (8 * i) w)) [0..<n]"

lemma length_le_bytes [simp]: "length (le_bytes n w) = n"
  by (simp add: le_bytes_def)

lemma le_bytes_Suc: "le_bytes (Suc n) w = ucast w # le_bytes n (drop_bit 8 w)"
  by (simp add: le_bytes_def map_upt_Suc ac_simps del: upt_Suc)

lemma bit_le_word: "bit (le_word bs) i \<longleftrightarrow> i < 32 \<and> i < 8 * length bs \<and> bit (bs ! (i div 8)) (i mod 8)"
proof (induction bs arbitrary: i)
  case Nil
  then show ?case by simp
next
  case (Cons b bs)
  show ?case
  proof (cases "i < 8")
    case True
    then show ?thesis by (auto simp: bit_simps)
  next
    case False
    then obtain j where i: "i = j + 8" by (metis add.commute le_Suc_ex not_less)
    moreover have "(j + 8) div 8 = Suc (j div 8)" by simp
    ultimately show ?thesis by (auto simp: bit_simps Cons.IH dest: bit_imp_le_length)
  qed
qed

lemma le_word_le_bytes: "le_word (le_bytes n w) = take_bit (8 * n) w"
  by (rule bit_word_eqI)
    (auto simp: bit_le_word bit_simps le_bytes_def mult.commute div_mult_mod_eq
      less_mult_imp_div_less)

lemma le_word_bytes_4 [simp]: "le_word (le_bytes 4 w) = w"
  by (simp add: le_word_le_bytes take_bit_word_eq_self)

section \<open>Text formatting of the standard library\<close>

definition hex_digit :: "u32 \<Rightarrow> char" where
  "hex_digit d = ''0123456789abcdef'' ! (unat d mod 16)"

fun show_nat :: "nat \<Rightarrow> string" where
  "show_nat n = (if n < 10 then [''0123456789'' ! n]
     else show_nat (n div 10) @ [''0123456789'' ! (n mod 10)])"

declare show_nat.simps [simp del]

text \<open>\<open>std::to_string\<close> of a signed integer.\<close>

definition to_string :: "int \<Rightarrow> string" where
  "to_string i = (if i < 0 then CHR ''-'' # show_nat (nat (- i)) else show_nat (nat i))"

end
