(* ===== verification/Base_Types.thy ===== *)
theory Base_Types
  imports Prelude
begin

text \<open>
  vm_base_types.hxx / vm_base_types.cxx: register numbers, the enumeration of register aliases with
  its enumerator values, and the printable name of a register.
\<close>

type_synonym register_no = u8
type_synonym register_t = u32
type_synonym program_code_t = "u8 list"

text \<open>
  A \<open>signed_t\<close> is kept as the 32-bit word it is bit-cast from and read through \<open>sint\<close>.
\<close>

type_synonym signed_t = u32

definition register_count :: register_no where
  "register_count = 32"

text \<open>The enumerators; \<open>fp\<close> is a second name of \<open>s0\<close>.\<close>

datatype RegAlias =
    Reg_zero
  | Reg_ra
  | Reg_sp
  | Reg_gp
  | Reg_tp
  | Reg_t0
  | Reg_t1
  | Reg_t2
  | Reg_s0
  | Reg_s1
  | Reg_a0
  | Reg_a1
  | Reg_a2
  | Reg_a3
  | Reg_a4
  | Reg_a5
  | Reg_a6
  | Reg_a7
  | Reg_s2
  | Reg_s3
  | Reg_s4
  | Reg_s5
  | Reg_s6
  | Reg_s7
  | Reg_s8
  | Reg_s9
  | Reg_s10
  | Reg_s11
  | Reg_t3
  | Reg_t4
  | Reg_t5
  | Reg_t6
  | Reg_pc
  | Reg_unknown

fun reg_no :: "RegAlias \<Rightarrow> register_no" where
  "reg_no Reg_zero = 0"
| "reg_no Reg_ra = 1"
| "reg_no Reg_sp = 2"
| "reg_no Reg_gp = 3"
| "reg_no Reg_tp = 4"
| "reg_no Reg_t0 = 5"
| "reg_no Reg_t1 = 6"
| "reg_no Reg_t2 = 7"
| "reg_no Reg_s0 = 8"
| "reg_no Reg_s1 = 9"
| "reg_no Reg_a0 = 10"
| "reg_no Reg_a1 = 11"
| "reg_no Reg_a2 = 12"
| "reg_no Reg_a3 = 13"
| "reg_no Reg_a4 = 14"
| "reg_no Reg_a5 = 15"
| "reg_no Reg_a6 = 16"
| "reg_no Reg_a7 = 17"
| "reg_no Reg_s2 = 18"
| "reg_no Reg_s3 = 19"
| "reg_no Reg_s4 = 20"
| "reg_no Reg_s5 = 21"
| "reg_no Reg_s6 = 22"
| "reg_no Reg_s7 = 23"
| "reg_no Reg_s8 = 24"
| "reg_no Reg_s9 = 25"
| "reg_no Reg_s10 = 26"
| "reg_no Reg_s11 = 27"
| "reg_no Reg_t3 = 28"
| "reg_no Reg_t4 = 29"
| "reg_no Reg_t5 = 30"
| "reg_no Reg_t6 = 31"
| "reg_no Reg_pc = register_count"
| "reg_no Reg_unknown = register_count + 1"

abbreviation Reg_fp :: RegAlias where
  "Reg_fp \<equiv> Reg_s0"

definition all_aliases :: "RegAlias list" where
  "all_aliases = [Reg_zero, Reg_ra, Reg_sp, Reg_gp, Reg_tp, Reg_t0, Reg_t1, Reg_t2, Reg_s0, Reg_s1, Reg_a0, Reg_a1, Reg_a2, Reg_a3, Reg_a4, Reg_a5, Reg_a6, Reg_a7, Reg_s2, Reg_s3, Reg_s4, Reg_s5, Reg_s6, Reg_s7, Reg_s8, Reg_s9, Reg_s10, Reg_s11, Reg_t3, Reg_t4, Reg_t5, Reg_t6, Reg_pc, Reg_unknown]"

fun alias_name :: "RegAlias \<Rightarrow> string" where
  "alias_name Reg_zero = ''zero''"
| "alias_name Reg_ra = ''ra''"
| "alias_name Reg_sp = ''sp''"
| "alias_name Reg_gp = ''gp''"
| "alias_name Reg_tp = ''tp''"
| "alias_name Reg_t0 = ''t0''"
| "alias_name Reg_t1 = ''t1''"
| "alias_name Reg_t2 = ''t2''"
| "alias_name Reg_s0 = ''s0''"
| "alias_name Reg_s1 = ''s1''"
| "alias_name Reg_a0 = ''a0''"
| "alias_name Reg_a1 = ''a1''"
| "alias_name Reg_a2 = ''a2''"
| "alias_name Reg_a3 = ''a3''"
| "alias_name Reg_a4 = ''a4''"
| "alias_name Reg_a5 = ''a5''"
| "alias_name Reg_a6 = ''a6''"
| "alias_name Reg_a7 = ''a7''"
| "alias_name Reg_s2 = ''s2''"
| "alias_name Reg_s3 = ''s3''"
| "alias_name Reg_s4 = ''s4''"
| "alias_name Reg_s5 = ''s5''"
| "alias_name Reg_s6 = ''s6''"
| "alias_name Reg_s7 = ''s7''"
| "alias_name Reg_s8 = ''s8''"
| "alias_name Reg_s9 = ''s9''"
| "alias_name Reg_s10 = ''s10''"
| "alias_name Reg_s11 = ''s11''"
| "alias_name Reg_t3 = ''t3''"
| "alias_name Reg_t4 = ''t4''"
| "alias_name Reg_t5 = ''t5''"
| "alias_name Reg_t6 = ''t6''"
| "alias_name Reg_pc = ''pc''"
| "alias_name Reg_unknown = ''unknown''"

text \<open>
  The cast to the enumeration gives the enumerator of that value, if there is one; the \<open>switch\<close>
  falls through to its last line for a value with no enumerator.
\<close>

definition alias_cast :: "register_no \<Rightarrow> RegAlias option" where
  "alias_cast no = find (\<lambda>a. reg_no a = no) all_aliases"

definition get_register_alias :: "register_no \<Rightarrow> string" where
  "get_register_alias no =
     (let no = (if no > register_count then reg_no Reg_unknown else no)
      in case alias_cast no of Some a \<Rightarrow> alias_name a | None \<Rightarrow> ''IMPOSSIBLE'')"

section \<open>Lemmas\<close>

lemma alias_cast_reg_no [simp]: "alias_cast (reg_no a) = Some a"
  by (cases a) (simp_all add: alias_cast_def all_aliases_def register_count_def)

lemma alias_cast_unknown [simp]:
  "alias_cast 33 = Some Reg_unknown" "alias_cast (register_count + 1) = Some Reg_unknown"
  using alias_cast_reg_no [of Reg_unknown] by (simp_all add: register_count_def)

lemma reg_no_inject [simp]: "reg_no a = reg_no b \<longleftrightarrow> a = b"
  by (metis alias_cast_reg_no option.inject)

lemma alias_name_inject [simp]: "alias_name a = alias_name b \<longleftrightarrow> a = b"
  by (cases a; cases b) simp_all

lemma reg_no_surj:
  assumes "no \<le> register_count + 1"
  shows "\<exists>a. no = reg_no a"
proof -
  have "unat no \<in> set [0..<34]"
    using assms by (simp add: register_count_def word_le_nat_alt)
  then have "no \<in> set (map of_nat [0..<34])"
    by (metis imageI list.set_map of_nat_unat ucast_id)
  also have "map of_nat [0..<34] = map reg_no all_aliases"
    by (simp add: all_aliases_def register_count_def upt_conv_Cons)
  finally show ?thesis by auto
qed

lemma reg_no_le: "reg_no a \<le> register_count + 1"
  by (cases a) (simp_all add: register_count_def)

lemma get_register_alias_reg_no [simp]: "get_register_alias (reg_no a) = alias_name a"
  by (cases a) (simp_all add: get_register_alias_def register_count_def alias_cast_def all_aliases_def)

lemma get_register_alias_unknown: "register_count < no \<Longrightarrow> get_register_alias no = ''unknown''"
  by (simp add: get_register_alias_def register_count_def)

section \<open>Properties\<close>

text \<open>
  The names of the program counter and of the 32 general registers are pairwise different, the
  unreachable last line of the \<open>switch\<close> is never taken, and every other register number is
  \<open>unknown\<close>.
\<close>

theorem register_names:
  "inj_on get_register_alias {0..register_count}
   \<and> (\<forall>no. get_register_alias no \<noteq> ''IMPOSSIBLE'')
   \<and> (\<forall>no. get_register_alias no = ''unknown'' \<longleftrightarrow> register_count < no)"
proof (intro conjI allI)
  show "inj_on get_register_alias {0..register_count}"
  proof (rule inj_onI)
    fix x y
    assume "x \<in> {0..register_count}" and "y \<in> {0..register_count}"
      and eq: "get_register_alias x = get_register_alias y"
    then have "x \<le> register_count + 1" and "y \<le> register_count + 1"
      by (simp_all add: register_count_def word_le_nat_alt)
    then show "x = y" using eq by (auto dest!: reg_no_surj)
  qed
next
  fix no
  have "get_register_alias no \<in> range alias_name"
  proof (cases "no \<le> register_count")
    case True
    then have "no \<le> register_count + 1" by (simp add: register_count_def word_le_nat_alt)
    then show ?thesis by (auto dest!: reg_no_surj)
  next
    case False
    then have "get_register_alias no = alias_name Reg_unknown"
      by (simp add: get_register_alias_unknown)
    then show ?thesis by (rule range_eqI)
  qed
  moreover have "alias_name a \<noteq> ''IMPOSSIBLE''" for a by (cases a) simp_all
  ultimately show "get_register_alias no \<noteq> ''IMPOSSIBLE''" by (metis imageE)
next
  fix no
  show "get_register_alias no = ''unknown'' \<longleftrightarrow> register_count < no"
  proof (cases "no \<le> register_count")
    case True
    then have "no \<le> register_count + 1" by (simp add: register_count_def word_le_nat_alt)
    then obtain a where a: "no = reg_no a" by (auto dest!: reg_no_surj)
    then have "get_register_alias no = alias_name a" by (simp only: get_register_alias_reg_no)
    moreover from True a have "a \<noteq> Reg_unknown" by (auto simp: register_count_def)
    then have "alias_name a \<noteq> ''unknown''" by (cases a) simp_all
    ultimately show ?thesis using True by simp
  next
    case False
    then show ?thesis by (simp add: get_register_alias_unknown)
  qed
qed

end
