(* ===== verification/Bit_Tools.thy ===== *)
theory Bit_Tools
  imports Prelude
begin

text \<open>
  vm_bit_tools.hxx: the class template \<open>bits<Number>\<close> for the unsigned types, generic in the word
  length. \<open>sizeof(value_type) * 8\<close> is the length of the word type. Template arguments are natural
  numbers; where the offsets are run-time values of type \<open>offset_type\<close> they are 8-bit words, and a
  shift by the width or more is the undefined behaviour it is in C++.
\<close>

type_synonym offset_type = u8

definition all_bits_mask :: "'a::len word" where
  "all_bits_mask = NOT 0"

definition bit_count :: "'a::len itself \<Rightarrow> nat" where
  "bit_count _ = LENGTH('a)"

definition all_bits :: "'a::len word" where
  "all_bits = NOT 0"

definition lsb_pos :: nat where
  "lsb_pos = 0"

definition msb_pos :: "'a::len itself \<Rightarrow> nat" where
  "msb_pos t = bit_count t - 1"

definition sign_pos :: "'a::len itself \<Rightarrow> nat" where
  "sign_pos t = msb_pos t"

definition sign_mask :: "'a::len word" where
  "sign_mask = push_bit (sign_pos TYPE('a)) 1"

text \<open>The casts between the two types of the width: a value of the signed one is an integer.\<close>

definition to_signed :: "'a::len word \<Rightarrow> int" where
  "to_signed val = sint val"

definition to_unsigned :: "int \<Rightarrow> 'a::len word" where
  "to_unsigned val = word_of_int val"

text \<open>\<open>>>\<close> on a value converted to the signed type, as an arithmetic shift (C++20).\<close>

definition signed_shr :: "'a::len word \<Rightarrow> nat \<Rightarrow> 'a word" where
  "signed_shr x n = word_of_int (sint x div 2 ^ n)"

definition make_mask :: "nat \<Rightarrow> nat \<Rightarrow> 'a::len word" where
  "make_mask start len =
     (let from_start = push_bit start all_bits_mask AND all_bits_mask;
          from_end = push_bit len from_start AND all_bits_mask
      in from_start AND NOT from_end)"

definition get_bits :: "nat \<Rightarrow> nat \<Rightarrow> 'a::len word \<Rightarrow> 'a word" where
  "get_bits start len code =
     (let msk = make_mask 0 len in drop_bit start code AND msk)"

text \<open>A narrow operand of a shift is promoted to \<open>int\<close>; a shift is undefined from the promoted width on.\<close>

definition promoted_bits :: "'a::len itself \<Rightarrow> nat" where
  "promoted_bits t = max 32 LENGTH('a)"

definition get_bits_at :: "'a::len word \<Rightarrow> offset_type \<Rightarrow> offset_type \<Rightarrow> exn + 'a word" where
  "get_bits_at code start len =
     (let shift = of_nat (bit_count TYPE('a)) - len
      in if unat shift \<ge> promoted_bits TYPE('a) \<or> unat start \<ge> promoted_bits TYPE('a)
         then Inl (undefined Shift_Out_Of_Range)
         else Inr (drop_bit (unat start) code AND drop_bit (unat shift) all_bits_mask))"

definition get_range :: "nat \<Rightarrow> nat \<Rightarrow> 'a::len word \<Rightarrow> 'a word" where
  "get_range lsb msb code =
     (let shift = bit_count TYPE('a) - (msb - lsb + 1);
          msk = drop_bit shift all_bits_mask
      in drop_bit lsb code AND msk)"

definition get_range1 :: "nat \<Rightarrow> 'a::len word \<Rightarrow> 'a word" where
  "get_range1 index code = get_range index index code"

definition shift_bits :: "nat \<Rightarrow> nat \<Rightarrow> nat \<Rightarrow> 'a::len word \<Rightarrow> 'a word" where
  "shift_bits start to len code =
     (let msk = make_mask start len in push_bit to (drop_bit start (code AND msk)))"

text \<open>The overload with a run-time target, where a shift can be undefined.\<close>

definition shift_bits_to :: "nat \<Rightarrow> nat \<Rightarrow> 'a::len word \<Rightarrow> offset_type \<Rightarrow> exn + 'a word" where
  "shift_bits_to start len code to =
     (let msk = make_mask start len
      in if unat to \<ge> promoted_bits TYPE('a) then Inl (undefined Shift_Out_Of_Range)
         else Inr (push_bit (unat to) (drop_bit start (code AND msk))))"

definition extend_sign_from :: "nat \<Rightarrow> 'a::len word \<Rightarrow> 'a word" where
  "extend_sign_from position code =
     (let sgn = push_bit (sign_pos TYPE('a)) (drop_bit position code);
          msk = signed_shr sgn (sign_pos TYPE('a) - position)
      in code OR msk)"

text \<open>The overload with a run-time position; the width minus a position past the sign bit is negative.\<close>

definition extend_sign_at :: "'a::len word \<Rightarrow> offset_type \<Rightarrow> exn + 'a word" where
  "extend_sign_at code position =
     (if unat position > sign_pos TYPE('a) then Inl (undefined Shift_Out_Of_Range)
      else Inr (extend_sign_from (unat position) code))"

text \<open>\<open>std::countl_zero\<close>: the number of consecutive 0 bits from the most significant one.\<close>

definition countl_zero :: "'a::len word \<Rightarrow> nat" where
  "countl_zero code = length (takeWhile (\<lambda>i. \<not> bit code i) (rev [0..<LENGTH('a)]))"

definition extend_sign :: "'a::len word \<Rightarrow> 'a word" where
  "extend_sign code =
     (let position = of_nat (bit_count TYPE('a)) - of_nat (countl_zero code) - 1 :: offset_type
      in if unat position \<ge> bit_count TYPE('a) then code
         else extend_sign_from (unat position) code)"

definition arithmetic_shift :: "'a::len word \<Rightarrow> nat \<Rightarrow> 'a word" where
  "arithmetic_shift code shift = signed_shr code shift"

section \<open>Bits of the results\<close>

named_theorems field_simps_bits \<open>the bits of masks, fields and extensions\<close>

lemma bit_all_bits_mask [field_simps_bits]: "bit (all_bits_mask :: 'a::len word) n \<longleftrightarrow> n < LENGTH('a)"
  by (simp add: all_bits_mask_def bit_simps)

lemma bit_make_mask [field_simps_bits]:
  "bit (make_mask start len :: 'a::len word) n \<longleftrightarrow> n < LENGTH('a) \<and> start \<le> n \<and> n < start + len"
  by (auto simp: make_mask_def Let_def bit_simps field_simps_bits)

lemma bit_get_bits [field_simps_bits]:
  "bit (get_bits start len code :: 'a::len word) n \<longleftrightarrow> n < len \<and> bit code (start + n)"
  by (auto simp: get_bits_def Let_def bit_simps field_simps_bits dest: bit_imp_le_length)

lemma bit_get_range [field_simps_bits]:
  "bit (get_range lsb msb code :: 'a::len word) n \<longleftrightarrow> n \<le> msb - lsb \<and> bit code (lsb + n)"
  by (auto simp: get_range_def Let_def bit_simps field_simps_bits bit_count_def dest: bit_imp_le_length)

lemma bit_get_range1 [field_simps_bits]:
  "bit (get_range1 i code :: 'a::len word) n \<longleftrightarrow> n = 0 \<and> bit code i"
  by (auto simp: get_range1_def bit_get_range)

lemma bit_shift_bits [field_simps_bits]:
  "bit (shift_bits start to len code :: 'a::len word) n \<longleftrightarrow>
     n < LENGTH('a) \<and> to \<le> n \<and> n < to + len \<and> bit code (start + (n - to))"
  by (auto simp: shift_bits_def Let_def bit_simps field_simps_bits dest: bit_imp_le_length)

lemma signed_shr_eq: "signed_shr x n = signed_drop_bit n x"
proof -
  have "signed_shr x n = word_of_int (sint (signed_drop_bit n x))"
    by (simp add: signed_shr_def sint_signed_drop_bit_eq drop_bit_eq_div)
  then show ?thesis by simp
qed

lemma bit_extend_sign_from [field_simps_bits]:
  fixes code :: "'a::len word"
  assumes "p < LENGTH('a)"
  shows "bit (extend_sign_from p code) n \<longleftrightarrow> bit code n \<or> n < LENGTH('a) \<and> p \<le> n \<and> bit code p"
  using assms
  by (auto simp: extend_sign_from_def Let_def signed_shr_eq bit_simps sign_pos_def msb_pos_def bit_count_def
      dest: bit_imp_le_length)

lemma countl_zero_0: "countl_zero (0 :: 'a::len word) = LENGTH('a)"
proof -
  have "takeWhile (\<lambda>i. \<not> bit (0 :: 'a word) i) (rev [0..<LENGTH('a)]) = rev [0..<LENGTH('a)]"
    by (rule takeWhile_eq_all_conv [THEN iffD2]) simp
  then show ?thesis by (simp only: countl_zero_def) simp
qed

text \<open>\<open>p\<close> is the position of the most significant 1 bit.\<close>

lemma countl_zero_top:
  fixes code :: "'a::len word"
  assumes top: "bit code p" and above: "\<And>n. p < n \<Longrightarrow> \<not> bit code n"
  shows "countl_zero code = LENGTH('a) - 1 - p"
proof -
  from top have p: "p < LENGTH('a)" by (rule bit_imp_le_length)
  have "[0..<LENGTH('a)] = [0..<p] @ p # [Suc p..<LENGTH('a)]"
    using p upt_add_eq_append [of 0 p "LENGTH('a) - p"] by (simp add: upt_conv_Cons)
  then have "rev [0..<LENGTH('a)] = rev [Suc p..<LENGTH('a)] @ p # rev [0..<p]" by simp
  moreover have "takeWhile (\<lambda>i. \<not> bit code i) (rev [Suc p..<LENGTH('a)] @ p # rev [0..<p])
      = rev [Suc p..<LENGTH('a)]"
    using top above by (subst takeWhile_append2) auto
  ultimately show ?thesis using p by (simp only: countl_zero_def) simp
qed

lemma word8_diff_small:
  assumes "c < l" and "l < 256"
  shows "unat (of_nat l - of_nat c - 1 :: u8) = l - c - 1"
proof -
  obtain d where l: "l = c + 1 + d" using assms(1) by (metis Suc_eq_plus1 Suc_leI le_Suc_ex)
  then have "(of_nat l - of_nat c - 1 :: u8) = of_nat d" by simp
  then show ?thesis using assms(2) l by (simp add: unat_of_nat take_bit_nat_eq_self)
qed

lemma extend_sign_0:
  assumes "LENGTH('a) < 256"
  shows "extend_sign (0 :: 'a::len word) = 0"
proof -
  have "unat (of_nat LENGTH('a) - of_nat LENGTH('a) - 1 :: u8) = 255"
    by (simp add: unsigned_minus_1_eq_mask mask_eq_exp_minus_1)
  then show ?thesis using assms by (simp add: extend_sign_def countl_zero_0 bit_count_def)
qed

lemma extend_sign_top:
  fixes code :: "'a::len word"
  assumes top: "bit code p" and above: "\<And>n. p < n \<Longrightarrow> \<not> bit code n" and small: "LENGTH('a) < 256"
  shows "extend_sign code = extend_sign_from p code"
proof -
  from top have p: "p < LENGTH('a)" by (rule bit_imp_le_length)
  have "countl_zero code = LENGTH('a) - 1 - p" using top above by (rule countl_zero_top)
  moreover have "LENGTH('a) - 1 - p < LENGTH('a)" by simp
  then have "unat (of_nat LENGTH('a) - of_nat (LENGTH('a) - 1 - p) - 1 :: u8) = p"
    using small p by (subst word8_diff_small) auto
  ultimately show ?thesis using p by (simp add: extend_sign_def bit_count_def)
qed

lemma top_bit_exists:
  fixes code :: "'a::len word"
  assumes "code \<noteq> 0"
  obtains p where "bit code p" and "\<And>n. p < n \<Longrightarrow> \<not> bit code n"
proof -
  from assms obtain i where "bit code i" by (auto simp: bit_eq_iff)
  have fin: "finite {n. bit code n}"
    by (rule finite_subset [of _ "{..<LENGTH('a)}"]) (auto dest: bit_imp_le_length)
  have "{n. bit code n} \<noteq> {}" using \<open>bit code i\<close> by blast
  with fin have "Max {n. bit code n} \<in> {n. bit code n}" by (rule Max_in)
  then have "bit code (Max {n. bit code n})" by (rule CollectD)
  moreover have "\<not> bit code n" if "Max {n. bit code n} < n" for n
    using that Max_ge [OF fin] by (metis CollectI leD)
  ultimately show ?thesis by (rule that)
qed

section \<open>Properties\<close>

text \<open>
  The two forms of sign extension. \<open>extend_sign<position>\<close> of a field that has no bit above its
  sign position is the value of that field read as a signed number of \<open>position + 1\<close> bits; the form
  without a position copies the most significant 1 bit upwards, which leaves only the bits below the
  most significant 1 as they are and turns every bit above it on.
\<close>

theorem sign_extension:
  fixes code :: "'a::len word"
  assumes "LENGTH('a) < 256" and "p < LENGTH('a)"
  shows "extend_sign_from p (take_bit (Suc p) code) = signed_take_bit p code
    \<and> (\<forall>n < LENGTH('a). bit (extend_sign code) n \<longleftrightarrow> bit code n \<or> (\<exists>m. m < n \<and> bit code m \<and> (\<forall>k>m. \<not> bit code k)))"
proof
  show "extend_sign_from p (take_bit (Suc p) code) = signed_take_bit p code"
    using assms(2) by (intro bit_word_eqI) (auto simp: bit_simps field_simps_bits min_def less_Suc_eq)
next
  show "\<forall>n < LENGTH('a). bit (extend_sign code) n \<longleftrightarrow>
      bit code n \<or> (\<exists>m. m < n \<and> bit code m \<and> (\<forall>k>m. \<not> bit code k))"
  proof (cases "code = 0")
    case True
    with assms(1) show ?thesis by (simp add: extend_sign_0)
  next
    case False
    then obtain q where q: "bit code q" "\<And>n. q < n \<Longrightarrow> \<not> bit code n" by (rule top_bit_exists) blast
    then have "extend_sign code = extend_sign_from q code" using assms(1) by (rule extend_sign_top)
    moreover have "q < LENGTH('a)" using q(1) by (rule bit_imp_le_length)
    moreover have "(\<exists>m. m < n \<and> bit code m \<and> (\<forall>k>m. \<not> bit code k)) \<longleftrightarrow> q < n" for n
      using q by (metis linorder_neqE_nat)
    ultimately show ?thesis using q(1) by (auto simp: bit_extend_sign_from le_less)
  qed
qed

theorem sign_extension_witness:
  "extend_sign_from 11 (take_bit 12 0xFFFFFABC) = signed_take_bit 11 (0xFFFFFABC :: u32)
   \<and> bit (extend_sign (0x10 :: u32)) 9"
proof
  show "extend_sign_from 11 (take_bit 12 0xFFFFFABC) = signed_take_bit 11 (0xFFFFFABC :: u32)"
    using sign_extension [of 11 "0xFFFFFABC :: u32"] by simp
next
  have "(0x10 :: u32) = push_bit 4 1" by simp
  then have "bit (0x10 :: u32) k \<longleftrightarrow> k = 4" for k by (simp only: bit_simps) auto
  then show "bit (extend_sign (0x10 :: u32)) 9"
    using sign_extension [of 0 "0x10 :: u32"] by auto
qed

end
