(* ===== verification/Opcode.thy ===== *)
theory Opcode
  imports Base_Types Bit_Tools
begin

text \<open>
  vm_opcode.hxx / vm_opcode.cxx: the instruction word. \<open>Decoder\<close> wraps one 32-bit code and has no
  other state, so a decoder is the code itself; \<open>Encoder\<close> has static functions only.
\<close>

type_synonym opcode_t = u32
type_synonym data_t = u32

datatype BaseFormat = UNKNOWN | R_TYPE | I_TYPE | S_TYPE | B_TYPE | U_TYPE | J_TYPE

definition to_hex :: "data_t \<Rightarrow> string" where
  "to_hex num = map (\<lambda>i. hex_digit (drop_bit (4 * i) num AND 15)) (rev [0..<8])"

text \<open>\<open>extend_sign(value, code)\<close>: sign-fill \<open>value\<close> when the most significant bit of \<open>code\<close> is set.\<close>

definition opcode_extend_sign :: "data_t \<Rightarrow> opcode_t \<Rightarrow> data_t" where
  "opcode_extend_sign val code =
     (let sgn = code AND push_bit 31 1 in if sgn \<noteq> 0 then extend_sign val else val)"

text \<open>The templates of namespace \<open>opcode\<close>, which are those of \<open>bits<data_t>\<close>.\<close>

definition opcode_make_mask :: "nat \<Rightarrow> nat \<Rightarrow> data_t" where
  "opcode_make_mask start len = make_mask start len"

definition mask_value :: "nat \<Rightarrow> nat \<Rightarrow> data_t" where
  "mask_value start len = make_mask start len"

definition opcode_get_bits :: "nat \<Rightarrow> nat \<Rightarrow> opcode_t \<Rightarrow> data_t" where
  "opcode_get_bits start len code = get_bits start len code"

definition opcode_get_bits_at :: "opcode_t \<Rightarrow> u8 \<Rightarrow> u8 \<Rightarrow> exn + data_t" where
  "opcode_get_bits_at code start len = get_bits_at code start len"

definition opcode_shift_bits :: "nat \<Rightarrow> nat \<Rightarrow> nat \<Rightarrow> opcode_t \<Rightarrow> data_t" where
  "opcode_shift_bits start to len code = shift_bits start to len code"

definition opcode_shift_bits_to :: "nat \<Rightarrow> nat \<Rightarrow> opcode_t \<Rightarrow> offset_type \<Rightarrow> exn + data_t" where
  "opcode_shift_bits_to start len code to = shift_bits_to start len code to"

section \<open>Decoder\<close>

definition get_code :: "opcode_t \<Rightarrow> opcode_t" where
  "get_code code = get_bits 0 7 code"

definition get_rs2 :: "opcode_t \<Rightarrow> register_no" where
  "get_rs2 code = ucast (get_bits 20 5 code)"

definition get_rs1 :: "opcode_t \<Rightarrow> register_no" where
  "get_rs1 code = ucast (get_bits 15 5 code)"

definition get_rd :: "opcode_t \<Rightarrow> register_no" where
  "get_rd code = ucast (get_bits 7 5 code)"

definition get_func3 :: "opcode_t \<Rightarrow> data_t" where
  "get_func3 code = get_bits 12 3 code"

definition get_func7 :: "opcode_t \<Rightarrow> data_t" where
  "get_func7 code = get_bits 25 7 code"

definition decode_i_u :: "opcode_t \<Rightarrow> data_t" where
  "decode_i_u code = shift_bits 20 0 12 code"

definition decode_i :: "opcode_t \<Rightarrow> data_t" where
  "decode_i code = extend_sign_from 11 (decode_i_u code)"

definition decode_s_u :: "opcode_t \<Rightarrow> data_t" where
  "decode_s_u code =
     (let a = shift_bits 7 0 5 code;
          b = shift_bits 25 5 7 code
      in a OR b)"

definition decode_s :: "opcode_t \<Rightarrow> data_t" where
  "decode_s code = extend_sign_from 11 (decode_s_u code)"

definition decode_b_u :: "opcode_t \<Rightarrow> data_t" where
  "decode_b_u code =
     (let s = shift_bits 31 12 1 code;
          a = shift_bits 8 1 4 code;
          c = shift_bits 7 11 1 code;
          b = shift_bits 25 5 6 code
      in s OR a OR b OR c OR 0)"

definition decode_b :: "opcode_t \<Rightarrow> data_t" where
  "decode_b code = extend_sign_from 12 (decode_b_u code)"

definition decode_u :: "opcode_t \<Rightarrow> data_t" where
  "decode_u code = code AND make_mask 12 30"

definition decode_u_u :: "opcode_t \<Rightarrow> data_t" where
  "decode_u_u code = decode_u code"

definition decode_j_u :: "opcode_t \<Rightarrow> data_t" where
  "decode_j_u code =
     (let s = shift_bits 31 20 1 code;
          a = shift_bits 12 12 8 code;
          b = shift_bits 20 11 1 code;
          c = shift_bits 21 1 10 code
      in s OR a OR b OR c OR 0)"

definition decode_j :: "opcode_t \<Rightarrow> data_t" where
  "decode_j code = extend_sign_from 20 (decode_j_u code)"

section \<open>Encoder\<close>

definition group_offset :: nat where
  "group_offset = 0"

definition rd_offset :: nat where
  "rd_offset = 7"

definition f3_offset :: nat where
  "f3_offset = 12"

definition rs1_offset :: nat where
  "rs1_offset = 15"

definition rs2_offset :: nat where
  "rs2_offset = 20"

definition f7_offset :: nat where
  "f7_offset = 25"

definition encode_group :: "opcode_t \<Rightarrow> opcode_t" where
  "encode_group grp = push_bit group_offset grp"

definition encode_rd :: "opcode_t \<Rightarrow> opcode_t" where
  "encode_rd i = push_bit rd_offset i"

definition encode_f3 :: "opcode_t \<Rightarrow> opcode_t" where
  "encode_f3 i = push_bit f3_offset i"

definition encode_rs1 :: "opcode_t \<Rightarrow> opcode_t" where
  "encode_rs1 i = push_bit rs1_offset i"

definition encode_rs2 :: "opcode_t \<Rightarrow> opcode_t" where
  "encode_rs2 i = push_bit rs2_offset i"

definition encode_f7 :: "opcode_t \<Rightarrow> opcode_t" where
  "encode_f7 i = push_bit f7_offset i"

definition encode_i :: "opcode_t \<Rightarrow> opcode_t" where
  "encode_i immediate = push_bit 20 immediate"

definition encode_s :: "opcode_t \<Rightarrow> opcode_t" where
  "encode_s immediate =
     0 OR push_bit 7 (get_range 0 4 immediate) OR push_bit 25 (get_range 5 11 immediate)"

definition encode_b :: "opcode_t \<Rightarrow> opcode_t" where
  "encode_b immediate =
     0 OR push_bit 7 (get_range1 11 immediate) OR push_bit 8 (get_range 1 4 immediate)
       OR push_bit 25 (get_range 5 10 immediate) OR push_bit 31 (get_range1 12 immediate)"

definition encode_u :: "opcode_t \<Rightarrow> opcode_t" where
  "encode_u immediate = 0 OR immediate"

definition encode_j :: "opcode_t \<Rightarrow> opcode_t" where
  "encode_j immediate =
     0 OR push_bit 31 (get_range1 20 immediate) OR push_bit 21 (get_range 1 10 immediate)
       OR push_bit 20 (get_range1 11 immediate) OR push_bit 12 (get_range 12 19 immediate)"

definition r_type :: "opcode_t \<Rightarrow> opcode_t \<Rightarrow> opcode_t \<Rightarrow> opcode_t \<Rightarrow> opcode_t \<Rightarrow> opcode_t \<Rightarrow> opcode_t" where
  "r_type grp rd rs1 rs2 fa fb =
     0 OR encode_group grp OR encode_rd rd OR encode_f3 fa OR encode_rs1 rs1 OR encode_rs2 rs2
       OR encode_f7 fb"

definition i_type :: "opcode_t \<Rightarrow> opcode_t \<Rightarrow> opcode_t \<Rightarrow> opcode_t \<Rightarrow> opcode_t \<Rightarrow> opcode_t" where
  "i_type grp rd rs1 immediate fa =
     (0 OR encode_group grp OR encode_rd rd OR encode_f3 fa OR encode_rs1 rs1) OR encode_i immediate"

definition s_type :: "opcode_t \<Rightarrow> opcode_t \<Rightarrow> opcode_t \<Rightarrow> opcode_t \<Rightarrow> opcode_t \<Rightarrow> opcode_t" where
  "s_type grp rs1 rs2 immediate fa =
     (0 OR encode_group grp OR encode_f3 fa OR encode_rs1 rs1 OR encode_rs2 rs2) OR encode_s immediate"

definition b_type :: "opcode_t \<Rightarrow> opcode_t \<Rightarrow> opcode_t \<Rightarrow> opcode_t \<Rightarrow> opcode_t \<Rightarrow> opcode_t" where
  "b_type grp rs1 rs2 immediate fa =
     (0 OR encode_group grp OR encode_f3 fa OR encode_rs1 rs1 OR encode_rs2 rs2) OR encode_b immediate"

definition u_type :: "opcode_t \<Rightarrow> opcode_t \<Rightarrow> opcode_t \<Rightarrow> opcode_t" where
  "u_type grp rd immediate = (0 OR encode_group grp OR encode_rd rd) OR encode_u immediate"

definition j_type :: "opcode_t \<Rightarrow> opcode_t \<Rightarrow> opcode_t \<Rightarrow> opcode_t" where
  "j_type grp rd immediate = (0 OR encode_group grp OR encode_rd rd) OR encode_j immediate"

section \<open>Opcode groups\<close>

definition op_size :: "opcode_t \<Rightarrow> size_t" where
  "op_size code =
     (if 0b00000011 AND code \<noteq> 0b0000011 then 1
      else if 0b00011100 AND code \<noteq> 0b0011100 then 2
      else if 0b00111111 AND code = 0b0011111 then 3
      else if 0b01111111 AND code = 0b0111111 then 3
      else 0)"

definition make_opcode :: "opcode_t \<Rightarrow> opcode_t \<Rightarrow> opcode_t" where
  "make_opcode i65 i42 = push_bit 5 i65 OR push_bit 2 i42 OR 0b011"

datatype OpcodeType =
    LOAD
  | STORE
  | MADD
  | BRANCH
  | LOAD_FP
  | STORE_FP
  | MSUB
  | JALR
  | CUSTOM_0
  | CUSTOM_1
  | NMSUB
  | R_11_010
  | MISC_MEM
  | AMO
  | NMADD
  | JAL
  | OP_IMM
  | OP
  | OP_FP
  | SYSTEM
  | AUIPC
  | LUI
  | R_10_101
  | R_11_101
  | OP_IMM_32
  | OP_32
  | CUSTOM_2
  | CUSTOM_3

fun opcode_value :: "OpcodeType \<Rightarrow> opcode_t" where
  "opcode_value LOAD = make_opcode 0 0"
| "opcode_value STORE = make_opcode 1 0"
| "opcode_value MADD = make_opcode 2 0"
| "opcode_value BRANCH = make_opcode 3 0"
| "opcode_value LOAD_FP = make_opcode 0 1"
| "opcode_value STORE_FP = make_opcode 1 1"
| "opcode_value MSUB = make_opcode 2 1"
| "opcode_value JALR = make_opcode 3 1"
| "opcode_value CUSTOM_0 = make_opcode 0 2"
| "opcode_value CUSTOM_1 = make_opcode 1 2"
| "opcode_value NMSUB = make_opcode 2 2"
| "opcode_value R_11_010 = make_opcode 3 2"
| "opcode_value MISC_MEM = make_opcode 0 3"
| "opcode_value AMO = make_opcode 1 3"
| "opcode_value NMADD = make_opcode 2 3"
| "opcode_value JAL = make_opcode 3 3"
| "opcode_value OP_IMM = make_opcode 0 4"
| "opcode_value OP = make_opcode 1 4"
| "opcode_value OP_FP = make_opcode 2 4"
| "opcode_value SYSTEM = make_opcode 3 4"
| "opcode_value AUIPC = make_opcode 0 5"
| "opcode_value LUI = make_opcode 1 5"
| "opcode_value R_10_101 = make_opcode 2 5"
| "opcode_value R_11_101 = make_opcode 3 5"
| "opcode_value OP_IMM_32 = make_opcode 0 6"
| "opcode_value OP_32 = make_opcode 1 6"
| "opcode_value CUSTOM_2 = make_opcode 2 6"
| "opcode_value CUSTOM_3 = make_opcode 3 6"

definition all_opcodes :: "OpcodeType list" where
  "all_opcodes = [LOAD, STORE, MADD, BRANCH, LOAD_FP, STORE_FP, MSUB, JALR, CUSTOM_0, CUSTOM_1, NMSUB, R_11_010, MISC_MEM, AMO, NMADD, JAL, OP_IMM, OP, OP_FP, SYSTEM, AUIPC, LUI, R_10_101, R_11_101, OP_IMM_32, OP_32, CUSTOM_2, CUSTOM_3]"

text \<open>
  The cast of a raw code to \<open>OpcodeType\<close> (an enumeration with a fixed underlying type holds every
  32-bit value) and the \<open>switch\<close> on it.
\<close>

definition opcode_cast :: "opcode_t \<Rightarrow> OpcodeType option" where
  "opcode_cast code = find (\<lambda>t. opcode_value t = code) all_opcodes"

fun opcode_name :: "OpcodeType \<Rightarrow> string" where
  "opcode_name LOAD = ''LOAD''"
| "opcode_name STORE = ''STORE''"
| "opcode_name MADD = ''MADD''"
| "opcode_name BRANCH = ''BRANCH''"
| "opcode_name LOAD_FP = ''LOAD_FP''"
| "opcode_name STORE_FP = ''STORE_FP''"
| "opcode_name MSUB = ''MSUB''"
| "opcode_name JALR = ''JALR''"
| "opcode_name CUSTOM_0 = ''CUSTOM_0''"
| "opcode_name CUSTOM_1 = ''CUSTOM_1''"
| "opcode_name NMSUB = ''NMSUB''"
| "opcode_name R_11_010 = ''R_11_010''"
| "opcode_name MISC_MEM = ''MISC_MEM''"
| "opcode_name AMO = ''AMO''"
| "opcode_name NMADD = ''NMADD''"
| "opcode_name JAL = ''JAL''"
| "opcode_name OP_IMM = ''OP_IMM''"
| "opcode_name OP = ''OP''"
| "opcode_name OP_FP = ''OP_FP''"
| "opcode_name SYSTEM = ''SYSTEM''"
| "opcode_name AUIPC = ''AUIPC''"
| "opcode_name LUI = ''LUI''"
| "opcode_name R_10_101 = ''R_10_101''"
| "opcode_name R_11_101 = ''R_11_101''"
| "opcode_name OP_IMM_32 = ''OP_IMM_32''"
| "opcode_name OP_32 = ''OP_32''"
| "opcode_name CUSTOM_2 = ''CUSTOM_2''"
| "opcode_name CUSTOM_3 = ''CUSTOM_3''"

definition get_op_id :: "opcode_t \<Rightarrow> string" where
  "get_op_id code = (case opcode_cast code of Some t \<Rightarrow> opcode_name t | None \<Rightarrow> ''UNKNOWN'')"

definition get_code_id :: "opcode_t \<Rightarrow> string" where
  "get_code_id code = get_op_id (code AND make_mask 0 7)"

section \<open>Fields bit by bit\<close>

lemma upt_32: "[0..<32] = [0, 1, 2, 3, 4, 5, 6, 7, 8, 9, 10, 11, 12, 13, 14, 15, 16, 17, 18, 19, 20, 21, 22, 23, 24, 25, 26, 27, 28, 29, 30, 31]"
  by (simp add: upt_rec)

text \<open>Two words are equal when their 32 bits are: the simplifier then computes each position.\<close>

lemma u32_eq_bits:
  fixes x y :: u32
  shows "x = y \<longleftrightarrow> list_all (\<lambda>n. bit x n \<longleftrightarrow> bit y n) [0..<32]"
  by (auto simp: bit_eq_iff list_all_iff dest: bit_imp_le_length)

named_theorems decoder_defs \<open>the decoder's functions\<close>
named_theorems encoder_defs \<open>the encoder's functions\<close>

lemmas [decoder_defs] =
  get_code_def get_rs2_def get_rs1_def get_rd_def get_func3_def get_func7_def
  decode_i_def decode_i_u_def decode_s_def decode_s_u_def decode_b_def decode_b_u_def
  decode_u_def decode_u_u_def decode_j_def decode_j_u_def

lemmas [encoder_defs] =
  r_type_def i_type_def s_type_def b_type_def u_type_def j_type_def
  encode_group_def encode_rd_def encode_f3_def encode_rs1_def encode_rs2_def encode_f7_def
  group_offset_def rd_offset_def f3_offset_def rs1_offset_def rs2_offset_def f7_offset_def
  encode_i_def encode_s_def encode_b_def encode_u_def encode_j_def

lemmas bits32 = u32_eq_bits [unfolded upt_32] bit_simps field_simps_bits decoder_defs encoder_defs

lemma reencode_r:
  "r_type (get_code c) (ucast (get_rd c)) (ucast (get_rs1 c)) (ucast (get_rs2 c))
     (get_func3 c) (get_func7 c) = c"
  by (simp add: bits32)

lemma reencode_i:
  "i_type (get_code c) (ucast (get_rd c)) (ucast (get_rs1 c)) (decode_i c) (get_func3 c) = c"
  by (simp add: bits32)

lemma reencode_s:
  "s_type (get_code c) (ucast (get_rs1 c)) (ucast (get_rs2 c)) (decode_s c) (get_func3 c) = c"
  by (simp add: bits32 Let_def)

lemma reencode_b:
  "b_type (get_code c) (ucast (get_rs1 c)) (ucast (get_rs2 c)) (decode_b c) (get_func3 c) = c"
  by (simp add: bits32 Let_def)

lemma reencode_u: "u_type (get_code c) (ucast (get_rd c)) (decode_u c) = c"
  by (simp add: bits32)

lemma reencode_j: "j_type (get_code c) (ucast (get_rd c)) (decode_j c) = c"
  by (simp add: bits32 Let_def)

text \<open>The bits of a value that fits its field.\<close>

lemma bit_of_small:
  fixes w :: "'a::len word"
  assumes "w < 2 ^ k" and "k \<le> n"
  shows "\<not> bit w n"
proof
  assume b: "bit w n"
  then have "n < LENGTH('a)" by (rule bit_imp_le_length)
  from assms(1) have "w AND mask k = w" by (rule less_mask_eq)
  with b have "bit (w AND mask k) n" by simp
  with assms(2) show False by (simp add: bit_and_iff bit_mask_iff)
qed

lemma bit_small_less: "w < 2 ^ k \<Longrightarrow> bit w n \<Longrightarrow> n < k" for w :: "'a::len word"
  by (meson bit_of_small not_less)

lemmas small_7 = bit_of_small [where k = 7, simplified]
lemmas small_5 = bit_of_small [where k = 5, simplified]
lemmas small_3 = bit_of_small [where k = 3, simplified]

lemma u8_eq_bits:
  fixes x y :: u8
  shows "x = y \<longleftrightarrow> list_all (\<lambda>n. bit x n \<longleftrightarrow> bit y n) [0,1,2,3,4,5,6,7]"
proof -
  have "[0,1,2,3,4,5,6,7] = [0..<8]" by (simp add: upt_rec)
  then show ?thesis by (auto simp: bit_eq_iff list_all_iff dest: bit_imp_le_length)
qed

lemmas small_bits = small_7 small_5 small_3

lemma decode_r_type:
  assumes "grp < 128" "rd < 32" "rs1 < 32" "rs2 < 32" "fa < 8" "fb < 128"
  shows "get_code (r_type grp rd rs1 rs2 fa fb) = grp" "get_rd (r_type grp rd rs1 rs2 fa fb) = ucast rd"
    "get_rs1 (r_type grp rd rs1 rs2 fa fb) = ucast rs1" "get_rs2 (r_type grp rd rs1 rs2 fa fb) = ucast rs2"
    "get_func3 (r_type grp rd rs1 rs2 fa fb) = fa" "get_func7 (r_type grp rd rs1 rs2 fa fb) = fb"
  using assms by (simp_all add: bits32 u8_eq_bits small_bits)

lemma decode_i_type:
  assumes "grp < 128" "rd < 32" "rs1 < 32" "fa < 8"
  shows "get_code (i_type grp rd rs1 imm fa) = grp" "get_rd (i_type grp rd rs1 imm fa) = ucast rd"
    "get_rs1 (i_type grp rd rs1 imm fa) = ucast rs1" "get_func3 (i_type grp rd rs1 imm fa) = fa"
    "decode_i (i_type grp rd rs1 imm fa) = signed_take_bit 11 imm"
    "decode_i_u (i_type grp rd rs1 imm fa) = take_bit 12 imm"
  using assms by (simp_all add: bits32 u8_eq_bits small_bits)

lemma decode_s_type:
  assumes "grp < 128" "rs1 < 32" "rs2 < 32" "fa < 8"
  shows "get_code (s_type grp rs1 rs2 imm fa) = grp" "get_rs1 (s_type grp rs1 rs2 imm fa) = ucast rs1"
    "get_rs2 (s_type grp rs1 rs2 imm fa) = ucast rs2" "get_func3 (s_type grp rs1 rs2 imm fa) = fa"
    "decode_s (s_type grp rs1 rs2 imm fa) = signed_take_bit 11 imm"
  using assms by (simp_all add: bits32 u8_eq_bits small_bits Let_def)

lemma decode_b_type:
  assumes "grp < 128" "rs1 < 32" "rs2 < 32" "fa < 8"
  shows "get_code (b_type grp rs1 rs2 imm fa) = grp" "get_rs1 (b_type grp rs1 rs2 imm fa) = ucast rs1"
    "get_rs2 (b_type grp rs1 rs2 imm fa) = ucast rs2" "get_func3 (b_type grp rs1 rs2 imm fa) = fa"
    "decode_b (b_type grp rs1 rs2 imm fa) = signed_take_bit 12 (imm AND NOT 1)"
  using assms by (simp_all add: bits32 u8_eq_bits small_bits Let_def flip: numeral_2_eq_2)

lemma decode_u_type:
  assumes "grp < 128" "rd < 32" "take_bit 12 imm = 0"
  shows "get_code (u_type grp rd imm) = grp" "get_rd (u_type grp rd imm) = ucast rd"
    "decode_u (u_type grp rd imm) = imm"
proof -
  have low: "\<not> bit imm n" if "n < 12" for n
    using assms(3) that by (metis bit_0_eq bit_take_bit_iff bot_apply bot_bool_def)
  show "get_code (u_type grp rd imm) = grp" "get_rd (u_type grp rd imm) = ucast rd"
    "decode_u (u_type grp rd imm) = imm"
    using assms(1,2) low by (simp_all add: bits32 u8_eq_bits small_bits)
qed

lemma decode_j_type:
  assumes "grp < 128" "rd < 32"
  shows "get_code (j_type grp rd imm) = grp" "get_rd (j_type grp rd imm) = ucast rd"
    "decode_j (j_type grp rd imm) = signed_take_bit 20 (imm AND NOT 1)"
  using assms by (simp_all add: bits32 u8_eq_bits small_bits Let_def flip: numeral_2_eq_2)

lemma opcode_cast_value [simp]: "opcode_cast (opcode_value t) = Some t"
  by (cases t) (simp_all add: opcode_cast_def all_opcodes_def make_opcode_def)

lemma opcode_value_inject [simp]: "opcode_value a = opcode_value b \<longleftrightarrow> a = b"
  by (metis opcode_cast_value option.inject)

lemma opcode_cast_SomeD: "opcode_cast c = Some t \<Longrightarrow> c = opcode_value t"
  by (auto simp: opcode_cast_def find_Some_iff)

lemma opcode_value_small: "opcode_value t < 128"
  by (cases t) (simp_all add: make_opcode_def)

lemma get_code_small: "get_code c < 128"
proof -
  have "get_code c = take_bit 7 c" by (simp add: bits32)
  moreover have "unat (take_bit 7 c) < 2 ^ 7"
    unfolding unsigned_take_bit_eq by (rule take_bit_nat_less_exp)
  ultimately show ?thesis by (simp add: word_less_nat_alt)
qed

text \<open>The arithmetic right shift by a logical shift and sign filling.\<close>

lemma opcode_extend_sign_shift:
  assumes "n < 32"
  shows "opcode_extend_sign (drop_bit n v) v = signed_drop_bit n v"
proof (cases "bit v 31")
  case False
  then have "v AND push_bit 31 1 = 0" by (simp add: bits32)
  then have "opcode_extend_sign (drop_bit n v) v = drop_bit n v" by (simp add: opcode_extend_sign_def)
  also have "\<dots> = signed_drop_bit n v"
    using False assms by (intro bit_word_eqI) (auto simp: bit_simps dest: bit_imp_le_length)
  finally show ?thesis .
next
  case True
  then have "bit (v AND push_bit 31 1) 31" by (simp add: bit_simps)
  then have "v AND push_bit 31 1 \<noteq> 0" by force
  then have "opcode_extend_sign (drop_bit n v) v = extend_sign (drop_bit n v)"
    by (simp add: opcode_extend_sign_def Let_def)
  also have "\<dots> = extend_sign_from (31 - n) (drop_bit n v)"
    using True assms by (intro extend_sign_top) (auto simp: bit_simps dest: bit_imp_le_length)
  also have "\<dots> = signed_drop_bit n v"
  proof (rule bit_word_eqI)
    fix k
    assume k: "k < LENGTH(32)"
    have n: "n + (31 - n) = 31" using assms by simp
    have l: "bit (extend_sign_from (31 - n) (drop_bit n v)) k \<longleftrightarrow> bit v (n + k) \<or> 31 - n \<le> k"
      using True k by (simp add: bit_extend_sign_from bit_drop_bit_eq n)
    have r: "bit (signed_drop_bit n v) k \<longleftrightarrow> bit v (if 32 - n \<le> k then 31 else n + k)"
      using k by (simp add: bit_signed_drop_bit_iff)
    consider "k < 31 - n" | "k = 31 - n" | "32 - n \<le> k" by linarith
    then show "bit (extend_sign_from (31 - n) (drop_bit n v)) k = bit (signed_drop_bit n v) k"
      unfolding l r using True n by cases auto
  qed
  finally show ?thesis .
qed

section \<open>Properties\<close>

text \<open>
  C22: re-encoding. Taking any 32-bit code apart with the decoder and putting the fields together
  again with the encoder of any of the six formats gives the same code back: the decoder and the
  encoder agree on where every bit of every field is, for each of the formats.
\<close>

theorem reencode:
  "r_type (get_code c) (ucast (get_rd c)) (ucast (get_rs1 c)) (ucast (get_rs2 c)) (get_func3 c) (get_func7 c) = c
   \<and> i_type (get_code c) (ucast (get_rd c)) (ucast (get_rs1 c)) (decode_i c) (get_func3 c) = c
   \<and> s_type (get_code c) (ucast (get_rs1 c)) (ucast (get_rs2 c)) (decode_s c) (get_func3 c) = c
   \<and> b_type (get_code c) (ucast (get_rs1 c)) (ucast (get_rs2 c)) (decode_b c) (get_func3 c) = c
   \<and> u_type (get_code c) (ucast (get_rd c)) (decode_u c) = c
   \<and> j_type (get_code c) (ucast (get_rd c)) (decode_j c) = c"
  using reencode_r reencode_i reencode_s reencode_b reencode_u reencode_j by simp

text \<open>
  C23: immediates. For in-range group, register and function numbers, the decoder gives back the
  immediate that was encoded: the low 12 bits of an I- or S-type immediate sign-extended, the low 13
  bits of a B-type and the low 21 bits of a J-type immediate sign-extended with bit 0 cleared, and a
  U-type immediate with no low bits unchanged.
\<close>

theorem decode_encode_immediate:
  assumes "grp < 128" "rd < 32" "rs1 < 32" "rs2 < 32" "fa < 8"
  shows "decode_i (i_type grp rd rs1 imm fa) = signed_take_bit 11 imm
    \<and> decode_s (s_type grp rs1 rs2 imm fa) = signed_take_bit 11 imm
    \<and> decode_b (b_type grp rs1 rs2 imm fa) = signed_take_bit 12 (imm AND NOT 1)
    \<and> (take_bit 12 imm = 0 \<longrightarrow> decode_u (u_type grp rd imm) = imm)
    \<and> decode_j (j_type grp rd imm) = signed_take_bit 20 (imm AND NOT 1)"
  using assms by (simp add: decode_i_type decode_s_type decode_b_type decode_u_type decode_j_type)

theorem decode_encode_immediate_witness:
  "decode_b (b_type (opcode_value BRANCH) 10 11 (- 8) 1) = - 8
   \<and> decode_u (u_type (opcode_value BRANCH) 1 0x12345000) = 0x12345000"
proof -
  have "opcode_value BRANCH < 128" by (rule opcode_value_small)
  from decode_encode_immediate [OF this, of 1 10 11 1 "- 8"]
    decode_encode_immediate [OF this, of 1 10 11 1 "0x12345000"]
  show ?thesis by simp
qed

end
