(* ===== verification/Interface.thy ===== *)
theory Interface
  imports Base_Types
begin

text \<open>
  vm_interface.hxx: the abstract class \<open>MachineInterface\<close> that instruction handlers and system calls
  work on, as the record of its virtual functions over the state \<open>'m\<close> of the implementing class, and
  the contract an implementation keeps with the handlers: a register file and a program counter.
\<close>

type_synonym address_t = u32
type_synonym offset_t = u32  \<comment> \<open>\<open>std::int32_t\<close>, bit-cast\<close>

record 'm MachineInterface =
  mi_halt :: "('m, unit) action"
  mi_jump_abs :: "address_t \<Rightarrow> ('m, unit) action"
  mi_jump_to :: "offset_t \<Rightarrow> ('m, unit) action"
  mi_jump_if :: "bool \<Rightarrow> offset_t \<Rightarrow> ('m, unit) action"
  mi_jump_if_abs :: "bool \<Rightarrow> address_t \<Rightarrow> ('m, unit) action"
  mi_syscall :: "('m, unit) action"
  mi_debug :: "('m, unit) action"
  \<comment> \<open>\<open>control_get(csr_id, register_t& value)\<close>: the value it assigns is returned\<close>
  mi_control_get :: "address_t \<Rightarrow> ('m, register_t) action"
  mi_control_set :: "address_t \<Rightarrow> register_t \<Rightarrow> ('m, unit) action"
  mi_barrier :: "('m, unit) action"
  \<comment> \<open>\<open>read_memory(from, size, register_t& value)\<close>: the value before the call is an argument,
      the value after it is returned\<close>
  mi_read_memory :: "address_t \<Rightarrow> u8 \<Rightarrow> register_t \<Rightarrow> ('m, register_t) action"
  mi_write_memory :: "address_t \<Rightarrow> u8 \<Rightarrow> register_t \<Rightarrow> ('m, unit) action"
  mi_set_register :: "register_no \<Rightarrow> register_t \<Rightarrow> ('m, unit) action"
  mi_get_register :: "register_no \<Rightarrow> 'm \<Rightarrow> exn + register_t"
  mi_get_pc :: "'m \<Rightarrow> register_t"

section \<open>The contract of the register file\<close>

text \<open>
  \<open>reg m r\<close> is the value of register \<open>r\<close> in state \<open>m\<close>, \<open>rest m\<close> everything else the state holds
  (the program counter included). A write changes one register, never register 0.
\<close>

locale register_machine =
  fixes vm :: "'m MachineInterface"
    and good :: "'m \<Rightarrow> bool"
    and reg :: "'m \<Rightarrow> register_no \<Rightarrow> register_t"
    and rest :: "'m \<Rightarrow> 'r"
    and pc_of :: "'r \<Rightarrow> register_t"
  assumes get_register: "good m \<Longrightarrow> r < register_count \<Longrightarrow> mi_get_register vm r m = Inr (reg m r)"
    and get_pc: "good m \<Longrightarrow> mi_get_pc vm m = pc_of (rest m)"
    and reg_zero: "good m \<Longrightarrow> reg m 0 = 0"
    and set_register_returns: "good m \<Longrightarrow> r < register_count \<Longrightarrow> fst (mi_set_register vm r v m) = Inr ()"
    and set_register_good: "good m \<Longrightarrow> r < register_count \<Longrightarrow> good (snd (mi_set_register vm r v m))"
    and set_register_rest: "good m \<Longrightarrow> r < register_count \<Longrightarrow> rest (snd (mi_set_register vm r v m)) = rest m"
    and set_register_reg: "good m \<Longrightarrow> r < register_count \<Longrightarrow> q < register_count \<Longrightarrow>
      reg (snd (mi_set_register vm r v m)) q = (if q = r \<and> r \<noteq> 0 then v else reg m q)"
begin

lemma set_register_eq:
  assumes "good m" and "r < register_count"
  shows "mi_set_register vm r v m = (Inr (), snd (mi_set_register vm r v m))"
  using set_register_returns [OF assms] by (metis prod.collapse)

text \<open>The state after a write, described by its registers and its rest.\<close>

definition written :: "register_no \<Rightarrow> register_t \<Rightarrow> 'm \<Rightarrow> 'm \<Rightarrow> bool" where
  "written r v m m' \<longleftrightarrow> good m' \<and> rest m' = rest m
     \<and> (\<forall>q < register_count. reg m' q = (if q = r \<and> r \<noteq> 0 then v else reg m q))"

lemma set_register_written:
  assumes "good m" and "r < register_count"
  shows "\<exists>m'. mi_set_register vm r v m = (Inr (), m') \<and> written r v m m'"
  using assms set_register_eq set_register_good set_register_rest set_register_reg
  unfolding written_def by blast

lemma written_reg_same: "written r v m m' \<Longrightarrow> r < register_count \<Longrightarrow> r \<noteq> 0 \<Longrightarrow> reg m' r = v"
  by (simp add: written_def)

lemma written_reg_other: "written r v m m' \<Longrightarrow> q < register_count \<Longrightarrow> q \<noteq> r \<Longrightarrow> reg m' q = reg m q"
  by (simp add: written_def)

lemma written_zero: "written 0 v m m' \<Longrightarrow> q < register_count \<Longrightarrow> reg m' q = reg m q"
  by (simp add: written_def)

end

end
