(* ===== verification/Registry.thy ===== *)
theory Registry
  imports Prelude
begin

text \<open>
  The contract that the instruction registry (vm_handler.cxx) and the system call registry
  (vm_syscall.cxx) share: both keep objects under a key the object itself gives, never replace an
  entry, and accept an object exactly when its key is free.
\<close>

locale keyed_registry =
  fixes key :: "'h \<Rightarrow> 'k"
    and accepted :: "'h \<Rightarrow> 'r \<Rightarrow> bool"
    and after :: "'h \<Rightarrow> 'r \<Rightarrow> 'r"
    and entries :: "'r \<Rightarrow> 'k \<rightharpoonup> 'h"
  assumes accepted_iff: "accepted h r \<longleftrightarrow> entries r (key h) = None"
    and entries_after: "entries (after h r) =
      (if entries r (key h) = None then (entries r)(key h \<mapsto> h) else entries r)"
begin

text \<open>Registration in sequence, stopping at the first object that is refused.\<close>

fun register_seq :: "'h list \<Rightarrow> bool \<times> 'r \<Rightarrow> bool \<times> 'r" where
  "register_seq [] s = s"
| "register_seq (h # hs) (ok, r) =
     register_seq hs (if ok then (accepted h r, after h r) else (False, r))"

lemma register_seq_False [simp]: "register_seq hs (False, r) = (False, r)"
  by (induction hs) simp_all

lemma register_seq_append: "register_seq (xs @ ys) s = register_seq ys (register_seq xs s)"
  by (induction xs arbitrary: s) (auto split: prod.splits)

definition keyed :: "'r \<Rightarrow> bool" where
  "keyed r \<longleftrightarrow> (\<forall>k h. entries r k = Some h \<longrightarrow> key h = k)"

lemma keyed_after: "keyed r \<Longrightarrow> keyed (after h r)"
  by (auto simp: keyed_def entries_after)

lemma entries_kept: "entries r k = Some g \<Longrightarrow> entries (after h r) k = Some g"
  by (auto simp: entries_after)

lemma registered_found: "accepted h r \<Longrightarrow> entries (after h r) (key h) = Some h"
  by (simp add: accepted_iff entries_after)

text \<open>A sequence succeeds exactly when its keys are free and pairwise different.\<close>

lemma register_seq_ok:
  "fst (register_seq hs (True, r)) \<longleftrightarrow> distinct (map key hs) \<and> (\<forall>h \<in> set hs. entries r (key h) = None)"
proof (induction hs arbitrary: r)
  case Nil
  then show ?case by simp
next
  case (Cons h hs)
  show ?case
  proof (cases "accepted h r")
    case True
    then have free: "entries r (key h) = None" by (simp add: accepted_iff)
    then have "entries (after h r) k = None \<longleftrightarrow> k \<noteq> key h \<and> entries r k = None" for k
      by (simp add: entries_after)
    with Cons.IH [of "after h r"] True free show ?thesis by (auto simp: image_iff)
  next
    case False
    then have "entries r (key h) \<noteq> None" by (simp add: accepted_iff)
    with False show ?thesis by simp
  qed
qed

lemma register_seq_entries:
  assumes "distinct (map key hs)" and "\<forall>h \<in> set hs. entries r (key h) = None"
  shows "entries (snd (register_seq hs (True, r))) = entries r ++ map_of (map (\<lambda>h. (key h, h)) hs)"
  using assms
proof (induction hs arbitrary: r)
  case Nil
  then show ?case by simp
next
  case (Cons h hs)
  then have free: "entries r (key h) = None" and acc: "accepted h r" by (simp_all add: accepted_iff)
  have "\<forall>g \<in> set hs. entries (after h r) (key g) = None"
    using Cons.prems by (auto simp: entries_after image_iff)
  with Cons have "entries (snd (register_seq hs (True, after h r)))
      = entries (after h r) ++ map_of (map (\<lambda>h. (key h, h)) hs)" by simp
  moreover have "map_of (map (\<lambda>h. (key h, h)) hs) (key h) = None"
    using Cons.prems(1) by (auto simp: map_of_eq_None_iff)
  ultimately show ?case using free acc
    by (auto simp: entries_after map_add_def fun_eq_iff split: option.splits)
qed

lemma register_seq_lookup:
  assumes "distinct (map key hs)" and "\<forall>h \<in> set hs. entries r (key h) = None"
  shows "entries (snd (register_seq hs (True, r))) k = Some h
    \<longleftrightarrow> (h \<in> set hs \<and> key h = k) \<or> (k \<notin> key ` set hs \<and> entries r k = Some h)"
proof -
  have d: "distinct (map fst (map (\<lambda>h. (key h, h)) hs))" using assms(1) by (simp add: comp_def)
  have "map_of (map (\<lambda>h. (key h, h)) hs) k = Some h \<longleftrightarrow> h \<in> set hs \<and> key h = k"
    unfolding map_of_eq_Some_iff [OF d] by auto
  moreover have "map_of (map (\<lambda>h. (key h, h)) hs) k = None \<longleftrightarrow> k \<notin> key ` set hs"
    by (simp add: map_of_eq_None_iff image_image)
  ultimately show ?thesis
    unfolding register_seq_entries [OF assms] by (simp only: map_add_Some_iff)
qed

end

end
