(* ===== verification/Handler.thy ===== *)
theory Handler
  imports Opcode Interface Registry
begin

text \<open>
  vm_handler.hxx / vm_handler.cxx: instruction identifiers, the handler interface with its generic
  base class, and the registry that finds the handler of an instruction.
\<close>

section \<open>Instruction identifiers\<close>

record InstructionId =
  groupId :: opcode_t
  format :: BaseFormat
  funcA :: opcode_t
  funcB :: opcode_t
  internal_id :: opcode_t

definition NoFuncA :: opcode_t where
  "NoFuncA = push_bit 4 1"

definition NoFuncB :: opcode_t where
  "NoFuncB = push_bit 8 1"

definition make_id :: "opcode_t \<Rightarrow> BaseFormat \<Rightarrow> opcode_t \<Rightarrow> opcode_t \<Rightarrow> InstructionId" where
  "make_id grp fmt func_a func_b =
     \<lparr>groupId = grp, format = fmt, funcA = func_a, funcB = func_b,
      internal_id = grp OR push_bit 8 func_a OR push_bit 16 func_b\<rparr>"

text \<open>
  The order, the hash and the comparison that the containers use: all of \<open>internal_id\<close> only. \<open>id_equal\<close> is the
  strict comparison.
\<close>

definition id_less :: "'a InstructionId_scheme \<Rightarrow> 'a InstructionId_scheme \<Rightarrow> bool" where
  "id_less lhs rhs \<longleftrightarrow> internal_id lhs < internal_id rhs"

definition hash_id :: "InstructionId \<Rightarrow> opcode_t" where
  "hash_id key = internal_id key"

definition id_compare :: "InstructionId \<Rightarrow> InstructionId \<Rightarrow> bool" where
  "id_compare lhs rhs \<longleftrightarrow> internal_id lhs = internal_id rhs"

instantiation InstructionId_ext :: (type) preorder
begin

definition less_eq_InstructionId_ext :: "'a InstructionId_scheme \<Rightarrow> 'a InstructionId_scheme \<Rightarrow> bool" where
  "less_eq_InstructionId_ext lhs rhs \<longleftrightarrow> \<not> id_less rhs lhs"

definition less_InstructionId_ext :: "'a InstructionId_scheme \<Rightarrow> 'a InstructionId_scheme \<Rightarrow> bool" where
  "less_InstructionId_ext lhs rhs \<longleftrightarrow> id_less lhs rhs"

instance
  by standard (auto simp: less_eq_InstructionId_ext_def less_InstructionId_ext_def id_less_def)

end

definition id_equal :: "InstructionId \<Rightarrow> InstructionId \<Rightarrow> bool" where
  "id_equal lhs rhs \<longleftrightarrow> groupId lhs = groupId rhs \<and> format lhs = format rhs
     \<and> funcA lhs = funcA rhs \<and> funcB lhs = funcB rhs"

section \<open>The handler interface and its generic base\<close>

text \<open>
  A handler object has no fields, so it is its virtual function table. \<open>getGroupId\<close>, \<open>getFuncA\<close> and
  \<open>getFuncB\<close> of the generic base return the template arguments, which are the fields of \<open>getId\<close>.
  \<open>disassemblyArgs\<close> is the overload on a decoder, the one the program calls; where a class overrides
  the overload on a code, the base class's \<open>disassemblyArgs(const Decoder*)\<close> forwards to it.
\<close>

record 'm HandlerInterface =
  getId :: InstructionId
  mnemonic :: string
  disassemblyArgs :: "opcode_t \<Rightarrow> exn + string"
  exec :: "'m MachineInterface \<Rightarrow> opcode_t \<Rightarrow> ('m, unit) action"
  skip :: bool

definition GenericHandler ::
  "OpcodeType \<Rightarrow> BaseFormat \<Rightarrow> opcode_t \<Rightarrow> opcode_t
     \<Rightarrow> ('m MachineInterface \<Rightarrow> opcode_t \<Rightarrow> ('m, unit) action) \<Rightarrow> 'm HandlerInterface" where
  "GenericHandler BaseGroupId Format FuncA FuncB ex =
     \<lparr>getId = make_id (opcode_value BaseGroupId) Format FuncA FuncB,
      mnemonic = get_op_id (opcode_value BaseGroupId),
      disassemblyArgs = (\<lambda>code. map_sum id to_hex (get_bits_at code 8 32)),
      exec = ex,
      skip = False\<rparr>"

section \<open>The registry\<close>

text \<open>
  \<open>'h\<close> is the type of handler objects and \<open>idf\<close> their virtual \<open>getId\<close>. The unordered map compares
  keys by \<open>internal_id\<close>; the two sets hold the groups (with \<open>func A\<close> for the second) that use a
  function number.
\<close>

record 'h HandlerRegistry =
  handlers :: "opcode_t \<rightharpoonup> 'h"
  func_b :: "opcode_t set"
  func_a :: "opcode_t set"

definition empty_registry :: "'h HandlerRegistry" where
  "empty_registry = \<lparr>handlers = Map.empty, func_b = {}, func_a = {}\<rparr>"

definition register_handler ::
  "('h \<Rightarrow> InstructionId) \<Rightarrow> 'h \<Rightarrow> 'h HandlerRegistry \<Rightarrow> bool \<times> 'h HandlerRegistry" where
  "register_handler idf h r =
     (let i = idf h in
      case handlers r (internal_id i) of
        Some _ \<Rightarrow> (False, r)
      | None \<Rightarrow>
          let r = r\<lparr>handlers := (handlers r)(internal_id i \<mapsto> h)\<rparr>;
              r = (if funcA i \<noteq> NoFuncA then r\<lparr>func_a := insert (groupId i) (func_a r)\<rparr> else r);
              r = (if funcB i \<noteq> NoFuncB
                   then r\<lparr>func_b := insert (groupId i OR push_bit 8 (funcA i)) (func_b r)\<rparr> else r)
          in (True, r))"

definition lookup_id :: "'h HandlerRegistry \<Rightarrow> opcode_t \<Rightarrow> InstructionId" where
  "lookup_id r code =
     (let op = get_code code;
          fA = (if op \<in> func_a r then get_func3 code else NoFuncA);
          fB = (if op OR push_bit 8 (get_func3 code) \<in> func_b r then get_func7 code else NoFuncB)
      in make_id op UNKNOWN fA fB)"

definition find_handler :: "'h HandlerRegistry \<Rightarrow> opcode_t \<Rightarrow> 'h option" where
  "find_handler r code = handlers r (internal_id (lookup_id r code))"

interpretation handler_registry: keyed_registry
  "\<lambda>h. internal_id (idf h)"
  "\<lambda>h r. fst (register_handler idf h r)"
  "\<lambda>h r. snd (register_handler idf h r)"
  handlers
  for idf :: "'h \<Rightarrow> InstructionId"
  by unfold_locales (simp_all add: register_handler_def Let_def split: option.splits)

section \<open>Identifiers determine their fields\<close>

lemma make_id_sel [simp]:
  "groupId (make_id g f a b) = g" "format (make_id g f a b) = f"
  "funcA (make_id g f a b) = a" "funcB (make_id g f a b) = b"
  "internal_id (make_id g f a b) = g OR push_bit 8 a OR push_bit 16 b"
  by (simp_all add: make_id_def)

text \<open>The numbers a template argument or a decoded instruction can give.\<close>

definition id_in_range :: "InstructionId \<Rightarrow> bool" where
  "id_in_range i \<longleftrightarrow> groupId i < 128 \<and> (funcA i < 8 \<or> funcA i = NoFuncA)
     \<and> (funcB i < 128 \<or> funcB i = NoFuncB) \<and> (funcA i = NoFuncA \<longrightarrow> funcB i = NoFuncB)
     \<and> internal_id i = groupId i OR push_bit 8 (funcA i) OR push_bit 16 (funcB i)"

lemma packed_inject:
  fixes g a b g' a' b' :: opcode_t
  assumes "g < 2 ^ 8" "a < 2 ^ 8" "b < 2 ^ 16" "g' < 2 ^ 8" "a' < 2 ^ 8" "b' < 2 ^ 16"
  shows "g OR push_bit 8 a OR push_bit 16 b = g' OR push_bit 8 a' OR push_bit 16 b'
    \<longleftrightarrow> g = g' \<and> a = a' \<and> b = b'"
proof
  define w where "w = (\<lambda>g a b :: opcode_t. g OR push_bit 8 a OR push_bit 16 b)"
  note small = bit_small_less [of _ 8, simplified] bit_small_less [of _ 16, simplified]
  have low: "take_bit 8 (w g a b) = g" if "g < 2 ^ 8" for g a b :: opcode_t
    using that by (intro bit_word_eqI) (auto simp: w_def bit_simps dest: small)
  have mid: "take_bit 8 (drop_bit 8 (w g a b)) = a" if "g < 2 ^ 8" "a < 2 ^ 8" for g a b :: opcode_t
    using that by (intro bit_word_eqI) (auto simp: w_def bit_simps dest: small bit_imp_le_length)
  have high: "drop_bit 16 (w g a b) = b" if "g < 2 ^ 8" "a < 2 ^ 8" "b < 2 ^ 16" for g a b :: opcode_t
    using that by (intro bit_word_eqI) (auto simp: w_def bit_simps dest: small bit_imp_le_length)
  assume "g OR push_bit 8 a OR push_bit 16 b = g' OR push_bit 8 a' OR push_bit 16 b'"
  then have eq: "w g a b = w g' a' b'" by (simp add: w_def)
  show "g = g' \<and> a = a' \<and> b = b'"
    using low [of g a b] low [of g' a' b'] mid [of g a b] mid [of g' a' b']
      high [of g a b] high [of g' a' b'] assms eq by simp
qed simp

lemma func_bounds:
  "a < 8 \<or> a = NoFuncA \<Longrightarrow> a < 256" "b < 128 \<or> b = NoFuncB \<Longrightarrow> b < 65536"
  by (auto simp: NoFuncA_def NoFuncB_def word_less_nat_alt)

lemma internal_id_inject:
  assumes "id_in_range i" and "id_in_range j"
  shows "internal_id i = internal_id j \<longleftrightarrow> groupId i = groupId j \<and> funcA i = funcA j \<and> funcB i = funcB j"
proof -
  have "groupId i < 2 ^ 8" "groupId j < 2 ^ 8"
    using assms by (auto simp: id_in_range_def word_less_nat_alt)
  moreover have "funcA i < 2 ^ 8" "funcA j < 2 ^ 8" "funcB i < 2 ^ 16" "funcB j < 2 ^ 16"
    using assms func_bounds by (simp_all add: id_in_range_def)
  ultimately show ?thesis
    using assms packed_inject [of "groupId i" "funcA i" "funcB i" "groupId j" "funcA j" "funcB j"]
    by (simp add: id_in_range_def)
qed

section \<open>What the registry keeps, and what a lookup finds\<close>

definition registry_ok :: "('h \<Rightarrow> InstructionId) \<Rightarrow> 'h HandlerRegistry \<Rightarrow> bool" where
  "registry_ok idf r \<longleftrightarrow>
     (\<forall>k h. handlers r k = Some h \<longrightarrow> internal_id (idf h) = k \<and> id_in_range (idf h))
     \<and> (\<forall>g. g \<in> func_a r \<longleftrightarrow> (\<exists>h \<in> ran (handlers r). funcA (idf h) \<noteq> NoFuncA \<and> g = groupId (idf h)))
     \<and> (\<forall>x. x \<in> func_b r \<longleftrightarrow> (\<exists>h \<in> ran (handlers r). funcB (idf h) \<noteq> NoFuncB
            \<and> x = groupId (idf h) OR push_bit 8 (funcA (idf h))))"

text \<open>
  The instructions of one group all use \<open>func A\<close> or none does, and those of one group and
  \<open>func A\<close> all use \<open>func B\<close> or none does.
\<close>

definition uniform :: "('h \<Rightarrow> InstructionId) \<Rightarrow> 'h set \<Rightarrow> bool" where
  "uniform idf H \<longleftrightarrow> (\<forall>h \<in> H. \<forall>g \<in> H. groupId (idf h) = groupId (idf g) \<longrightarrow>
     (funcA (idf h) = NoFuncA \<longleftrightarrow> funcA (idf g) = NoFuncA)
     \<and> (funcA (idf h) = funcA (idf g) \<longrightarrow> (funcB (idf h) = NoFuncB \<longleftrightarrow> funcB (idf g) = NoFuncB)))"

text \<open>The instruction codes a handler is for.\<close>

definition handles :: "InstructionId \<Rightarrow> opcode_t \<Rightarrow> bool" where
  "handles i code \<longleftrightarrow> groupId i = get_code code
     \<and> (funcA i \<noteq> NoFuncA \<longrightarrow> funcA i = get_func3 code)
     \<and> (funcB i \<noteq> NoFuncB \<longrightarrow> funcB i = get_func7 code)"

lemma uniformD:
  assumes "uniform idf H" and "h \<in> H" and "g \<in> H" and "groupId (idf h) = groupId (idf g)"
  shows "funcA (idf h) = NoFuncA \<longleftrightarrow> funcA (idf g) = NoFuncA"
    and "funcA (idf h) = funcA (idf g) \<Longrightarrow> funcB (idf h) = NoFuncB \<longleftrightarrow> funcB (idf g) = NoFuncB"
  using assms unfolding uniform_def by blast+

lemma registry_ok_range: "registry_ok idf r \<Longrightarrow> h \<in> ran (handlers r) \<Longrightarrow> id_in_range (idf h)"
  unfolding registry_ok_def ran_def by blast

lemma registry_ok_entry:
  assumes "registry_ok idf r"
  shows "handlers r k = Some h \<longleftrightarrow> h \<in> ran (handlers r) \<and> internal_id (idf h) = k"
proof
  assume "handlers r k = Some h"
  with assms show "h \<in> ran (handlers r) \<and> internal_id (idf h) = k"
    unfolding registry_ok_def by (blast intro: ranI)
next
  assume h: "h \<in> ran (handlers r) \<and> internal_id (idf h) = k"
  then obtain k' where "handlers r k' = Some h" by (auto simp: ran_def)
  with assms h show "handlers r k = Some h" unfolding registry_ok_def by metis
qed

lemma registry_ok_empty: "registry_ok idf empty_registry"
  by (simp add: registry_ok_def empty_registry_def)

lemma registry_ok_register:
  assumes "registry_ok idf r" and "id_in_range (idf h)"
  shows "registry_ok idf (snd (register_handler idf h r))"
proof (cases "handlers r (internal_id (idf h))")
  case None
  then have ran: "ran ((handlers r)(internal_id (idf h) \<mapsto> h)) = insert h (ran (handlers r))"
    by (rule ran_map_upd)
  from assms None show ?thesis
    unfolding registry_ok_def register_handler_def Let_def by (auto simp: ran)
next
  case (Some a)
  with assms(1) show ?thesis by (simp add: register_handler_def Let_def)
qed

lemma get_func3_small: "get_func3 c < 8"
proof -
  have "get_func3 c = take_bit 3 (drop_bit 12 c)" by (simp add: bits32)
  moreover have "unat (take_bit 3 (drop_bit 12 c)) < 2 ^ 3"
    unfolding unsigned_take_bit_eq by (rule take_bit_nat_less_exp)
  ultimately show ?thesis by (simp add: word_less_nat_alt)
qed

lemma get_func7_small: "get_func7 c < 128"
proof -
  have "get_func7 c = take_bit 7 (drop_bit 25 c)" by (simp add: bits32)
  moreover have "unat (take_bit 7 (drop_bit 25 c)) < 2 ^ 7"
    unfolding unsigned_take_bit_eq by (rule take_bit_nat_less_exp)
  ultimately show ?thesis by (simp add: word_less_nat_alt)
qed

lemma pair_inject:
  fixes g a g' a' :: opcode_t
  assumes "g < 128" "g' < 128" "a < 8 \<or> a = NoFuncA" "a' < 8 \<or> a' = NoFuncA"
  shows "g OR push_bit 8 a = g' OR push_bit 8 a' \<longleftrightarrow> g = g' \<and> a = a'"
proof -
  have "g < 2 ^ 8" "g' < 2 ^ 8" using assms(1,2) by (auto simp: word_less_nat_alt)
  then show ?thesis
    using packed_inject [of g a 0 g' a' 0] assms(3,4) func_bounds(1) by simp
qed

lemma small_not_NoFunc: "get_func3 c \<noteq> NoFuncA" "get_func7 c \<noteq> NoFuncB"
  using get_func3_small [of c] get_func7_small [of c]
  by (auto simp: NoFuncA_def NoFuncB_def word_less_nat_alt)

lemma func_b_mem:
  assumes "registry_ok idf r"
  shows "get_code c OR push_bit 8 (get_func3 c) \<in> func_b r \<longleftrightarrow>
    (\<exists>h \<in> ran (handlers r). funcB (idf h) \<noteq> NoFuncB \<and> groupId (idf h) = get_code c
       \<and> funcA (idf h) = get_func3 c)"
proof -
  have "get_code c OR push_bit 8 (get_func3 c) = groupId (idf h) OR push_bit 8 (funcA (idf h))
      \<longleftrightarrow> groupId (idf h) = get_code c \<and> funcA (idf h) = get_func3 c"
    if "h \<in> ran (handlers r)" for h
  proof -
    from assms that have "id_in_range (idf h)" by (auto simp: registry_ok_def ran_def)
    then show ?thesis
      using pair_inject [of "get_code c" "groupId (idf h)" "get_func3 c" "funcA (idf h)"]
        get_code_small [of c] get_func3_small [of c] by (auto simp: id_in_range_def)
  qed
  with assms show ?thesis unfolding registry_ok_def by blast
qed

lemma func_a_mem:
  assumes "registry_ok idf r"
  shows "get_code c \<in> func_a r \<longleftrightarrow>
    (\<exists>h \<in> ran (handlers r). funcA (idf h) \<noteq> NoFuncA \<and> groupId (idf h) = get_code c)"
  using assms unfolding registry_ok_def by metis

lemma lookup_id_in_range:
  assumes "registry_ok idf r"
  shows "id_in_range (lookup_id r c)"
proof -
  have "get_code c \<in> func_a r" if "get_code c OR push_bit 8 (get_func3 c) \<in> func_b r"
    using that small_not_NoFunc(1) [of c] unfolding func_a_mem [OF assms] func_b_mem [OF assms] by metis
  then show ?thesis
    using get_code_small [of c] get_func3_small [of c] get_func7_small [of c] small_not_NoFunc [of c]
    by (auto simp: lookup_id_def id_in_range_def Let_def)
qed

lemma lookup_id_sel:
  "groupId (lookup_id r c) = get_code c"
  "funcA (lookup_id r c) = (if get_code c \<in> func_a r then get_func3 c else NoFuncA)"
  "funcB (lookup_id r c) =
     (if get_code c OR push_bit 8 (get_func3 c) \<in> func_b r then get_func7 c else NoFuncB)"
  by (simp_all add: lookup_id_def Let_def)

text \<open>A lookup finds exactly the registered handler that the code is for.\<close>

lemma find_handler_iff:
  assumes ok: "registry_ok idf r" and u: "uniform idf (ran (handlers r))"
  shows "find_handler r c = Some h \<longleftrightarrow> h \<in> ran (handlers r) \<and> handles (idf h) c"
proof -
  have "find_handler r c = Some h \<longleftrightarrow> h \<in> ran (handlers r) \<and> internal_id (idf h) = internal_id (lookup_id r c)"
    by (simp add: find_handler_def registry_ok_entry [OF ok])
  also have "\<dots> \<longleftrightarrow> h \<in> ran (handlers r) \<and> groupId (idf h) = get_code c
      \<and> funcA (idf h) = funcA (lookup_id r c) \<and> funcB (idf h) = funcB (lookup_id r c)"
    using internal_id_inject [OF registry_ok_range [OF ok] lookup_id_in_range [OF ok, of c]]
    by (auto simp: lookup_id_sel)
  also have "\<dots> \<longleftrightarrow> h \<in> ran (handlers r) \<and> handles (idf h) c"
  proof (cases "h \<in> ran (handlers r) \<and> groupId (idf h) = get_code c")
    case True
    then have h: "h \<in> ran (handlers r)" and g: "groupId (idf h) = get_code c" by simp_all
    then have range: "funcA (idf h) = NoFuncA \<Longrightarrow> funcB (idf h) = NoFuncB"
      using ok by (auto simp: registry_ok_def ran_def id_in_range_def)
    have A: "get_code c \<in> func_a r \<longleftrightarrow> funcA (idf h) \<noteq> NoFuncA"
      unfolding func_a_mem [OF ok] using h g uniformD(1) [OF u h] by metis
    have B: "get_code c OR push_bit 8 (get_func3 c) \<in> func_b r \<longleftrightarrow> funcB (idf h) \<noteq> NoFuncB"
      if "funcA (idf h) = get_func3 c"
      unfolding func_b_mem [OF ok] using h g that uniformD(2) [OF u h] by metis
    have C: "get_code c OR push_bit 8 (get_func3 c) \<notin> func_b r" if "funcA (idf h) = NoFuncA"
      unfolding func_b_mem [OF ok]
      using h g that uniformD(1) [OF u h] small_not_NoFunc(1) [of c] by metis
    show ?thesis
    proof (cases "funcA (idf h) = NoFuncA")
      case True
      then show ?thesis using h g A C range by (simp add: handles_def lookup_id_sel)
    next
      case False
      then show ?thesis using h g A B small_not_NoFunc(2) [of c]
        by (auto simp: handles_def lookup_id_sel)
    qed
  qed (auto simp: handles_def)
  finally show ?thesis .
qed

end
