(* ===== verification/Handlers_RV32I.thy ===== *)
theory Handlers_RV32I
  imports Handler
begin

text \<open>
  vm_handlers_rv32i.hxx: one definition per handler class, in the order of the source. A class
  template is a function of its template arguments and of the virtual functions that its
  instantiations override; an instantiation applies it. The registration of the set is in
  theory \<open>Instruction_Set\<close>, where the dynamic classes of handler objects are enumerated.
\<close>

section \<open>Control and status registers\<close>

datatype CSR_IDS = CSR_cycle | CSR_time | CSR_instret | CSR_cycleh | CSR_timeh | CSR_instreth

fun csr_number :: "CSR_IDS \<Rightarrow> register_t" where
  "csr_number CSR_cycle = 0xC00"
| "csr_number CSR_time = 0xC01"
| "csr_number CSR_instret = 0xC02"
| "csr_number CSR_cycleh = 0xC80"
| "csr_number CSR_timeh = 0xC81"
| "csr_number CSR_instreth = 0xC82"

section \<open>Shorthands for calls on the machine\<close>

definition get_reg :: "'m MachineInterface \<Rightarrow> register_no \<Rightarrow> ('m, register_t) action" where
  "get_reg vm r = query (mi_get_register vm r)"

definition get_pc_value :: "'m MachineInterface \<Rightarrow> ('m, register_t) action" where
  "get_pc_value vm = query (\<lambda>m. Inr (mi_get_pc vm m))"

lemmas [action_simps] = get_reg_def get_pc_value_def

definition of_bool_reg :: "bool \<Rightarrow> register_t" where
  "of_bool_reg b = (if b then 1 else 0)"

text \<open>Shifts whose amount is a run-time value: undefined from the width of the type on.\<close>

definition shl :: "register_t \<Rightarrow> register_t \<Rightarrow> exn + register_t" where
  "shl x n = (if unat n < 32 then Inr (push_bit (unat n) x) else Inl (undefined Shift_Out_Of_Range))"

definition shr :: "register_t \<Rightarrow> register_t \<Rightarrow> exn + register_t" where
  "shr x n = (if unat n < 32 then Inr (drop_bit (unat n) x) else Inl (undefined Shift_Out_Of_Range))"

definition comma :: string where
  "comma = '', ''"

section \<open>Upper immediates\<close>

definition lui :: "'m HandlerInterface" where
  "lui = (GenericHandler LUI U_TYPE NoFuncA NoFuncB
     (\<lambda>vm current.
        let dest = get_rd current;
            data = decode_u current
        in mi_set_register vm dest data))
     \<lparr>mnemonic := ''lui'',
      disassemblyArgs := (\<lambda>code. Inr (get_register_alias (get_rd code) @ comma @ to_hex (decode_u code)))\<rparr>"

definition auipc :: "'m HandlerInterface" where
  "auipc = (GenericHandler AUIPC U_TYPE NoFuncA NoFuncB
     (\<lambda>vm current.
        let dest = get_rd current;
            data = decode_u current
        in andThen (get_pc_value vm) (\<lambda>pc_value.
           mi_set_register vm dest (data + pc_value))))
     \<lparr>mnemonic := ''auipc'',
      disassemblyArgs := (\<lambda>code. Inr (get_register_alias (get_rd code) @ comma @ to_hex (decode_u code)))\<rparr>"

section \<open>Jumps\<close>

definition jal :: "'m HandlerInterface" where
  "jal = (GenericHandler JAL J_TYPE NoFuncA NoFuncB
     (\<lambda>vm current.
        let dest = get_rd current;
            offset = decode_j current
        in andThen (get_pc_value vm) (\<lambda>pc_value.
           andThen (mi_set_register vm dest (pc_value + 4)) (\<lambda>_.
           mi_jump_to vm offset))))
     \<lparr>skip := True,
      mnemonic := ''jal'',
      disassemblyArgs := (\<lambda>code.
        Inr (get_register_alias (get_rd code) @ comma @ to_string (sint (decode_j code))))\<rparr>"

definition jalr :: "'m HandlerInterface" where
  "jalr = (GenericHandler JALR I_TYPE 0b0000 NoFuncB
     (\<lambda>vm current.
        let dest = get_rd current;
            src = get_rs1 current;
            offset = decode_i current
        in andThen (get_pc_value vm) (\<lambda>pc_value.
           andThen (get_reg vm src) (\<lambda>base.
           andThen (mi_set_register vm dest (pc_value + 4)) (\<lambda>_.
           mi_jump_abs vm ((base + offset) AND NOT 1)))))) 
     \<lparr>skip := True,
      mnemonic := ''jalr'',
      disassemblyArgs := (\<lambda>code.
        Inr (get_register_alias (get_rd code) @ comma @ get_register_alias (get_rs1 code) @ comma
             @ to_string (sint (decode_i code))))\<rparr>"

section \<open>Branches\<close>

definition branch :: "opcode_t \<Rightarrow> (register_t \<Rightarrow> register_t \<Rightarrow> bool) \<Rightarrow> 'm HandlerInterface" where
  "branch Type compare = (GenericHandler BRANCH B_TYPE Type NoFuncB
     (\<lambda>vm current.
        andThen (get_reg vm (get_rs1 current)) (\<lambda>lhs.
        andThen (get_reg vm (get_rs2 current)) (\<lambda>rhs.
        let offset = decode_b current
        in mi_jump_if vm (compare lhs rhs) offset))))
     \<lparr>skip := True,
      disassemblyArgs := (\<lambda>code.
        Inr (get_register_alias (get_rs1 code) @ comma @ get_register_alias (get_rs2 code) @ comma
             @ to_string (sint (decode_b code))))\<rparr>"

definition beq :: "'m HandlerInterface" where
  "beq = (branch 0b0000 (\<lambda>lhs rhs. sint lhs = sint rhs))\<lparr>mnemonic := ''beq''\<rparr>"

definition bne :: "'m HandlerInterface" where
  "bne = (branch 0b0001 (\<lambda>lhs rhs. sint lhs \<noteq> sint rhs))\<lparr>mnemonic := ''bne''\<rparr>"

definition blt :: "'m HandlerInterface" where
  "blt = (branch 0b0100 (\<lambda>lhs rhs. sint lhs < sint rhs))\<lparr>mnemonic := ''blt''\<rparr>"

definition bge :: "'m HandlerInterface" where
  "bge = (branch 0b0101 (\<lambda>lhs rhs. sint lhs \<ge> sint rhs))\<lparr>mnemonic := ''bge''\<rparr>"

definition bltu :: "'m HandlerInterface" where
  "bltu = (branch 0b0110 (\<lambda>lhs rhs. lhs < rhs))\<lparr>mnemonic := ''bltu''\<rparr>"

definition bgeu :: "'m HandlerInterface" where
  "bgeu = (branch 0b0111 (\<lambda>lhs rhs. lhs \<ge> rhs))\<lparr>mnemonic := ''bgeu''\<rparr>"

section \<open>Loads\<close>

definition load :: "opcode_t \<Rightarrow> ('m MachineInterface \<Rightarrow> address_t \<Rightarrow> ('m, register_t) action)
    \<Rightarrow> 'm HandlerInterface" where
  "load Type read_memory = (GenericHandler LOAD I_TYPE Type NoFuncB
     (\<lambda>vm current.
        andThen (get_reg vm (get_rs1 current)) (\<lambda>base.
        let address = base + decode_i current
        in andThen (read_memory vm address) (\<lambda>val.
           let dest = get_rd current
           in mi_set_register vm dest val))))
     \<lparr>disassemblyArgs := (\<lambda>code.
        Inr (get_register_alias (get_rd code) @ comma @ get_register_alias (get_rs1 code) @ comma
             @ to_string (sint (decode_i code))))\<rparr>"

definition lb :: "'m HandlerInterface" where
  "lb = (load 0b0000 (\<lambda>vm address.
     andThen (mi_read_memory vm address 1 0) (\<lambda>val.
     if val AND make_mask 7 1 \<noteq> 0 then ret (make_mask 8 24 OR val) else ret val)))
     \<lparr>mnemonic := ''lb''\<rparr>"

definition lh :: "'m HandlerInterface" where
  "lh = (load 0b0001 (\<lambda>vm address.
     andThen (mi_read_memory vm address 2 0) (\<lambda>val.
     if val AND make_mask 15 1 \<noteq> 0 then ret (make_mask 16 16 OR val) else ret val)))
     \<lparr>mnemonic := ''lh''\<rparr>"

definition lw :: "'m HandlerInterface" where
  "lw = (load 0b0010 (\<lambda>vm address. mi_read_memory vm address 4 0))\<lparr>mnemonic := ''lw''\<rparr>"

definition lbu :: "'m HandlerInterface" where
  "lbu = (load 0b0100 (\<lambda>vm address. mi_read_memory vm address 1 0))\<lparr>mnemonic := ''lbu''\<rparr>"

definition lhu :: "'m HandlerInterface" where
  "lhu = (load 0b0101 (\<lambda>vm address. mi_read_memory vm address 2 0))\<lparr>mnemonic := ''lhu''\<rparr>"

section \<open>Stores\<close>

definition store :: "opcode_t \<Rightarrow> ('m MachineInterface \<Rightarrow> address_t \<Rightarrow> register_t \<Rightarrow> ('m, unit) action)
    \<Rightarrow> 'm HandlerInterface" where
  "store Type write_memory = (GenericHandler STORE S_TYPE Type NoFuncB
     (\<lambda>vm current.
        andThen (get_reg vm (get_rs2 current)) (\<lambda>val.
        andThen (get_reg vm (get_rs1 current)) (\<lambda>base.
        let address = base + decode_s current
        in write_memory vm address val))))
     \<lparr>disassemblyArgs := (\<lambda>code.
        Inr (get_register_alias (get_rs2 code) @ comma @ get_register_alias (get_rs1 code) @ comma
             @ to_string (sint (decode_s code))))\<rparr>"

definition sb :: "'m HandlerInterface" where
  "sb = (store 0b0000 (\<lambda>vm address val. mi_write_memory vm address 1 val))\<lparr>mnemonic := ''sb''\<rparr>"

definition sh :: "'m HandlerInterface" where
  "sh = (store 0b0001 (\<lambda>vm address val. mi_write_memory vm address 2 val))\<lparr>mnemonic := ''sh''\<rparr>"

definition sw :: "'m HandlerInterface" where
  "sw = (store 0b0010 (\<lambda>vm address val. mi_write_memory vm address 4 val))\<lparr>mnemonic := ''sw''\<rparr>"

section \<open>Integer-immediate\<close>

definition int_imm :: "opcode_t \<Rightarrow> ('m MachineInterface \<Rightarrow> opcode_t \<Rightarrow> ('m, unit) action)
    \<Rightarrow> 'm HandlerInterface" where
  "int_imm Type ex = (GenericHandler OP_IMM I_TYPE Type NoFuncB ex)
     \<lparr>disassemblyArgs := (\<lambda>code.
        Inr (get_register_alias (get_rd code) @ comma @ get_register_alias (get_rs1 code) @ comma
             @ to_string (sint (decode_i code))))\<rparr>"

definition addi :: "'m HandlerInterface" where
  "addi = (int_imm 0b0000 (\<lambda>vm current.
     let dest = get_rd current
     in andThen (get_reg vm (get_rs1 current)) (\<lambda>val.
        let data = decode_i current
        in mi_set_register vm dest (val + data))))\<lparr>mnemonic := ''addi''\<rparr>"

definition slti :: "'m HandlerInterface" where
  "slti = (int_imm 0b0010 (\<lambda>vm current.
     let dest = get_rd current
     in andThen (get_reg vm (get_rs1 current)) (\<lambda>val.
        let data = decode_i current
        in mi_set_register vm dest (of_bool_reg (sint val < sint data)))))\<lparr>mnemonic := ''slti''\<rparr>"

definition sltiu :: "'m HandlerInterface" where
  "sltiu = (int_imm 0b0011 (\<lambda>vm current.
     let dest = get_rd current
     in andThen (get_reg vm (get_rs1 current)) (\<lambda>val.
        let data = decode_i current
        in mi_set_register vm dest (of_bool_reg (val < data)))))
     \<lparr>mnemonic := ''sltiu'',
      disassemblyArgs := (\<lambda>code.
        Inr (get_register_alias (get_rd code) @ comma @ get_register_alias (get_rs1 code) @ comma
             @ to_hex (decode_i code)))\<rparr>"

definition xori :: "'m HandlerInterface" where
  "xori = (int_imm 0b0100 (\<lambda>vm current.
     let dest = get_rd current
     in andThen (get_reg vm (get_rs1 current)) (\<lambda>val.
        let data = decode_i current
        in mi_set_register vm dest (val XOR data))))\<lparr>mnemonic := ''xori''\<rparr>"

definition ori :: "'m HandlerInterface" where
  "ori = (int_imm 0b0110 (\<lambda>vm current.
     let dest = get_rd current
     in andThen (get_reg vm (get_rs1 current)) (\<lambda>val.
        let data = decode_i current
        in mi_set_register vm dest (val OR data))))\<lparr>mnemonic := ''ori''\<rparr>"

definition andi :: "'m HandlerInterface" where
  "andi = (int_imm 0b0111 (\<lambda>vm current.
     let dest = get_rd current
     in andThen (get_reg vm (get_rs1 current)) (\<lambda>val.
        let data = decode_i current
        in mi_set_register vm dest (val AND data))))\<lparr>mnemonic := ''andi''\<rparr>"

section \<open>Shifts by an immediate\<close>

definition shift_imm_data :: "opcode_t \<Rightarrow> register_t" where
  "shift_imm_data current = decode_i_u current AND make_mask 0 5"

definition shift_imm :: "opcode_t \<Rightarrow> opcode_t \<Rightarrow> ('m MachineInterface \<Rightarrow> opcode_t \<Rightarrow> ('m, unit) action)
    \<Rightarrow> 'm HandlerInterface" where
  "shift_imm Type Variant ex = (GenericHandler OP_IMM R_TYPE Type (push_bit 5 Variant) ex)
     \<lparr>disassemblyArgs := (\<lambda>code.
        Inr (get_register_alias (get_rd code) @ comma @ get_register_alias (get_rs1 code) @ comma
             @ to_string (uint (shift_imm_data code))))\<rparr>"

definition slli :: "'m HandlerInterface" where
  "slli = (shift_imm 0b0001 0 (\<lambda>vm current.
     let dest = get_rd current
     in andThen (get_reg vm (get_rs1 current)) (\<lambda>val.
        let data = shift_imm_data current
        in andThen (checked (shl val data)) (\<lambda>res.
           mi_set_register vm dest res))))\<lparr>mnemonic := ''slli''\<rparr>"

definition srli :: "'m HandlerInterface" where
  "srli = (shift_imm 0b0101 0 (\<lambda>vm current.
     let dest = get_rd current
     in andThen (get_reg vm (get_rs1 current)) (\<lambda>val.
        let data = shift_imm_data current
        in andThen (checked (shr val data)) (\<lambda>res.
           mi_set_register vm dest res))))\<lparr>mnemonic := ''srli''\<rparr>"

definition srai :: "'m HandlerInterface" where
  "srai = (shift_imm 0b0101 1 (\<lambda>vm current.
     let dest = get_rd current
     in andThen (get_reg vm (get_rs1 current)) (\<lambda>val.
        let data = shift_imm_data current
        in andThen (checked (shr val data)) (\<lambda>res.
           mi_set_register vm dest (opcode_extend_sign res val)))))\<lparr>mnemonic := ''srai''\<rparr>"

section \<open>Integer-register\<close>

definition int_r :: "opcode_t \<Rightarrow> opcode_t \<Rightarrow> (register_t \<Rightarrow> register_t \<Rightarrow> exn + register_t)
    \<Rightarrow> 'm HandlerInterface" where
  "int_r Type Variant calculate = (GenericHandler OP R_TYPE Type (push_bit 5 Variant)
     (\<lambda>vm current.
        let dest = get_rd current
        in andThen (get_reg vm (get_rs1 current)) (\<lambda>lhs.
           andThen (get_reg vm (get_rs2 current)) (\<lambda>rhs.
           andThen (checked (calculate lhs rhs)) (\<lambda>res.
           mi_set_register vm dest res)))))
     \<lparr>disassemblyArgs := (\<lambda>code.
        Inr (get_register_alias (get_rd code) @ comma @ get_register_alias (get_rs1 code) @ comma
             @ get_register_alias (get_rs2 code)))\<rparr>"

definition add_r :: "'m HandlerInterface" where
  "add_r = (int_r 0b0000 0 (\<lambda>lhs rhs. Inr (lhs + rhs)))\<lparr>mnemonic := ''add''\<rparr>"

definition sub_r :: "'m HandlerInterface" where
  "sub_r = (int_r 0b0000 1 (\<lambda>lhs rhs. Inr (lhs - rhs)))\<lparr>mnemonic := ''sub''\<rparr>"

definition sll_r :: "'m HandlerInterface" where
  "sll_r = (int_r 0b0001 0 (\<lambda>lhs rhs. shl lhs rhs))\<lparr>mnemonic := ''sll''\<rparr>"

definition slt_r :: "'m HandlerInterface" where
  "slt_r = (int_r 0b0010 0 (\<lambda>lhs rhs. Inr (of_bool_reg (sint lhs < sint rhs))))\<lparr>mnemonic := ''slt''\<rparr>"

definition sltu_r :: "'m HandlerInterface" where
  "sltu_r = (int_r 0b0011 0 (\<lambda>lhs rhs. Inr (of_bool_reg (lhs < rhs))))\<lparr>mnemonic := ''sltu''\<rparr>"

definition xor_r :: "'m HandlerInterface" where
  "xor_r = (int_r 0b0100 0 (\<lambda>lhs rhs. Inr (lhs XOR rhs)))\<lparr>mnemonic := ''xor''\<rparr>"

definition srl_r :: "'m HandlerInterface" where
  "srl_r = (int_r 0b0101 0 (\<lambda>lhs rhs. shr lhs rhs))\<lparr>mnemonic := ''srl''\<rparr>"

definition sra_r :: "'m HandlerInterface" where
  "sra_r = (int_r 0b0101 1 (\<lambda>lhs rhs. map_sum id (\<lambda>x. opcode_extend_sign x lhs) (shr lhs rhs)))\<lparr>mnemonic := ''sra''\<rparr>"

definition or_r :: "'m HandlerInterface" where
  "or_r = (int_r 0b0110 0 (\<lambda>lhs rhs. Inr (lhs OR rhs)))\<lparr>mnemonic := ''or''\<rparr>"

definition and_r :: "'m HandlerInterface" where
  "and_r = (int_r 0b0111 0 (\<lambda>lhs rhs. Inr (lhs AND rhs)))\<lparr>mnemonic := ''and''\<rparr>"

section \<open>Memory barriers\<close>

definition misc_mem :: "opcode_t \<Rightarrow> ('m MachineInterface \<Rightarrow> opcode_t \<Rightarrow> ('m, unit) action)
    \<Rightarrow> 'm HandlerInterface" where
  "misc_mem Type ex = GenericHandler MISC_MEM I_TYPE Type NoFuncB ex"

definition fence :: "'m HandlerInterface" where
  "fence = (misc_mem 0b0000 (\<lambda>vm current. mi_barrier vm))\<lparr>mnemonic := ''fence''\<rparr>"

definition fence_i :: "'m HandlerInterface" where
  "fence_i = (misc_mem 0b0001 (\<lambda>vm current. mi_barrier vm))\<lparr>mnemonic := ''fence.i''\<rparr>"

section \<open>System\<close>

definition env_call :: "'m HandlerInterface" where
  "env_call = (GenericHandler SYSTEM I_TYPE 0b0000 NoFuncB
     (\<lambda>vm current.
        if decode_i_u current \<noteq> 0 then mi_debug vm else mi_syscall vm))
     \<lparr>mnemonic := ''env'',
      disassemblyArgs := (\<lambda>code.
        map_sum id (\<lambda>args. if args = 0 then ''call'' else if args = 1 then ''break'' else to_hex args)
          (get_bits_at code 20 12))\<rparr>"

text \<open>\<open>csr_exec\<close> is the virtual \<open>exec(vm, csr_id, src_id, dst_id)\<close> that the instructions override.\<close>

definition csr :: "opcode_t
    \<Rightarrow> ('m MachineInterface \<Rightarrow> register_t \<Rightarrow> register_no \<Rightarrow> register_no \<Rightarrow> ('m, unit) action)
    \<Rightarrow> 'm HandlerInterface" where
  "csr Type csr_exec = GenericHandler SYSTEM I_TYPE Type NoFuncB
     (\<lambda>vm current.
        let src_id = get_rs1 current;
            dst_id = get_rd current;
            csr_id = decode_i_u current
        in csr_exec vm csr_id src_id dst_id)"

definition csrrw :: "'m HandlerInterface" where
  "csrrw = (csr 0b0001 (\<lambda>vm csr_id src_id dst_id.
     andThen (whenever (dst_id \<noteq> 0)
       (andThen (mi_control_get vm csr_id) (\<lambda>val. mi_set_register vm dst_id val))) (\<lambda>_.
     andThen (get_reg vm src_id) (\<lambda>src. mi_control_set vm csr_id src))))
     \<lparr>mnemonic := ''csrrw''\<rparr>"

definition csrrs :: "'m HandlerInterface" where
  "csrrs = (csr 0b0010 (\<lambda>vm csr_id src_id dst_id.
     andThen (mi_control_get vm csr_id) (\<lambda>val.
     andThen (mi_set_register vm dst_id val) (\<lambda>_.
     whenever (src_id \<noteq> 0)
       (andThen (get_reg vm src_id) (\<lambda>src. mi_control_set vm csr_id (val OR src)))))))
     \<lparr>mnemonic := ''csrrs''\<rparr>"

definition csrrc :: "'m HandlerInterface" where
  "csrrc = (csr 0b0011 (\<lambda>vm csr_id src_id dst_id.
     andThen (mi_control_get vm csr_id) (\<lambda>val.
     andThen (mi_set_register vm dst_id val) (\<lambda>_.
     whenever (src_id \<noteq> 0)
       (andThen (get_reg vm src_id) (\<lambda>msk. mi_control_set vm csr_id (val AND NOT msk)))))))
     \<lparr>mnemonic := ''csrrc''\<rparr>"

definition csrrwi :: "'m HandlerInterface" where
  "csrrwi = (csr 0b0101 (\<lambda>vm csr_id src_id dst_id.
     andThen (whenever (dst_id \<noteq> 0)
       (andThen (mi_control_get vm csr_id) (\<lambda>val. mi_set_register vm dst_id val))) (\<lambda>_.
     mi_control_set vm csr_id (ucast src_id))))
     \<lparr>mnemonic := ''csrrwi''\<rparr>"

definition csrrsi :: "'m HandlerInterface" where
  "csrrsi = (csr 0b0110 (\<lambda>vm csr_id src_id dst_id.
     andThen (mi_control_get vm csr_id) (\<lambda>val.
     andThen (mi_set_register vm dst_id val) (\<lambda>_.
     whenever (src_id \<noteq> 0) (mi_control_set vm csr_id (val OR ucast src_id))))))
     \<lparr>mnemonic := ''csrrsi''\<rparr>"

definition csrrci :: "'m HandlerInterface" where
  "csrrci = (csr 0b0111 (\<lambda>vm csr_id src_id dst_id.
     andThen (mi_control_get vm csr_id) (\<lambda>val.
     andThen (mi_set_register vm dst_id val) (\<lambda>_.
     whenever (src_id \<noteq> 0) (mi_control_set vm csr_id (val AND NOT (ucast src_id)))))))
     \<lparr>mnemonic := ''csrrci''\<rparr>"

end
