(* ===== verification/Handlers_RV32M.thy ===== *)
theory Handlers_RV32M
  imports Handlers_RV32I "HOL-Library.Signed_Division"
begin

text \<open>
  vm_handlers_rv32m.hxx: multiplication and division. \<open>result_signed_t\<close> and \<open>result_unsigned_t\<close> are
  64 bits wide; a signed product is computed in the type of its operands, and one that this type
  cannot hold is undefined behaviour.
\<close>

definition result_mask :: u64 where
  "result_mask = 0xFFFFFFFF"

definition result_size :: nat where
  "result_size = 32"

text \<open>\<open>numeric_limits\<close>: the least signed value as its bit pattern, the greatest unsigned value.\<close>

definition signed_min :: int where
  "signed_min = - (2 ^ 31)"

definition unsigned_max :: register_t where
  "unsigned_max = - 1"

text \<open>Multiplication of two values of type \<open>std::int32_t\<close> in that type.\<close>

definition mul_int32 :: "int \<Rightarrow> int \<Rightarrow> exn + int" where
  "mul_int32 l r =
     (if - (2 ^ 31) \<le> l * r \<and> l * r < 2 ^ 31 then Inr (l * r) else Inl (undefined Signed_Overflow))"

text \<open>Division of signed integers truncates towards zero.\<close>

definition tdiv :: "int \<Rightarrow> int \<Rightarrow> int" where
  "tdiv l r = sgn l * sgn r * (\<bar>l\<bar> div \<bar>r\<bar>)"

definition tmod :: "int \<Rightarrow> int \<Rightarrow> int" where
  "tmod l r = l - r * tdiv l r"

definition math :: "opcode_t \<Rightarrow> (register_t \<Rightarrow> register_t \<Rightarrow> exn + register_t) \<Rightarrow> 'm HandlerInterface" where
  "math Type calculate = (GenericHandler OP R_TYPE Type 0b0000001
     (\<lambda>vm current.
        let dest = get_rd current
        in andThen (get_reg vm (get_rs1 current)) (\<lambda>lhs.
           andThen (get_reg vm (get_rs2 current)) (\<lambda>rhs.
           andThen (checked (calculate lhs rhs)) (\<lambda>res.
           mi_set_register vm dest res)))))
     \<lparr>disassemblyArgs := (\<lambda>code.
        Inr (get_register_alias (get_rd code) @ comma @ get_register_alias (get_rs1 code) @ comma
             @ get_register_alias (get_rs2 code)))\<rparr>"

definition mul_calculate :: "register_t \<Rightarrow> register_t \<Rightarrow> exn + register_t" where
  "mul_calculate lhs rhs =
     map_sum id (\<lambda>p. let result = word_of_int p :: u64 in ucast (result AND result_mask))
       (mul_int32 (sint lhs) (sint rhs))"

definition mul :: "'m HandlerInterface" where
  "mul = (math 0b0000 mul_calculate)\<lparr>mnemonic := ''mul''\<rparr>"

definition mulh_calculate :: "register_t \<Rightarrow> register_t \<Rightarrow> exn + register_t" where
  "mulh_calculate lhs rhs =
     (let result = word_of_int (sint lhs * sint rhs) :: u64
      in Inr (ucast (signed_shr result result_size AND result_mask)))"

definition mulh :: "'m HandlerInterface" where
  "mulh = (math 0b0001 mulh_calculate)\<lparr>mnemonic := ''mulh''\<rparr>"

definition mulhsu_calculate :: "register_t \<Rightarrow> register_t \<Rightarrow> exn + register_t" where
  "mulhsu_calculate lhs rhs =
     (let result = (scast lhs :: u64) * ucast rhs
      in Inr (ucast (drop_bit result_size result AND result_mask)))"

definition mulhsu :: "'m HandlerInterface" where
  "mulhsu = (math 0b0010 mulhsu_calculate)\<lparr>mnemonic := ''mulhsu''\<rparr>"

definition mulhu_calculate :: "register_t \<Rightarrow> register_t \<Rightarrow> exn + register_t" where
  "mulhu_calculate lhs rhs =
     (let result = ucast lhs :: u64;
          result = result * ucast rhs
      in Inr (ucast (drop_bit result_size result AND result_mask)))"

definition mulhu :: "'m HandlerInterface" where
  "mulhu = (math 0b0011 mulhu_calculate)\<lparr>mnemonic := ''mulhu''\<rparr>"

definition div_calculate :: "register_t \<Rightarrow> register_t \<Rightarrow> exn + register_t" where
  "div_calculate lhs rhs =
     (let l = sint lhs; r = sint rhs
      in if l = signed_min \<and> r = - 1 then Inr lhs
         else if rhs = 0 then Inr unsigned_max
         else let result = word_of_int (tdiv l r) :: u64 in Inr (ucast (result AND result_mask)))"

definition div_m :: "'m HandlerInterface" where
  "div_m = (math 0b0100 div_calculate)\<lparr>mnemonic := ''div''\<rparr>"

definition divu_calculate :: "register_t \<Rightarrow> register_t \<Rightarrow> exn + register_t" where
  "divu_calculate lhs rhs =
     (if rhs = 0 then Inr unsigned_max
      else let result = ucast (lhs div rhs) :: u64 in Inr (ucast (result AND result_mask)))"

definition divu :: "'m HandlerInterface" where
  "divu = (math 0b0101 divu_calculate)\<lparr>mnemonic := ''divu''\<rparr>"

definition rem_calculate :: "register_t \<Rightarrow> register_t \<Rightarrow> exn + register_t" where
  "rem_calculate lhs rhs =
     (let l = sint lhs; r = sint rhs
      in if l = signed_min \<and> r = - 1 then Inr 0
         else if rhs = 0 then Inr lhs
         else let result = word_of_int (tmod l r) :: u64 in Inr (ucast (result AND result_mask)))"

definition rem :: "'m HandlerInterface" where
  "rem = (math 0b0110 rem_calculate)\<lparr>mnemonic := ''rem''\<rparr>"

definition remu_calculate :: "register_t \<Rightarrow> register_t \<Rightarrow> exn + register_t" where
  "remu_calculate lhs rhs =
     (if rhs = 0 then Inr lhs
      else let result = ucast (lhs mod rhs) :: u64 in Inr (ucast (result AND result_mask)))"

definition remu :: "'m HandlerInterface" where
  "remu = (math 0b0111 remu_calculate)\<lparr>mnemonic := ''remu''\<rparr>"

section \<open>What the multiplications and divisions compute\<close>

text \<open>Masking a 64-bit result to 32 bits keeps its low word.\<close>

lemma result_mask_mask: "result_mask = mask 32"
  by (simp add: result_mask_def mask_eq_exp_minus_1)

lemma low_word [simp]: "ucast (w AND result_mask) = (ucast w :: register_t)" for w :: u64
  by (rule bit_word_eqI) (auto simp: bit_simps result_mask_mask)

lemma low_word_of_int [simp]: "ucast (word_of_int k :: u64) = (word_of_int k :: register_t)"
  by (rule bit_word_eqI) (auto simp: bit_simps)

text \<open>The high word of a 64-bit product, whichever way the 64-bit value is shifted.\<close>

lemma high_word:
  "ucast (drop_bit 32 (word_of_int k :: u64)) = (word_of_int (k div 2 ^ 32) :: register_t)"
  "ucast (signed_drop_bit 32 (word_of_int k :: u64)) = (word_of_int (k div 2 ^ 32) :: register_t)"
  unfolding drop_bit_eq_div [symmetric] by (rule bit_word_eqI; auto simp: bit_simps min_def)+

lemma product_word:
  "(scast a :: u64) * ucast b = word_of_int (sint a * uint b)"
  "(ucast a :: u64) * ucast b = word_of_int (uint a * uint b)" for a b :: register_t
  by simp_all

lemma ucast_ucast_word [simp]: "ucast (ucast x :: u64) = x" for x :: register_t
  by (rule bit_word_eqI) (auto simp: bit_simps)

lemma mul_calculate_eq:
  "mul_calculate a b =
     (if - (2 ^ 31) \<le> sint a * sint b \<and> sint a * sint b < 2 ^ 31 then Inr (a * b)
      else Inl (undefined Signed_Overflow))"
  by (simp add: mul_calculate_def mul_int32_def Let_def)

lemma mulh_calculate_eq: "mulh_calculate a b = Inr (word_of_int ((sint a * sint b) div 2 ^ 32))"
  by (simp add: mulh_calculate_def Let_def result_size_def signed_shr_eq high_word del: of_int_mult)

lemma mulhu_calculate_eq: "mulhu_calculate a b = Inr (word_of_int ((uint a * uint b) div 2 ^ 32))"
  by (simp add: mulhu_calculate_def Let_def result_size_def product_word high_word del: of_int_mult)

lemma mulhsu_calculate_eq: "mulhsu_calculate a b = Inr (word_of_int ((sint a * uint b) div 2 ^ 32))"
  by (simp add: mulhsu_calculate_def Let_def result_size_def product_word high_word del: of_int_mult)

lemma tdiv_sdiv: "tdiv k l = k sdiv l"
  by (simp add: tdiv_def signed_divide_int_def)

lemma tmod_smod: "tmod k l = k smod l"
  by (simp add: tmod_def tdiv_sdiv minus_mult_sdiv_eq_smod)

lemma div_calculate_eq:
  "div_calculate a b = Inr (if b = 0 then - 1 else word_of_int (sint a sdiv sint b))"
proof (cases "sint a = signed_min \<and> sint b = - 1")
  case True
  moreover have "a = word_of_int (sint a)" by simp
  ultimately have "a = word_of_int (2 ^ 31)" by (simp add: signed_min_def del: of_int_sint)
  moreover have "b \<noteq> 0" using True by auto
  ultimately show ?thesis using True by (simp add: div_calculate_def signed_min_def)
next
  case False
  then have "div_calculate a b = (if b = 0 then Inr unsigned_max
      else Inr (word_of_int (tdiv (sint a) (sint b))))"
    by (simp only: div_calculate_def Let_def if_False low_word low_word_of_int)
  then show ?thesis by (simp add: unsigned_max_def tdiv_sdiv)
qed

lemma rem_calculate_eq:
  "rem_calculate a b = Inr (if b = 0 then a else word_of_int (sint a smod sint b))"
proof (cases "sint a = signed_min \<and> sint b = - 1")
  case True
  moreover have "b \<noteq> 0" using True by auto
  moreover have "signed_min smod - 1 = 0" by (simp add: signed_modulo_int_def)
  ultimately show ?thesis by (simp add: rem_calculate_def)
next
  case False
  then have "rem_calculate a b = (if b = 0 then Inr a
      else Inr (word_of_int (tmod (sint a) (sint b))))"
    by (simp only: rem_calculate_def Let_def if_False low_word low_word_of_int)
  then show ?thesis by (simp add: tmod_smod)
qed

lemma divu_calculate_eq: "divu_calculate a b = Inr (if b = 0 then - 1 else a div b)"
  by (simp add: divu_calculate_def unsigned_max_def Let_def)

lemma remu_calculate_eq: "remu_calculate a b = Inr (if b = 0 then a else a mod b)"
  by (simp add: remu_calculate_def unsigned_max_def Let_def)

section \<open>Properties\<close>

text \<open>
  C25: \<open>mulh\<close>, \<open>mulhsu\<close> and \<open>mulhu\<close> give the high word of the exact product of their operands, read as
  signed, signed and unsigned, and unsigned integers. \<open>mul\<close> gives the low word of the product only
  when the signed product fits in 32 bits; otherwise the signed multiplication is undefined.
\<close>

theorem multiplication:
  "mul_calculate a b =
     (if - (2 ^ 31) \<le> sint a * sint b \<and> sint a * sint b < 2 ^ 31
      then Inr (word_of_int (sint a * sint b)) else Inl (undefined Signed_Overflow))
   \<and> mulh_calculate a b = Inr (word_of_int ((sint a * sint b) div 2 ^ 32))
   \<and> mulhsu_calculate a b = Inr (word_of_int ((sint a * uint b) div 2 ^ 32))
   \<and> mulhu_calculate a b = Inr (word_of_int ((uint a * uint b) div 2 ^ 32))"
  using mul_calculate_eq mulh_calculate_eq mulhsu_calculate_eq mulhu_calculate_eq by simp

text \<open>
  Signed division truncates towards zero. For a divisor other than 0 the results are the quotient
  and the remainder of the exact integers in 32 bits (the overflowing \<open>-2^31 / -1\<close> included), and they
  satisfy \<open>a = q * b + r\<close>, with the remainder smaller than the divisor and with the sign of the
  dividend. Division by 0 gives all ones and the dividend, as the specification says, not an error.
\<close>

theorem signed_division:
  "\<exists>q r. div_calculate a b = Inr q \<and> rem_calculate a b = Inr r \<and> a = q * b + r
     \<and> (if b = 0 then q = - 1 \<and> r = a
        else q = word_of_int (sint a sdiv sint b) \<and> sint r = sint a smod sint b \<and> \<bar>sint r\<bar> < \<bar>sint b\<bar>
             \<and> (sint r = 0 \<or> sgn (sint r) = sgn (sint a)))"
proof (cases "b = 0")
  case True
  then show ?thesis by (simp add: div_calculate_eq rem_calculate_eq)
next
  case False
  let ?l = "sint a" and ?r = "sint b"
  let ?q = "word_of_int (?l sdiv ?r) :: register_t" and ?m = "word_of_int (?l smod ?r) :: register_t"
  have nz: "?r \<noteq> 0" using False by (metis scast_id of_int_sint of_int_0)
  have "?q * b + ?m = word_of_int (?l sdiv ?r * ?r + ?l smod ?r)" by simp
  also have "\<dots> = a" by (simp only: sdiv_mult_smod_eq) simp
  finally have sum: "a = ?q * b + ?m" by simp
  have range: "\<bar>?l smod ?r\<bar> < \<bar>?r\<bar>" using smod_int_range [OF nz, of ?l] by auto
  moreover have "- (2 ^ 31) \<le> ?r \<and> ?r < 2 ^ 31" using sint_range_size [of b] by (simp add: word_size)
  ultimately have "- (2 ^ 31) \<le> ?l smod ?r \<and> ?l smod ?r < 2 ^ 31" by linarith
  then have m: "sint ?m = ?l smod ?r" by (simp add: signed_of_int signed_take_bit_int_eq_self)
  have "0 \<le> \<bar>?l\<bar> mod \<bar>?r\<bar>" using nz by simp
  then have "\<bar>?l\<bar> mod \<bar>?r\<bar> = 0 \<or> sgn (\<bar>?l\<bar> mod \<bar>?r\<bar>) = 1" by (auto simp: sgn_if)
  then have "?l smod ?r = 0 \<or> sgn (?l smod ?r) = sgn ?l"
    by (auto simp: signed_modulo_int_def sgn_mult)
  with False sum range m show ?thesis by (simp add: div_calculate_eq rem_calculate_eq)
qed

text \<open>
  Unsigned division gives quotient and remainder, all ones and the dividend for a divisor of 0.
\<close>

theorem unsigned_division:
  "\<exists>q r. divu_calculate a b = Inr q \<and> remu_calculate a b = Inr r \<and> a = q * b + r
     \<and> (if b = 0 then q = - 1 \<and> r = a else uint q = uint a div uint b \<and> uint r = uint a mod uint b)"
  by (simp add: divu_calculate_eq remu_calculate_eq uint_div uint_mod div_mult_mod_eq)

text \<open>
  C26: The four divisions. The signed ones truncate towards zero, with the overflowing \<open>-2^31 / -1\<close> wrapped to
  32 bits; quotient and remainder satisfy \<open>a = q * b + r\<close>, the remainder is smaller than the divisor and
  has the sign of the dividend. The unsigned ones give the exact quotient and remainder. Division by 0 gives
  all ones and the dividend, as the specification says, not an error.
\<close>

theorem division:
  "(\<exists>q r. div_calculate a b = Inr q \<and> rem_calculate a b = Inr r \<and> a = q * b + r
     \<and> (if b = 0 then q = - 1 \<and> r = a
        else q = word_of_int (sint a sdiv sint b) \<and> sint r = sint a smod sint b \<and> \<bar>sint r\<bar> < \<bar>sint b\<bar>
             \<and> (sint r = 0 \<or> sgn (sint r) = sgn (sint a))))
   \<and> (\<exists>q r. divu_calculate a b = Inr q \<and> remu_calculate a b = Inr r \<and> a = q * b + r
     \<and> (if b = 0 then q = - 1 \<and> r = a else uint q = uint a div uint b \<and> uint r = uint a mod uint b))"
  using signed_division unsigned_division by blast

end
