(* ===== verification/Instruction_Set.thy ===== *)
theory Instruction_Set
  imports Handlers_RV32M
begin

text \<open>
  vm_handlers_rv32i.cxx / vm_handlers_rv32m.cxx: registration of the RV32I and RV32M handlers. The
  registry owns objects of the handler classes; an object without fields is its dynamic class, and a
  virtual call goes through the table of that class.
\<close>

section \<open>The handler classes\<close>

datatype HandlerClass =
    C_beq
  | C_bne
  | C_blt
  | C_bge
  | C_bltu
  | C_bgeu
  | C_lb
  | C_lh
  | C_lw
  | C_lbu
  | C_lhu
  | C_sb
  | C_sh
  | C_sw
  | C_addi
  | C_slti
  | C_sltiu
  | C_xori
  | C_ori
  | C_andi
  | C_slli
  | C_srli
  | C_srai
  | C_add_r
  | C_sub_r
  | C_sll_r
  | C_slt_r
  | C_sltu_r
  | C_xor_r
  | C_srl_r
  | C_sra_r
  | C_or_r
  | C_and_r
  | C_fence
  | C_fence_i
  | C_env_call
  | C_csrrw
  | C_csrrs
  | C_csrrc
  | C_csrrwi
  | C_csrrsi
  | C_csrrci
  | C_lui
  | C_auipc
  | C_jal
  | C_jalr
  | C_mul
  | C_mulh
  | C_mulhsu
  | C_mulhu
  | C_div_m
  | C_divu
  | C_rem
  | C_remu

fun vtable :: "HandlerClass \<Rightarrow> 'm HandlerInterface" where
  "vtable C_beq = beq"
| "vtable C_bne = bne"
| "vtable C_blt = blt"
| "vtable C_bge = bge"
| "vtable C_bltu = bltu"
| "vtable C_bgeu = bgeu"
| "vtable C_lb = lb"
| "vtable C_lh = lh"
| "vtable C_lw = lw"
| "vtable C_lbu = lbu"
| "vtable C_lhu = lhu"
| "vtable C_sb = sb"
| "vtable C_sh = sh"
| "vtable C_sw = sw"
| "vtable C_addi = addi"
| "vtable C_slti = slti"
| "vtable C_sltiu = sltiu"
| "vtable C_xori = xori"
| "vtable C_ori = ori"
| "vtable C_andi = andi"
| "vtable C_slli = slli"
| "vtable C_srli = srli"
| "vtable C_srai = srai"
| "vtable C_add_r = add_r"
| "vtable C_sub_r = sub_r"
| "vtable C_sll_r = sll_r"
| "vtable C_slt_r = slt_r"
| "vtable C_sltu_r = sltu_r"
| "vtable C_xor_r = xor_r"
| "vtable C_srl_r = srl_r"
| "vtable C_sra_r = sra_r"
| "vtable C_or_r = or_r"
| "vtable C_and_r = and_r"
| "vtable C_fence = fence"
| "vtable C_fence_i = fence_i"
| "vtable C_env_call = env_call"
| "vtable C_csrrw = csrrw"
| "vtable C_csrrs = csrrs"
| "vtable C_csrrc = csrrc"
| "vtable C_csrrwi = csrrwi"
| "vtable C_csrrsi = csrrsi"
| "vtable C_csrrci = csrrci"
| "vtable C_lui = lui"
| "vtable C_auipc = auipc"
| "vtable C_jal = jal"
| "vtable C_jalr = jalr"
| "vtable C_mul = mul"
| "vtable C_mulh = mulh"
| "vtable C_mulhsu = mulhsu"
| "vtable C_mulhu = mulhu"
| "vtable C_div_m = div_m"
| "vtable C_divu = divu"
| "vtable C_rem = rem"
| "vtable C_remu = remu"

text \<open>\<open>getId\<close> does not depend on the machine the handlers run on.\<close>

definition class_id :: "HandlerClass \<Rightarrow> InstructionId" where
  "class_id c = getId (vtable c :: unit HandlerInterface)"

section \<open>Registration\<close>

text \<open>\<open>ok = ok && r->register_handler<Handler>()\<close>: nothing is registered once \<open>ok\<close> is false.\<close>

definition register_if :: "HandlerClass \<Rightarrow> bool \<times> HandlerClass HandlerRegistry \<Rightarrow> bool \<times> HandlerClass HandlerRegistry" where
  "register_if c s = (case s of (ok, r) \<Rightarrow> if ok then register_handler class_id c r else (False, r))"

type_synonym registration = "bool \<times> HandlerClass HandlerRegistry \<Rightarrow> bool \<times> HandlerClass HandlerRegistry"

definition add_branch :: registration where
  "add_branch = fold register_if [C_beq, C_bne, C_blt, C_bge, C_bltu, C_bgeu]"

definition add_load :: registration where
  "add_load = fold register_if [C_lb, C_lh, C_lw, C_lbu, C_lhu]"

definition add_store :: registration where
  "add_store = fold register_if [C_sb, C_sh, C_sw]"

definition add_int_imm :: registration where
  "add_int_imm = fold register_if [C_addi, C_slti, C_sltiu, C_xori, C_ori, C_andi]"

definition add_shift_imm :: registration where
  "add_shift_imm = fold register_if [C_slli, C_srli, C_srai]"

definition add_int :: registration where
  "add_int = fold register_if [C_add_r, C_sub_r, C_sll_r, C_slt_r, C_sltu_r, C_xor_r, C_srl_r, C_sra_r, C_or_r, C_and_r]"

definition add_misc :: registration where
  "add_misc = fold register_if [C_fence, C_fence_i]"

definition add_system :: registration where
  "add_system = fold register_if [C_env_call, C_csrrw, C_csrrs, C_csrrc, C_csrrwi, C_csrrsi, C_csrrci]"

definition register_rv32i_set :: "HandlerClass HandlerRegistry \<Rightarrow> bool \<times> HandlerClass HandlerRegistry" where
  "register_rv32i_set r =
     (let s = (True, r);
          s = add_branch s;
          s = add_load s;
          s = add_store s;
          s = add_int_imm s;
          s = add_shift_imm s;
          s = add_int s;
          s = add_misc s;
          s = add_system s;
          s = register_if C_lui s;
          s = register_if C_auipc s;
          s = register_if C_jal s;
          s = register_if C_jalr s
      in s)"

definition register_rv32m_set :: "HandlerClass HandlerRegistry \<Rightarrow> bool \<times> HandlerClass HandlerRegistry" where
  "register_rv32m_set r =
     (let s = register_handler class_id C_mul r;
          s = register_if C_mulh s;
          s = register_if C_mulhsu s;
          s = register_if C_mulhu s;
          s = register_if C_div_m s;
          s = register_if C_divu s;
          s = register_if C_rem s;
          s = register_if C_remu s
      in s)"


section \<open>The classes of each set, in the order of registration\<close>

definition rv32i_classes :: "HandlerClass list" where
  "rv32i_classes =
     [C_beq, C_bne, C_blt, C_bge, C_bltu, C_bgeu,
      C_lb, C_lh, C_lw, C_lbu, C_lhu, C_sb, C_sh, C_sw,
      C_addi, C_slti, C_sltiu, C_xori, C_ori, C_andi, C_slli, C_srli, C_srai,
      C_add_r, C_sub_r, C_sll_r, C_slt_r, C_sltu_r, C_xor_r, C_srl_r, C_sra_r, C_or_r, C_and_r,
      C_fence, C_fence_i, C_env_call, C_csrrw, C_csrrs, C_csrrc, C_csrrwi, C_csrrsi, C_csrrci,
      C_lui, C_auipc, C_jal, C_jalr]"

definition rv32m_classes :: "HandlerClass list" where
  "rv32m_classes = [C_mul, C_mulh, C_mulhsu, C_mulhu, C_div_m, C_divu, C_rem, C_remu]"

text \<open>
  The instruction listing of the RISC-V specification for RV32I, Zifencei, Zicsr and RV32M: mnemonic,
  opcode, \<open>funct3\<close> and \<open>funct7\<close> (where the encoding has them). \<open>ecall\<close> and \<open>ebreak\<close> are one entry.
\<close>

definition isa_table :: "(string \<times> opcode_t \<times> opcode_t option \<times> opcode_t option) list" where
  "isa_table =
     [(''lui'', 0x37, None, None), (''auipc'', 0x17, None, None), (''jal'', 0x6F, None, None),
      (''jalr'', 0x67, Some 0, None),
      (''beq'', 0x63, Some 0, None), (''bne'', 0x63, Some 1, None), (''blt'', 0x63, Some 4, None),
      (''bge'', 0x63, Some 5, None), (''bltu'', 0x63, Some 6, None), (''bgeu'', 0x63, Some 7, None),
      (''lb'', 0x03, Some 0, None), (''lh'', 0x03, Some 1, None), (''lw'', 0x03, Some 2, None),
      (''lbu'', 0x03, Some 4, None), (''lhu'', 0x03, Some 5, None),
      (''sb'', 0x23, Some 0, None), (''sh'', 0x23, Some 1, None), (''sw'', 0x23, Some 2, None),
      (''addi'', 0x13, Some 0, None), (''slti'', 0x13, Some 2, None), (''sltiu'', 0x13, Some 3, None),
      (''xori'', 0x13, Some 4, None), (''ori'', 0x13, Some 6, None), (''andi'', 0x13, Some 7, None),
      (''slli'', 0x13, Some 1, Some 0x00), (''srli'', 0x13, Some 5, Some 0x00),
      (''srai'', 0x13, Some 5, Some 0x20),
      (''add'', 0x33, Some 0, Some 0x00), (''sub'', 0x33, Some 0, Some 0x20),
      (''sll'', 0x33, Some 1, Some 0x00), (''slt'', 0x33, Some 2, Some 0x00),
      (''sltu'', 0x33, Some 3, Some 0x00), (''xor'', 0x33, Some 4, Some 0x00),
      (''srl'', 0x33, Some 5, Some 0x00), (''sra'', 0x33, Some 5, Some 0x20),
      (''or'', 0x33, Some 6, Some 0x00), (''and'', 0x33, Some 7, Some 0x00),
      (''fence'', 0x0F, Some 0, None), (''fence.i'', 0x0F, Some 1, None),
      (''env'', 0x73, Some 0, None),
      (''csrrw'', 0x73, Some 1, None), (''csrrs'', 0x73, Some 2, None), (''csrrc'', 0x73, Some 3, None),
      (''csrrwi'', 0x73, Some 5, None), (''csrrsi'', 0x73, Some 6, None), (''csrrci'', 0x73, Some 7, None),
      (''mul'', 0x33, Some 0, Some 0x01), (''mulh'', 0x33, Some 1, Some 0x01),
      (''mulhsu'', 0x33, Some 2, Some 0x01), (''mulhu'', 0x33, Some 3, Some 0x01),
      (''div'', 0x33, Some 4, Some 0x01), (''divu'', 0x33, Some 5, Some 0x01),
      (''rem'', 0x33, Some 6, Some 0x01), (''remu'', 0x33, Some 7, Some 0x01)]"

fun entry_matches :: "string \<times> opcode_t \<times> opcode_t option \<times> opcode_t option \<Rightarrow> opcode_t \<Rightarrow> bool" where
  "entry_matches (name, op, f3, f7) c \<longleftrightarrow> op = get_code c
     \<and> (case f3 of None \<Rightarrow> True | Some f \<Rightarrow> f = get_func3 c)
     \<and> (case f7 of None \<Rightarrow> True | Some f \<Rightarrow> f = get_func7 c)"

definition class_entry :: "HandlerClass \<Rightarrow> string \<times> opcode_t \<times> opcode_t option \<times> opcode_t option" where
  "class_entry c =
     (let i = class_id c
      in (mnemonic (vtable c :: unit HandlerInterface), groupId i,
          if funcA i = NoFuncA then None else Some (funcA i),
          if funcB i = NoFuncB then None else Some (funcB i)))"

lemmas handler_class_defs =
  lui_def auipc_def jal_def jalr_def branch_def beq_def bne_def blt_def bge_def bltu_def bgeu_def
  load_def lb_def lh_def lw_def lbu_def lhu_def store_def sb_def sh_def sw_def
  int_imm_def addi_def slti_def sltiu_def xori_def ori_def andi_def
  shift_imm_def slli_def srli_def srai_def
  int_r_def add_r_def sub_r_def sll_r_def slt_r_def sltu_r_def xor_r_def srl_r_def sra_r_def or_r_def and_r_def
  misc_mem_def fence_def fence_i_def env_call_def csr_def csrrw_def csrrs_def csrrc_def
  csrrwi_def csrrsi_def csrrci_def
  math_def mul_def mulh_def mulhsu_def mulhu_def div_m_def divu_def rem_def remu_def

lemmas class_id_simps =
  class_id_def handler_class_defs GenericHandler_def NoFuncA_def NoFuncB_def make_opcode_def op_size_def

lemma class_id_no_func:
  "funcA (class_id c) = NoFuncA \<longleftrightarrow> groupId (class_id c) \<in> {0x37, 0x17, 0x6F}"
  "funcB (class_id c) = NoFuncB \<longleftrightarrow>
     \<not> (groupId (class_id c) = 0x33 \<or> groupId (class_id c) = 0x13 \<and> funcA (class_id c) \<in> {1, 5})"
  by (cases c; simp add: class_id_simps)+

lemma class_id_range: "id_in_range (class_id c)"
  by (cases c; simp add: class_id_simps id_in_range_def)

lemma class_id_uniform: "uniform class_id H"
  by (simp add: uniform_def class_id_no_func)

lemma mnemonic_machine: "mnemonic (vtable c :: 'm HandlerInterface) = mnemonic (vtable c :: unit HandlerInterface)"
  by (cases c; simp add: handler_class_defs GenericHandler_def)

section \<open>Registration of the whole set\<close>

definition table_classes :: "HandlerClass list" where
  "table_classes =
     [C_lui, C_auipc, C_jal, C_jalr, C_beq, C_bne, C_blt, C_bge, C_bltu, C_bgeu,
      C_lb, C_lh, C_lw, C_lbu, C_lhu, C_sb, C_sh, C_sw,
      C_addi, C_slti, C_sltiu, C_xori, C_ori, C_andi, C_slli, C_srli, C_srai,
      C_add_r, C_sub_r, C_sll_r, C_slt_r, C_sltu_r, C_xor_r, C_srl_r, C_sra_r, C_or_r, C_and_r,
      C_fence, C_fence_i, C_env_call, C_csrrw, C_csrrs, C_csrrc, C_csrrwi, C_csrrsi, C_csrrci,
      C_mul, C_mulh, C_mulhsu, C_mulhu, C_div_m, C_divu, C_rem, C_remu]"

lemma all_classes: "c \<in> set table_classes" "c \<in> set (rv32i_classes @ rv32m_classes)"
  by (cases c; simp add: table_classes_def rv32i_classes_def rv32m_classes_def)+

lemma class_entries: "map class_entry table_classes = isa_table"
  by (simp add: class_entry_def class_id_simps isa_table_def table_classes_def)

lemma isa_table_distinct: "distinct (map snd isa_table)"
  by (simp add: isa_table_def)

lemma class_entry_inject: "snd (class_entry c) = snd (class_entry d) \<longleftrightarrow> c = d"
proof -
  have "distinct (map (snd \<circ> class_entry) table_classes)"
    using isa_table_distinct by (simp flip: class_entries)
  then show ?thesis
    using all_classes(1) unfolding distinct_map inj_on_def comp_def by metis
qed

lemma internal_id_class: "internal_id (class_id c) = internal_id (class_id d) \<longleftrightarrow> c = d"
  unfolding internal_id_inject [OF class_id_range class_id_range] class_entry_inject [symmetric]
  by (simp add: class_entry_def Let_def)

lemma register_if_seq:
  "fold register_if cs s = keyed_registry.register_seq
     (\<lambda>h r. fst (register_handler class_id h r)) (\<lambda>h r. snd (register_handler class_id h r)) cs s"
proof (induction cs arbitrary: s)
  case (Cons c cs)
  then show ?case by (cases s) (simp add: register_if_def handler_registry.register_seq.simps)
qed (simp add: handler_registry.register_seq.simps)

lemma register_if_False: "fold register_if cs (False, r) = (False, r)"
  by (simp add: register_if_seq handler_registry.register_seq_False)

lemma register_rv32i_fold: "register_rv32i_set r = fold register_if rv32i_classes (True, r)"
  by (simp add: register_rv32i_set_def Let_def add_branch_def add_load_def add_store_def add_int_imm_def
    add_shift_imm_def add_int_def add_misc_def add_system_def rv32i_classes_def)

lemma register_rv32m_fold: "register_rv32m_set r = fold register_if rv32m_classes (True, r)"
  by (simp add: register_rv32m_set_def Let_def rv32m_classes_def register_if_def)

lemma classes_distinct: "distinct (map (\<lambda>c. internal_id (class_id c)) (rv32i_classes @ rv32m_classes))"
proof -
  have "distinct (rv32i_classes @ rv32m_classes)" by (simp add: rv32i_classes_def rv32m_classes_def)
  moreover have "inj (\<lambda>c. internal_id (class_id c))" by (simp add: inj_def internal_id_class)
  ultimately show ?thesis unfolding distinct_map by (metis inj_on_subset subset_UNIV)
qed

lemma registry_ok_fold:
  "registry_ok class_id (snd s) \<Longrightarrow> registry_ok class_id (snd (fold register_if cs s))"
proof (induction cs arbitrary: s)
  case (Cons c cs)
  from Cons.prems have "registry_ok class_id (snd (register_if c s))"
    using class_id_range by (cases s) (simp add: register_if_def registry_ok_register)
  with Cons.IH show ?case by simp
qed simp

text \<open>The registry of a machine after \<open>init_isa\<close>.\<close>

definition isa_registry :: "HandlerClass HandlerRegistry" where
  "isa_registry = snd (register_rv32m_set (snd (register_rv32i_set empty_registry)))"

lemma isa_registry_ok: "registry_ok class_id isa_registry"
  by (simp add: isa_registry_def register_rv32i_fold register_rv32m_fold registry_ok_fold registry_ok_empty)

lemma register_empty:
  "register_rv32i_set empty_registry = (True, snd (register_rv32i_set empty_registry))"
  "register_rv32m_set (snd (register_rv32i_set empty_registry)) = (True, isa_registry)"
  "ran (handlers isa_registry) = UNIV"
proof -
  let ?r = "empty_registry :: HandlerClass HandlerRegistry"
  have free: "\<forall>c \<in> set cs. handlers ?r (internal_id (class_id c)) = None" for cs
    by (simp add: empty_registry_def)
  have i: "fst (fold register_if rv32i_classes (True, ?r))"
    using classes_distinct free [of rv32i_classes]
    by (simp add: register_if_seq handler_registry.register_seq_ok [of class_id])
  then show "register_rv32i_set ?r = (True, snd (register_rv32i_set ?r))"
    by (simp add: register_rv32i_fold prod_eq_iff)
  from i obtain r where r: "fold register_if rv32i_classes (True, ?r) = (True, r)"
    by (metis (full_types) prod.collapse)
  then have all: "register_rv32m_set (snd (register_rv32i_set ?r))
      = fold register_if (rv32i_classes @ rv32m_classes) (True, ?r)"
    by (simp add: register_rv32i_fold register_rv32m_fold)
  have "fst (fold register_if (rv32i_classes @ rv32m_classes) (True, ?r))"
    using classes_distinct free [of "rv32i_classes @ rv32m_classes"]
    by (simp only: register_if_seq handler_registry.register_seq_ok [of class_id] simp_thms)
  then show "register_rv32m_set (snd (register_rv32i_set ?r)) = (True, isa_registry)"
    by (simp add: isa_registry_def all prod_eq_iff)
  have "handlers isa_registry (internal_id (class_id c)) = Some c" for c
    using all_classes(2) [of c]
    unfolding isa_registry_def all register_if_seq
      handler_registry.register_seq_lookup [of class_id, OF classes_distinct free] by simp
  then show "ran (handlers isa_registry) = UNIV" by (auto intro: ranI)
qed

lemma handles_entry: "handles (class_id c) code \<longleftrightarrow> entry_matches (class_entry c) code"
  by (simp add: handles_def class_entry_def Let_def)

lemma find_handler_isa: "find_handler isa_registry code = Some c \<longleftrightarrow> entry_matches (class_entry c) code"
  using find_handler_iff [OF isa_registry_ok class_id_uniform, of code c]
  by (simp add: register_empty(3) handles_entry)

lemma isa_registry_entry: "handlers isa_registry (internal_id (class_id c)) = Some c"
  by (simp add: registry_ok_entry [OF isa_registry_ok] register_empty(3))

lemma register_again:
  "register_rv32i_set isa_registry = (False, isa_registry)"
  "register_rv32m_set isa_registry = (False, isa_registry)"
proof -
  have "register_if c (True, isa_registry) = (False, isa_registry)" for c
    by (simp add: register_if_def register_handler_def Let_def isa_registry_entry)
  then have refused: "fold register_if (c # cs) (True, isa_registry) = (False, isa_registry)" for c cs
    by (simp add: register_if_False)
  show "register_rv32i_set isa_registry = (False, isa_registry)"
    by (simp only: register_rv32i_fold rv32i_classes_def refused)
  show "register_rv32m_set isa_registry = (False, isa_registry)"
    by (simp only: register_rv32m_fold rv32m_classes_def refused)
qed

lemma find_handler_table:
  "map_option (\<lambda>c. mnemonic (vtable c :: 'm HandlerInterface)) (find_handler isa_registry code)
    = map_option fst (find (\<lambda>e. entry_matches e code) isa_table)"
proof (cases "find_handler isa_registry code")
  case None
  then have "\<not> entry_matches (class_entry c) code" for c using find_handler_isa [of code c] by simp
  then have "find (\<lambda>e. entry_matches e code) isa_table = None"
    by (auto simp: find_None_iff simp flip: class_entries)
  with None show ?thesis by simp
next
  case (Some c)
  then have m: "entry_matches (class_entry d) code \<longleftrightarrow> d = c" for d
    using find_handler_isa [of code d] by auto
  then have "find (\<lambda>e. entry_matches e code) isa_table \<noteq> None"
    using all_classes(1) [of c] by (auto simp: find_None_iff simp flip: class_entries)
  then obtain e where e: "find (\<lambda>e. entry_matches e code) isa_table = Some e" by blast
  then have "e \<in> set isa_table \<and> entry_matches e code" by (auto simp: find_Some_iff)
  with m have "e = class_entry c" by (auto simp flip: class_entries)
  with Some e show ?thesis by (simp add: class_entry_def Let_def) (rule mnemonic_machine)
qed

lemma id_equal_class: "id_equal (class_id c) (class_id d) \<longleftrightarrow> c = d"
proof
  assume "id_equal (class_id c) (class_id d)"
  then have "snd (class_entry c) = snd (class_entry d)" by (simp add: id_equal_def class_entry_def Let_def)
  then show "c = d" by (simp only: class_entry_inject)
qed (simp add: id_equal_def)

section \<open>Properties\<close>

text \<open>
  C4: Decoding is the RISC-V instruction listing: for every instruction word, the registry that
  \<open>register_rv32i_set\<close> and \<open>register_rv32m_set\<close> fill finds a handler exactly when an entry of the listing
  has its opcode, \<open>funct3\<close> and \<open>funct7\<close>, and it is the handler of that instruction.
\<close>

theorem decoding_is_isa_table:
  "map_option (\<lambda>c. mnemonic (vtable c :: 'm HandlerInterface)) (find_handler isa_registry code)
    = map_option fst (find (\<lambda>e. entry_matches e code) isa_table)"
  by (rule find_handler_table)

text \<open>
  Both registrations succeed on an empty registry and give 54 handlers; repeating either is
  refused and leaves the registry as it was.
\<close>

theorem registration_once:
  "fst (register_rv32i_set empty_registry)
    \<and> fst (register_rv32m_set (snd (register_rv32i_set empty_registry)))
    \<and> card (dom (handlers isa_registry)) = 54
    \<and> register_rv32i_set isa_registry = (False, isa_registry)
    \<and> register_rv32m_set isa_registry = (False, isa_registry)"
proof -
  have "dom (handlers isa_registry) = range (\<lambda>c. internal_id (class_id c))"
    using registry_ok_entry [OF isa_registry_ok] isa_registry_entry by (auto simp: dom_def)
  also have "\<dots> = set (map (\<lambda>c. internal_id (class_id c)) (rv32i_classes @ rv32m_classes))"
    using all_classes(2) by auto
  finally have "card (dom (handlers isa_registry)) = length (rv32i_classes @ rv32m_classes)"
    using distinct_card [OF classes_distinct] by simp
  then have "card (dom (handlers isa_registry)) = 54"
    by (simp add: rv32i_classes_def rv32m_classes_def)
  then show ?thesis using register_empty(1,2) register_again by (metis fst_conv)
qed

text \<open>
  The identifiers of the handlers do not collide. The strict comparison, the comparison of the hash map
  and the hash itself tell any two handlers apart, and the order puts them in a line.
\<close>

theorem handler_ids_apart:
  "(id_equal (class_id c) (class_id d) \<longleftrightarrow> c = d) \<and> (id_compare (class_id c) (class_id d) \<longleftrightarrow> c = d)
    \<and> (hash_id (class_id c) = hash_id (class_id d) \<longleftrightarrow> c = d)
    \<and> (class_id c < class_id d \<or> c = d \<or> class_id d < class_id c)"
  using internal_id_class [of c d]
  by (auto simp: id_equal_class id_compare_def hash_id_def less_InstructionId_ext_def id_less_def)

end
