(* ===== verification/Byte_Memory.thy ===== *)
theory Byte_Memory
  imports Prelude
begin

text \<open>
  The contract of byte-addressed storage behind \<open>load\<close> and \<open>store\<close>, shared by a single memory block
  and by the memory management unit: where a range is covered, a load returns the bytes of the range,
  and a store changes these bytes and nothing else.
\<close>

text \<open>\<open>x\<close> is one of the \<open>n\<close> addresses from \<open>a\<close> on.\<close>

definition in_area :: "u32 \<Rightarrow> u32 \<Rightarrow> u32 \<Rightarrow> bool" where
  "in_area a n x \<longleftrightarrow> unat (x - a) < unat n"

lemma unat_of_nat_small: "i < unat (n :: u32) \<Longrightarrow> unat (of_nat i :: u32) = i"
  by (metis le_unat_uoi less_imp_le)

locale byte_memory =
  fixes ld :: "'b \<Rightarrow> u32 \<Rightarrow> u32 \<Rightarrow> exn + u8 list option"
    and st :: "'b \<Rightarrow> u32 \<Rightarrow> u8 list \<Rightarrow> u32 \<Rightarrow> exn + 'b option"
    and ok :: "'b \<Rightarrow> bool"
    and covered :: "'b \<Rightarrow> u32 \<Rightarrow> u32 \<Rightarrow> bool"
    and byte :: "'b \<Rightarrow> u32 \<Rightarrow> u8"
  assumes ld_covered: "ok b \<Longrightarrow> covered b a n \<Longrightarrow>
      ld b a n = Inr (Some (map (\<lambda>i. byte b (a + of_nat i)) [0..<unat n]))"
    and st_covered: "ok b \<Longrightarrow> covered b a n \<Longrightarrow> unat n \<le> length bs \<Longrightarrow>
      \<exists>b'. st b a bs n = Inr (Some b') \<and> ok b' \<and> covered b' = covered b
        \<and> byte b' = (\<lambda>x. if in_area a n x then bs ! unat (x - a) else byte b x)"
begin

lemma st_SomeD:
  assumes "ok b" and "covered b a n" and "unat n \<le> length bs" and "st b a bs n = Inr (Some b')"
  shows "ok b'" and "covered b' = covered b"
    and "byte b' = (\<lambda>x. if in_area a n x then bs ! unat (x - a) else byte b x)"
  using st_covered [OF assms(1-3)] assms(4) by auto

lemma ld_st_same:
  assumes "ok b" and "covered b a n" and "unat n \<le> length bs" and "st b a bs n = Inr (Some b')"
  shows "ld b' a n = Inr (Some (take (unat n) bs))"
proof -
  note b' = st_SomeD [OF assms]
  have "byte b' (a + of_nat i) = bs ! i" if "i < unat n" for i
    using that by (simp add: b'(3) in_area_def unat_of_nat_small)
  then have "map (\<lambda>i. byte b' (a + of_nat i)) [0..<unat n] = take (unat n) bs"
    using assms(3) by (intro nth_equalityI) auto
  then show ?thesis using ld_covered [OF b'(1)] assms(2) by (simp add: b'(2))
qed

lemma ld_st_other:
  assumes "ok b" and "covered b a n" and "unat n \<le> length bs" and "st b a bs n = Inr (Some b')"
    and "covered b x k" and apart: "\<And>i. i < unat k \<Longrightarrow> \<not> in_area a n (x + of_nat i)"
  shows "ld b' x k = ld b x k"
proof -
  note b' = st_SomeD [OF assms(1-4)]
  have "map (\<lambda>i. byte b' (x + of_nat i)) [0..<unat k] = map (\<lambda>i. byte b (x + of_nat i)) [0..<unat k]"
    using apart by (simp add: b'(3))
  then show ?thesis
    using ld_covered [OF b'(1)] ld_covered [OF assms(1,5)] assms(5) by (simp add: b'(2))
qed

end

end
