(* ===== verification/ISA_Spec.thy ===== *)
theory ISA_Spec
  imports Instruction_Set Byte_Memory
begin

text \<open>
  The abstract specification: the RV32IM instructions as the RISC-V manual gives them, over register
  values, independent of the decoder and of the handlers. An instruction is named by its handler class;
  its meaning is an effect on the machine.
\<close>

section \<open>The fields of an instruction word\<close>

definition field :: "nat \<Rightarrow> nat \<Rightarrow> u32 \<Rightarrow> u32" where
  "field pos len w = take_bit len (drop_bit pos w)"

definition place :: "nat \<Rightarrow> nat \<Rightarrow> nat \<Rightarrow> u32 \<Rightarrow> u32" where
  "place to pos len w = push_bit to (field pos len w)"

definition rd :: "u32 \<Rightarrow> register_no" where
  "rd w = ucast (field 7 5 w)"

definition rs1 :: "u32 \<Rightarrow> register_no" where
  "rs1 w = ucast (field 15 5 w)"

definition rs2 :: "u32 \<Rightarrow> register_no" where
  "rs2 w = ucast (field 20 5 w)"

definition imm_I :: "u32 \<Rightarrow> u32" where
  "imm_I w = signed_drop_bit 20 w"

definition imm_S :: "u32 \<Rightarrow> u32" where
  "imm_S w = push_bit 5 (signed_drop_bit 25 w) OR place 0 7 5 w"

definition imm_B :: "u32 \<Rightarrow> u32" where
  "imm_B w = push_bit 12 (signed_drop_bit 31 w) OR place 11 7 1 w
     OR place 5 25 6 w OR place 1 8 4 w"

definition imm_U :: "u32 \<Rightarrow> u32" where
  "imm_U w = place 12 12 20 w"

definition imm_J :: "u32 \<Rightarrow> u32" where
  "imm_J w = push_bit 20 (signed_drop_bit 31 w) OR place 12 12 8 w
     OR place 11 20 1 w OR place 1 21 10 w"

definition shamt :: "u32 \<Rightarrow> nat" where
  "shamt w = unat (field 20 5 w)"

lemma bit_field: "bit (field pos len w) n \<longleftrightarrow> n < len \<and> bit w (pos + n)"
  by (auto simp: field_def bit_simps)

lemma bit_place: "bit (place to pos len w) n \<longleftrightarrow> n < 32 \<and> to \<le> n \<and> n - to < len \<and> bit w (pos + (n - to))"
  by (auto simp: place_def bit_simps bit_field)

lemmas isa_fields = rd_def rs1_def rs2_def imm_I_def imm_S_def imm_B_def imm_U_def imm_J_def

lemma reg_fields: "get_rd w = rd w" "get_rs1 w = rs1 w" "get_rs2 w = rs2 w"
  by (auto simp: bit_eq_iff isa_fields bit_simps bit_field field_simps_bits decoder_defs)

lemma imm_fields:
  "decode_i w = imm_I w" "decode_s w = imm_S w" "decode_b w = imm_B w" "decode_u w = imm_U w"
  "decode_j w = imm_J w"
  by (simp_all add: bits32 bit_field bit_place isa_fields Let_def)

lemmas decoder_fields = reg_fields imm_fields

lemma field_5_small: "unat (field pos 5 w) < 32"
  using take_bit_nat_less_exp [of 5] by (simp add: field_def unsigned_take_bit_eq)

lemma reg_field_small: "rd w < 32" "rs1 w < 32" "rs2 w < 32"
proof -
  have "unat (ucast (field pos 5 w) :: register_no) < 32" for pos
    using field_5_small [of pos w] by (simp add: unsigned_ucast_eq take_bit_nat_eq_self)
  then show "rd w < 32" "rs1 w < 32" "rs2 w < 32" by (simp_all add: isa_fields word_less_nat_alt)
qed

lemma shift_imm_data_shamt: "unat (shift_imm_data w) = shamt w"
proof -
  have "shift_imm_data w = field 20 5 w" by (simp add: bits32 bit_field shift_imm_data_def)
  then show ?thesis by (simp add: shamt_def)
qed

lemma shamt_small: "shamt w < 32"
  by (simp add: shamt_def field_5_small)

section \<open>The effects of the instructions\<close>

datatype effect =
    Set_Reg register_no register_t
  | Load_To register_no address_t nat bool  \<comment> \<open>address, number of bytes, sign extension\<close>
  | Store_At address_t nat register_t
  | Branch_If bool offset_t
  | Jump_By register_no register_t offset_t  \<comment> \<open>the link register and its value\<close>
  | Jump_At register_no register_t address_t
  | No_Effect
  | System

definition truth :: "bool \<Rightarrow> register_t" where
  "truth b = of_bool b"

text \<open>\<open>x\<close> are the register values (0 for register 0), \<open>pc\<close> the address of the instruction \<open>w\<close>.\<close>

fun isa_effect :: "HandlerClass \<Rightarrow> u32 \<Rightarrow> (register_no \<Rightarrow> register_t) \<Rightarrow> register_t \<Rightarrow> effect" where
  "isa_effect C_lui w x pc = Set_Reg (rd w) (imm_U w)"
| "isa_effect C_auipc w x pc = Set_Reg (rd w) (pc + imm_U w)"
| "isa_effect C_jal w x pc = Jump_By (rd w) (pc + 4) (imm_J w)"
| "isa_effect C_jalr w x pc = Jump_At (rd w) (pc + 4) ((x (rs1 w) + imm_I w) AND NOT 1)"
| "isa_effect C_beq w x pc = Branch_If (x (rs1 w) = x (rs2 w)) (imm_B w)"
| "isa_effect C_bne w x pc = Branch_If (x (rs1 w) \<noteq> x (rs2 w)) (imm_B w)"
| "isa_effect C_blt w x pc = Branch_If (x (rs1 w) <s x (rs2 w)) (imm_B w)"
| "isa_effect C_bge w x pc = Branch_If (x (rs2 w) \<le>s x (rs1 w)) (imm_B w)"
| "isa_effect C_bltu w x pc = Branch_If (x (rs1 w) < x (rs2 w)) (imm_B w)"
| "isa_effect C_bgeu w x pc = Branch_If (x (rs2 w) \<le> x (rs1 w)) (imm_B w)"
| "isa_effect C_lb w x pc = Load_To (rd w) (x (rs1 w) + imm_I w) 1 True"
| "isa_effect C_lh w x pc = Load_To (rd w) (x (rs1 w) + imm_I w) 2 True"
| "isa_effect C_lw w x pc = Load_To (rd w) (x (rs1 w) + imm_I w) 4 True"
| "isa_effect C_lbu w x pc = Load_To (rd w) (x (rs1 w) + imm_I w) 1 False"
| "isa_effect C_lhu w x pc = Load_To (rd w) (x (rs1 w) + imm_I w) 2 False"
| "isa_effect C_sb w x pc = Store_At (x (rs1 w) + imm_S w) 1 (x (rs2 w))"
| "isa_effect C_sh w x pc = Store_At (x (rs1 w) + imm_S w) 2 (x (rs2 w))"
| "isa_effect C_sw w x pc = Store_At (x (rs1 w) + imm_S w) 4 (x (rs2 w))"
| "isa_effect C_addi w x pc = Set_Reg (rd w) (x (rs1 w) + imm_I w)"
| "isa_effect C_slti w x pc = Set_Reg (rd w) (truth (x (rs1 w) <s imm_I w))"
| "isa_effect C_sltiu w x pc = Set_Reg (rd w) (truth (x (rs1 w) < imm_I w))"
| "isa_effect C_xori w x pc = Set_Reg (rd w) (x (rs1 w) XOR imm_I w)"
| "isa_effect C_ori w x pc = Set_Reg (rd w) (x (rs1 w) OR imm_I w)"
| "isa_effect C_andi w x pc = Set_Reg (rd w) (x (rs1 w) AND imm_I w)"
| "isa_effect C_slli w x pc = Set_Reg (rd w) (push_bit (shamt w) (x (rs1 w)))"
| "isa_effect C_srli w x pc = Set_Reg (rd w) (drop_bit (shamt w) (x (rs1 w)))"
| "isa_effect C_srai w x pc = Set_Reg (rd w) (signed_drop_bit (shamt w) (x (rs1 w)))"
| "isa_effect C_add_r w x pc = Set_Reg (rd w) (x (rs1 w) + x (rs2 w))"
| "isa_effect C_sub_r w x pc = Set_Reg (rd w) (x (rs1 w) - x (rs2 w))"
| "isa_effect C_sll_r w x pc = Set_Reg (rd w) (push_bit (unat (x (rs2 w)) mod 32) (x (rs1 w)))"
| "isa_effect C_slt_r w x pc = Set_Reg (rd w) (truth (x (rs1 w) <s x (rs2 w)))"
| "isa_effect C_sltu_r w x pc = Set_Reg (rd w) (truth (x (rs1 w) < x (rs2 w)))"
| "isa_effect C_xor_r w x pc = Set_Reg (rd w) (x (rs1 w) XOR x (rs2 w))"
| "isa_effect C_srl_r w x pc = Set_Reg (rd w) (drop_bit (unat (x (rs2 w)) mod 32) (x (rs1 w)))"
| "isa_effect C_sra_r w x pc = Set_Reg (rd w) (signed_drop_bit (unat (x (rs2 w)) mod 32) (x (rs1 w)))"
| "isa_effect C_or_r w x pc = Set_Reg (rd w) (x (rs1 w) OR x (rs2 w))"
| "isa_effect C_and_r w x pc = Set_Reg (rd w) (x (rs1 w) AND x (rs2 w))"
| "isa_effect C_mul w x pc = Set_Reg (rd w) (x (rs1 w) * x (rs2 w))"
| "isa_effect C_mulh w x pc = Set_Reg (rd w) (word_of_int ((sint (x (rs1 w)) * sint (x (rs2 w))) div 2 ^ 32))"
| "isa_effect C_mulhsu w x pc = Set_Reg (rd w) (word_of_int ((sint (x (rs1 w)) * uint (x (rs2 w))) div 2 ^ 32))"
| "isa_effect C_mulhu w x pc = Set_Reg (rd w) (word_of_int ((uint (x (rs1 w)) * uint (x (rs2 w))) div 2 ^ 32))"
| "isa_effect C_div_m w x pc = Set_Reg (rd w)
     (if x (rs2 w) = 0 then - 1 else word_of_int (sint (x (rs1 w)) sdiv sint (x (rs2 w))))"
| "isa_effect C_divu w x pc = Set_Reg (rd w) (if x (rs2 w) = 0 then - 1 else x (rs1 w) div x (rs2 w))"
| "isa_effect C_rem w x pc = Set_Reg (rd w)
     (if x (rs2 w) = 0 then x (rs1 w) else word_of_int (sint (x (rs1 w)) smod sint (x (rs2 w))))"
| "isa_effect C_remu w x pc = Set_Reg (rd w) (if x (rs2 w) = 0 then x (rs1 w) else x (rs1 w) mod x (rs2 w))"
| "isa_effect C_fence w x pc = No_Effect"
| "isa_effect C_fence_i w x pc = No_Effect"
| "isa_effect C_env_call w x pc = System"
| "isa_effect C_csrrw w x pc = System"
| "isa_effect C_csrrs w x pc = System"
| "isa_effect C_csrrc w x pc = System"
| "isa_effect C_csrrwi w x pc = System"
| "isa_effect C_csrrsi w x pc = System"
| "isa_effect C_csrrci w x pc = System"

text \<open>
  Where the C++ code computes the specified value: register shifts by less than 32, and products that
  fit in a signed 32-bit integer. Elsewhere its behaviour is undefined.
\<close>

definition cxx_defined :: "HandlerClass \<Rightarrow> u32 \<Rightarrow> (register_no \<Rightarrow> register_t) \<Rightarrow> bool" where
  "cxx_defined c w x \<longleftrightarrow>
     (c \<in> {C_sll_r, C_srl_r, C_sra_r} \<longrightarrow> unat (x (rs2 w)) < 32)
     \<and> (c = C_mul \<longrightarrow> - (2 ^ 31) \<le> sint (x (rs1 w)) * sint (x (rs2 w))
          \<and> sint (x (rs1 w)) * sint (x (rs2 w)) < 2 ^ 31)"

section \<open>Effects on a machine interface\<close>

fun perform :: "'m MachineInterface \<Rightarrow> effect \<Rightarrow> ('m, unit) action" where
  "perform vm (Set_Reg r v) = mi_set_register vm r v"
| "perform vm (Load_To r a n sext) =
     andThen (mi_read_memory vm a (of_nat n) 0) (\<lambda>v.
     mi_set_register vm r (if sext then signed_take_bit (8 * n - 1) v else v))"
| "perform vm (Store_At a n v) = mi_write_memory vm a (of_nat n) v"
| "perform vm (Branch_If b offs) = mi_jump_if vm b offs"
| "perform vm (Jump_By r link offs) = andThen (mi_set_register vm r link) (\<lambda>_. mi_jump_to vm offs)"
| "perform vm (Jump_At r link dest) = andThen (mi_set_register vm r link) (\<lambda>_. mi_jump_abs vm dest)"
| "perform vm No_Effect = mi_barrier vm"
| "perform vm System = ret ()"

section \<open>The abstract machine\<close>

record arch =
  arch_x :: "register_no \<Rightarrow> register_t"
  arch_pc :: register_t
  arch_mem :: "address_t \<Rightarrow> u8"
  arch_mapped :: "address_t \<Rightarrow> u32 \<Rightarrow> bool"

datatype trap = Bad_Jump | Bad_Access

definition arch_write :: "register_no \<Rightarrow> register_t \<Rightarrow> arch \<Rightarrow> arch" where
  "arch_write r v a = (if r = 0 then a else a\<lparr>arch_x := (arch_x a)(r := v)\<rparr>)"

definition arch_at :: "register_t \<Rightarrow> arch \<Rightarrow> trap option \<times> arch" where
  "arch_at dest a = (if arch_mapped a dest 4 then (None, a\<lparr>arch_pc := dest\<rparr>) else (Some Bad_Jump, a))"

definition arch_next :: "arch \<Rightarrow> trap option \<times> arch" where
  "arch_next a = arch_at (arch_pc a + 4) a"

definition arch_goto :: "register_t \<Rightarrow> arch \<Rightarrow> trap option \<times> arch" where
  "arch_goto dest a = (if dest mod 4 = 0 then arch_at dest a else (Some Bad_Jump, a))"

definition arch_bytes :: "address_t \<Rightarrow> nat \<Rightarrow> arch \<Rightarrow> u8 list" where
  "arch_bytes ad n a = map (\<lambda>i. arch_mem a (ad + of_nat i)) [0..<n]"

definition arch_access :: "address_t \<Rightarrow> nat \<Rightarrow> arch \<Rightarrow> bool" where
  "arch_access ad n a \<longleftrightarrow> ad mod of_nat n = 0 \<and> arch_mapped a ad (of_nat n)"

definition arch_load :: "address_t \<Rightarrow> nat \<Rightarrow> arch \<Rightarrow> register_t" where
  "arch_load ad n a = le_word (arch_bytes ad n a)"

definition arch_store :: "address_t \<Rightarrow> nat \<Rightarrow> register_t \<Rightarrow> arch \<Rightarrow> arch" where
  "arch_store ad n v a = a\<lparr>arch_mem :=
     (\<lambda>y. if in_area ad (of_nat n) y then le_bytes 4 v ! unat (y - ad) else arch_mem a y)\<rparr>"

fun arch_perform :: "effect \<Rightarrow> arch \<Rightarrow> trap option \<times> arch" where
  "arch_perform (Set_Reg r v) a = (None, arch_write r v a)"
| "arch_perform (Load_To r ad n sext) a =
     (if arch_access ad n a
      then (None, arch_write r
             (if sext then signed_take_bit (8 * n - 1) (arch_load ad n a) else arch_load ad n a) a)
      else (Some Bad_Access, a))"
| "arch_perform (Store_At ad n v) a =
     (if arch_access ad n a then (None, arch_store ad n v a) else (Some Bad_Access, a))"
| "arch_perform (Branch_If b offs) a = (if b then arch_goto (arch_pc a + offs) a else arch_next a)"
| "arch_perform (Jump_By r link offs) a = arch_goto (arch_pc a + offs) (arch_write r link a)"
| "arch_perform (Jump_At r link dest) a = arch_goto dest (arch_write r link a)"
| "arch_perform No_Effect a = (None, a)"
| "arch_perform System a = (None, a)"

text \<open>Effects that do not themselves set the program counter.\<close>

fun advances :: "effect \<Rightarrow> bool" where
  "advances (Branch_If b offs) \<longleftrightarrow> False"
| "advances (Jump_By r link offs) \<longleftrightarrow> False"
| "advances (Jump_At r link dest) \<longleftrightarrow> False"
| "advances _ \<longleftrightarrow> True"

text \<open>One instruction: its effect, then the next address unless the effect was a jump or a branch.\<close>

definition arch_step :: "effect \<Rightarrow> arch \<Rightarrow> trap option \<times> arch" where
  "arch_step eff a =
     (case arch_perform eff a of
        (Some t, a') \<Rightarrow> (Some t, a')
      | (None, a') \<Rightarrow> if advances eff then arch_next a' else (None, a'))"

end
