(* ===== verification/Handler_Effects.thy ===== *)
theory Handler_Effects
  imports ISA_Spec
begin

text \<open>
  Every handler has the effect the specification gives its instruction, on any machine that keeps the
  contract of \<open>MachineInterface\<close>: the lemmas are proved once here, from the contract, and hold of
  \<open>basic_vm\<close> by interpretation.
\<close>

section \<open>Sign extension of loaded values\<close>

lemma load_sign:
  fixes v :: register_t
  assumes "take_bit j v = v" and "k < 31" and "j = Suc k" and "len = 31 - k"
  shows "(if v AND make_mask k 1 \<noteq> 0 then make_mask j len OR v else v) = signed_take_bit k v"
proof -
  have top: "\<not> bit v n" if "k < n" for n
    using that assms(1,3) by (metis bit_take_bit_iff not_less_eq)
  have "v AND make_mask k 1 = (if bit v k then push_bit k 1 else 0)"
    by (rule bit_word_eqI) (auto simp: bit_simps field_simps_bits less_Suc_eq)
  moreover have "push_bit k 1 \<noteq> (0 :: register_t)"
  proof
    have "bit (push_bit k 1 :: register_t) k" using assms(2) by (simp add: bit_simps)
    also assume "push_bit k 1 = (0 :: register_t)"
    finally show False by simp
  qed
  ultimately show ?thesis
    using assms(2-4) top by (intro bit_word_eqI)
      (auto simp: bit_simps field_simps_bits min_def le_less)
qed

lemma load_sign_byte:
  "take_bit 8 v = v \<Longrightarrow> (if v AND make_mask 7 (Suc 0) \<noteq> 0 then make_mask 8 24 OR v else v) = signed_take_bit 7 v"
  for v :: register_t
  unfolding One_nat_def [symmetric] by (rule load_sign, assumption) simp_all

lemma load_sign_half:
  "take_bit 16 v = v \<Longrightarrow> (if v AND make_mask 15 (Suc 0) \<noteq> 0 then make_mask 16 16 OR v else v) = signed_take_bit 15 v"
  for v :: register_t
  unfolding One_nat_def [symmetric] by (rule load_sign, assumption) simp_all

lemma sint_eq_iff: "sint a = sint b \<longleftrightarrow> a = b" for a b :: register_t
  by (rule word_eq_iff_signed [symmetric])

lemma word_sext: "signed_take_bit 31 v = v" for v :: register_t
  by (simp add: bits32)

lemma if_ret: "(if b then ret x else ret y) = ret (if b then x else y)"
  by simp

section \<open>The handlers on a machine\<close>

text \<open>
  A machine whose loads give the bytes read and zeros above them.
\<close>

locale loading_machine = register_machine vm good reg rest pc_of
  for vm :: "'m MachineInterface" and good and reg and rest :: "'m \<Rightarrow> 'r" and pc_of +
  assumes read_memory_small: "good m \<Longrightarrow> mi_read_memory vm a n 0 m = (Inr w, m') \<Longrightarrow> take_bit (8 * unat n) w = w"
begin

lemma get_reg_good: "good m \<Longrightarrow> r < 32 \<Longrightarrow> get_reg vm r m = (Inr (reg m r), m)"
  by (simp add: get_reg_def query_def get_register register_count_def)

lemma get_pc_good: "good m \<Longrightarrow> get_pc_value vm m = (Inr (pc_of (rest m)), m)"
  by (simp add: get_pc_value_def query_def get_pc)

lemma andThen_reads:
  "good m \<Longrightarrow> r < 32 \<Longrightarrow> andThen (get_reg vm r) f m = f (reg m r) m"
  "good m \<Longrightarrow> andThen (get_pc_value vm) g m = g (pc_of (rest m)) m"
  by (simp_all add: andThen_def get_reg_good get_pc_good)

lemma andThen_checked:
  "andThen (checked r) f m = (case r of Inl e \<Rightarrow> (Inl e, m) | Inr x \<Rightarrow> f x m)"
  by (simp add: andThen_def checked_def split: sum.splits)

lemmas exec_simps =
  handler_class_defs GenericHandler_def Let_def decoder_fields andThen_reads reg_field_small andThen_checked

lemma exec_effect_plain:
  assumes "good m" and "c \<in> set
     [C_lui, C_auipc, C_jal, C_jalr, C_beq, C_bne, C_blt, C_bge, C_bltu, C_bgeu, C_sb, C_sh, C_sw,
      C_addi, C_slti, C_sltiu, C_xori, C_ori, C_andi, C_add_r, C_sub_r, C_slt_r, C_sltu_r, C_xor_r,
      C_or_r, C_and_r, C_fence, C_fence_i]"
  shows "exec (vtable c) vm w m = perform vm (isa_effect c w (reg m) (pc_of (rest m))) m"
  using assms
  by (auto simp: exec_simps truth_def of_bool_reg_def word_sless_alt word_sle_eq sint_eq_iff
    add.commute split del: if_split)

lemma exec_effect_math:
  assumes "good m" and "c \<in> set rv32m_classes" and "cxx_defined c w (reg m)"
  shows "exec (vtable c) vm w m = perform vm (isa_effect c w (reg m) (pc_of (rest m))) m"
  using assms
  by (auto simp: rv32m_classes_def exec_simps cxx_defined_def mul_calculate_eq mulh_calculate_eq
    mulhsu_calculate_eq mulhu_calculate_eq div_calculate_eq divu_calculate_eq rem_calculate_eq
    remu_calculate_eq split del: if_split)

lemma exec_effect_shift:
  assumes "good m" and "c \<in> set [C_slli, C_srli, C_srai, C_sll_r, C_srl_r, C_sra_r]"
    and "cxx_defined c w (reg m)"
  shows "exec (vtable c) vm w m = perform vm (isa_effect c w (reg m) (pc_of (rest m))) m"
  using assms
  by (auto simp: exec_simps cxx_defined_def shl_def shr_def shift_imm_data_shamt shamt_small
    opcode_extend_sign_shift)

lemma andThen_read_cong:
  assumes "good m" and "\<And>v m'. take_bit (8 * unat n) v = v \<Longrightarrow> f v m' = g v m'"
  shows "andThen (mi_read_memory vm a n 0) f m = andThen (mi_read_memory vm a n 0) g m"
  using assms read_memory_small by (auto simp: andThen_def split: prod.splits sum.splits)

lemma exec_effect_load:
  assumes "good m" and "c \<in> set [C_lb, C_lh, C_lw, C_lbu, C_lhu]"
  shows "exec (vtable c) vm w m = perform vm (isa_effect c w (reg m) (pc_of (rest m))) m"
  using assms
  by (auto simp: exec_simps andThen_assoc if_ret load_sign_byte load_sign_half word_sext
    intro!: andThen_read_cong split del: if_split)

lemma exec_effect:
  assumes "good m" and "isa_effect c w (reg m) (pc_of (rest m)) \<noteq> System" and "cxx_defined c w (reg m)"
  shows "exec (vtable c) vm w m = perform vm (isa_effect c w (reg m) (pc_of (rest m))) m"
proof -
  have "c \<in> set
     [C_lui, C_auipc, C_jal, C_jalr, C_beq, C_bne, C_blt, C_bge, C_bltu, C_bgeu, C_sb, C_sh, C_sw,
      C_addi, C_slti, C_sltiu, C_xori, C_ori, C_andi, C_add_r, C_sub_r, C_slt_r, C_sltu_r, C_xor_r,
      C_or_r, C_and_r, C_fence, C_fence_i]
    \<or> c \<in> set rv32m_classes \<or> c \<in> set [C_slli, C_srli, C_srai, C_sll_r, C_srl_r, C_sra_r]
    \<or> c \<in> set [C_lb, C_lh, C_lw, C_lbu, C_lhu]"
    using assms(2) by (cases c) (simp_all add: rv32m_classes_def)
  with assms show ?thesis
    using exec_effect_plain exec_effect_math exec_effect_shift exec_effect_load by blast
qed

end
end
