(* ===== verification/Memory.thy ===== *)
theory Memory
  imports Byte_Memory
begin

text \<open>
  vm_memory.hxx / vm_memory.cxx: address ranges, memory blocks and the memory management unit.
  Addresses and sizes are 32 bits wide and their arithmetic wraps.
\<close>

type_synonym address_type = u32
type_synonym size_type = u32

section \<open>Address ranges\<close>

record params =
  block_start :: address_type
  block_size :: size_type

definition params_less :: "'a params_scheme \<Rightarrow> 'a params_scheme \<Rightarrow> bool" where
  "params_less lhs rhs \<longleftrightarrow> block_start lhs < block_start rhs"

text \<open>The order of the keys of the map of blocks: two ranges with the same start are the same key.\<close>

instantiation params_ext :: (type) preorder
begin

definition less_eq_params_ext :: "'a params_scheme \<Rightarrow> 'a params_scheme \<Rightarrow> bool" where
  "less_eq_params_ext lhs rhs \<longleftrightarrow> \<not> params_less rhs lhs"

definition less_params_ext :: "'a params_scheme \<Rightarrow> 'a params_scheme \<Rightarrow> bool" where
  "less_params_ext lhs rhs \<longleftrightarrow> params_less lhs rhs"

instance
  by standard (auto simp: less_eq_params_ext_def less_params_ext_def params_less_def)

end

definition offset :: "params \<Rightarrow> address_type \<Rightarrow> address_type" where
  "offset p address = address - block_start p"

definition in_range_at :: "params \<Rightarrow> address_type \<Rightarrow> bool" where
  "in_range_at p address \<longleftrightarrow> address \<ge> block_start p \<and> address - block_start p < block_size p"

definition in_range :: "params \<Rightarrow> address_type \<Rightarrow> size_type \<Rightarrow> bool" where
  "in_range p address sz =
     (if in_range_at p address
      then let start = offset p address in start + sz \<le> block_size p
      else False)"

definition is_overlap_at :: "params \<Rightarrow> address_type \<Rightarrow> size_type \<Rightarrow> bool" where
  "is_overlap_at p address sz =
     (if address < block_start p
      then let stop = address + sz in stop \<ge> block_start p
      else in_range_at p address)"

definition is_overlap :: "params \<Rightarrow> params \<Rightarrow> bool" where
  "is_overlap p other = is_overlap_at p (block_start other) (block_size other)"

section \<open>Memory blocks\<close>

text \<open>
  \<open>generic_memory\<close>, the implementation of \<open>memory_block\<close> the library has: a range and its bytes.
  Copying past the end of the vector is undefined behaviour; \<open>None\<close> is the result \<open>false\<close> (or a null
  pointer).
\<close>

record memory_block =
  block_params :: params
  block_data :: "u8 list"

definition generic_memory :: "address_type \<Rightarrow> size_type \<Rightarrow> memory_block" where
  "generic_memory address sz =
     \<lparr>block_params = \<lparr>block_start = address, block_size = sz\<rparr>,
      block_data = replicate (unat sz) 0\<rparr>"

definition block_load :: "memory_block \<Rightarrow> address_type \<Rightarrow> size_type \<Rightarrow> exn + u8 list option" where
  "block_load b address sz =
     (if \<not> in_range (block_params b) address sz then Inr None
      else let start_offset = unat (offset (block_params b) address)
           in if start_offset + unat sz \<le> length (block_data b)
              then Inr (Some (take (unat sz) (drop start_offset (block_data b))))
              else Inl (undefined Out_Of_Bounds))"

text \<open>\<open>source\<close> holds the \<open>sz\<close> bytes to copy, or more.\<close>

definition block_store ::
  "memory_block \<Rightarrow> address_type \<Rightarrow> u8 list \<Rightarrow> size_type \<Rightarrow> exn + memory_block option" where
  "block_store b address source sz =
     (if \<not> in_range (block_params b) address sz then Inr None
      else let start_offset = unat (offset (block_params b) address); n = unat sz
           in if start_offset + n \<le> length (block_data b) \<and> n \<le> length source
              then Inr (Some (b\<lparr>block_data := take start_offset (block_data b) @ take n source
                                 @ drop (start_offset + n) (block_data b)\<rparr>))
              else Inl (undefined Out_Of_Bounds))"

text \<open>\<open>get_ro\<close> / \<open>get_rw\<close>: a pointer into the vector is the rest of the vector from there on.\<close>

definition get_ro :: "memory_block \<Rightarrow> address_type \<Rightarrow> size_type \<Rightarrow> u8 list option" where
  "get_ro b address sz =
     (if \<not> in_range (block_params b) address sz then None
      else Some (drop (unat (offset (block_params b) address)) (block_data b)))"

definition get_rw :: "memory_block \<Rightarrow> address_type \<Rightarrow> size_type \<Rightarrow> u8 list option" where
  "get_rw b address sz =
     (if \<not> in_range (block_params b) address sz then None
      else Some (drop (unat (offset (block_params b) address)) (block_data b)))"

text \<open>Reading a 32-bit object through such a pointer.\<close>

definition deref_u32 :: "u8 list \<Rightarrow> exn + u32" where
  "deref_u32 ptr = (if length ptr \<ge> 4 then Inr (le_word (take 4 ptr)) else Inl (undefined Out_Of_Bounds))"

section \<open>The memory management unit\<close>

text \<open>
  \<open>std::map<params, ptr>\<close> in the order of its keys: blocks by their start address. The key of an entry
  is the \<open>params\<close> of its block, so the blocks alone are kept. A pointer to a block of the unit is
  the block; what is stored through it is written back under its start address.
\<close>

type_synonym memory_management_unit = "memory_block list"

definition start_of :: "memory_block \<Rightarrow> address_type" where
  "start_of b = block_start (block_params b)"

fun try_emplace :: "memory_block \<Rightarrow> memory_management_unit \<Rightarrow> bool \<times> memory_management_unit" where
  "try_emplace b [] = (True, [b])"
| "try_emplace b (x # xs) =
     (if block_params b < block_params x then (True, b # x # xs)
      else if block_params x < block_params b
           then (case try_emplace b xs of (ok, ys) \<Rightarrow> (ok, x # ys))
           else (False, x # xs))"

definition add_block :: "memory_block \<Rightarrow> memory_management_unit \<Rightarrow> bool \<times> memory_management_unit" where
  "add_block b mem =
     (if block_size (block_params b) = 0 then (False, mem)
      else if list_ex (\<lambda>x. is_overlap (block_params x) (block_params b)) mem then (False, mem)
      else try_emplace b mem)"

definition find_block :: "memory_management_unit \<Rightarrow> address_type \<Rightarrow> size_type \<Rightarrow> memory_block option" where
  "find_block mem address sz = find (\<lambda>b. in_range (block_params b) address sz) mem"

definition put_block :: "memory_block \<Rightarrow> memory_management_unit \<Rightarrow> memory_management_unit" where
  "put_block b mem = map (\<lambda>x. if start_of x = start_of b then b else x) mem"

section \<open>Ranges as natural numbers\<close>

definition lo :: "params \<Rightarrow> nat" where
  "lo p = unat (block_start p)"

definition hi :: "params \<Rightarrow> nat" where
  "hi p = unat (block_start p) + unat (block_size p)"

lemma in_range_at_iff: "in_range_at p a \<longleftrightarrow> lo p \<le> unat a \<and> unat a < hi p"
proof (cases "block_start p \<le> a")
  case True
  then have "unat (a - block_start p) = unat a - unat (block_start p)" by (rule unat_sub)
  with True show ?thesis by (auto simp: in_range_at_def lo_def hi_def word_le_nat_alt word_less_nat_alt)
next
  case False
  then show ?thesis by (simp add: in_range_at_def lo_def word_le_nat_alt)
qed

lemma unat_offset: "in_range_at p a \<Longrightarrow> unat (offset p a) = unat a - lo p"
  by (simp add: offset_def lo_def in_range_at_def unat_sub)

text \<open>
  The exact meaning of \<open>in_range(address, size)\<close> when the sum in it does not wrap: the bytes
  lie in the block.
\<close>

definition within :: "params \<Rightarrow> address_type \<Rightarrow> size_type \<Rightarrow> bool" where
  "within p a n \<longleftrightarrow> in_range_at p a \<and> unat a + unat n \<le> hi p"

lemma in_range_within:
  assumes "unat (block_size p) + unat n \<le> 2 ^ 32"
  shows "in_range p a n \<longleftrightarrow> within p a n"
proof (cases "in_range_at p a")
  case True
  then have l: "lo p \<le> unat a" "unat a < hi p" by (simp_all add: in_range_at_iff)
  then have "unat (offset p a) + unat n < 2 ^ LENGTH(32)"
    using assms True by (simp add: unat_offset lo_def hi_def)
  then have "unat (offset p a + n) = unat a - lo p + unat n"
    using True by (simp add: unat_add_lem [THEN iffD1] unat_offset)
  then show ?thesis
    using True l by (auto simp: in_range_def within_def word_le_nat_alt lo_def hi_def)
next
  case False
  then show ?thesis by (simp add: in_range_def within_def)
qed

lemma within_in_range:
  assumes "within p a n"
  shows "in_range p a n"
proof -
  from assms have at: "in_range_at p a" and le: "unat a + unat n \<le> hi p" by (auto simp: within_def)
  from at have "lo p \<le> unat a" by (simp add: in_range_at_iff)
  with le have "unat (offset p a) + unat n \<le> unat (block_size p)"
    using at by (simp add: unat_offset lo_def hi_def)
  moreover have "unat (block_size p) < 2 ^ LENGTH(32)" by (rule unsigned_less)
  ultimately have "unat (offset p a + n) = unat (offset p a) + unat n"
    by (intro unat_add_lem [THEN iffD1]) linarith
  moreover note \<open>unat (offset p a) + unat n \<le> unat (block_size p)\<close>
  ultimately show ?thesis using at by (simp add: in_range_def word_le_nat_alt)
qed

definition block_ok :: "memory_block \<Rightarrow> bool" where
  "block_ok b \<longleftrightarrow> block_size (block_params b) \<noteq> 0
     \<and> length (block_data b) = unat (block_size (block_params b))"

definition covers :: "memory_block \<Rightarrow> address_type \<Rightarrow> size_type \<Rightarrow> bool" where
  "covers b a n = within (block_params b) a n"

definition block_byte :: "memory_block \<Rightarrow> address_type \<Rightarrow> u8" where
  "block_byte b a =
     (let i = unat (offset (block_params b) a)
      in if i < length (block_data b) then block_data b ! i else 0)"

lemma covered_offsets:
  assumes "covers b a n" and "block_ok b"
  shows "unat (offset (block_params b) a) + unat n \<le> length (block_data b)"
    and "i < unat n \<Longrightarrow> unat (offset (block_params b) (a + of_nat i)) = unat (offset (block_params b) a) + i"
proof -
  from assms(1) have at: "in_range_at (block_params b) a" and le: "unat a + unat n \<le> hi (block_params b)"
    by (auto simp: covers_def within_def)
  then have "lo (block_params b) \<le> unat a" by (simp add: in_range_at_iff)
  with at le assms(2) show len: "unat (offset (block_params b) a) + unat n \<le> length (block_data b)"
    by (simp add: unat_offset hi_def lo_def block_ok_def)
  assume i: "i < unat n"
  have "unat (block_size (block_params b)) < 2 ^ LENGTH(32)" by (rule unsigned_less)
  with i len assms(2) have "unat (offset (block_params b) a) + unat (of_nat i :: u32) < 2 ^ LENGTH(32)"
    by (simp add: unat_of_nat_small block_ok_def)
  then have "unat (offset (block_params b) a + of_nat i) = unat (offset (block_params b) a) + i"
    using i by (simp add: unat_add_lem [THEN iffD1] unat_of_nat_small)
  then show "unat (offset (block_params b) (a + of_nat i)) = unat (offset (block_params b) a) + i"
    by (simp add: offset_def algebra_simps)
qed

lemma block_load_covered:
  assumes "block_ok b" and "covers b a n"
  shows "block_load b a n = Inr (Some (map (\<lambda>i. block_byte b (a + of_nat i)) [0..<unat n]))"
proof -
  let ?o = "unat (offset (block_params b) a)"
  note off = covered_offsets [OF assms(2,1)]
  have "in_range (block_params b) a n" using assms(2) by (simp add: covers_def within_in_range)
  then have "block_load b a n = Inr (Some (take (unat n) (drop ?o (block_data b))))"
    using off(1) by (simp add: block_load_def Let_def)
  moreover have "block_byte b (a + of_nat i) = block_data b ! (?o + i)" if "i < unat n" for i
    using that off by (simp add: block_byte_def Let_def)
  then have "take (unat n) (drop ?o (block_data b)) = map (\<lambda>i. block_byte b (a + of_nat i)) [0..<unat n]"
    using off(1) by (intro nth_equalityI) auto
  ultimately show ?thesis by simp
qed

lemma nth_splice:
  assumes "k + n \<le> length xs" and "n \<le> length ys" and "i < length xs"
  shows "(take k xs @ take n ys @ drop (k + n) xs) ! i = (if k \<le> i \<and> i < k + n then ys ! (i - k) else xs ! i)"
  using assms by (auto simp: nth_append min_def)

lemma block_byte_update:
  "block_byte (b\<lparr>block_data := d\<rparr>) x =
     (if unat (offset (block_params b) x) < length d then d ! unat (offset (block_params b) x) else 0)"
  by (simp add: block_byte_def Let_def)

lemma block_ok_update:
  "block_ok (b\<lparr>block_data := d\<rparr>) \<longleftrightarrow>
     block_size (block_params b) \<noteq> 0 \<and> length d = unat (block_size (block_params b))"
  by (simp add: block_ok_def)

lemma block_store_covered:
  assumes "block_ok b" and "covers b a n" and "unat n \<le> length bs"
  shows "\<exists>b'. block_store b a bs n = Inr (Some b') \<and> block_params b' = block_params b \<and> block_ok b'
    \<and> block_byte b' = (\<lambda>x. if in_area a n x then bs ! unat (x - a) else block_byte b x)"
proof -
  let ?o = "unat (offset (block_params b) a)"
  let ?d = "take ?o (block_data b) @ take (unat n) bs @ drop (?o + unat n) (block_data b)"
  note off = covered_offsets [OF assms(2,1)]
  have "in_range (block_params b) a n" using assms(2) by (simp add: covers_def within_in_range)
  then have st: "block_store b a bs n = Inr (Some (b\<lparr>block_data := ?d\<rparr>))"
    using off(1) assms(3) by (simp add: block_store_def Let_def)
  have len: "length ?d = length (block_data b)" using off(1) assms(3) by simp
  have bb: "block_byte (b\<lparr>block_data := ?d\<rparr>) x =
      (if unat (offset (block_params b) x) < length (block_data b)
       then ?d ! unat (offset (block_params b) x) else 0)" for x
    by (subst block_byte_update) (simp only: len)
  have "block_byte (b\<lparr>block_data := ?d\<rparr>) x
      = (if in_area a n x then bs ! unat (x - a) else block_byte b x)" for x
  proof (cases "in_area a n x")
    case True
    then have x: "x = a + of_nat (unat (x - a))" and i: "unat (x - a) < unat n"
      by (simp_all add: in_area_def)
    have ox: "unat (offset (block_params b) x) = ?o + unat (x - a)"
      using off(2) [OF i] x by simp
    moreover have "?o + unat (x - a) < length (block_data b)" using i off(1) by simp
    ultimately have "block_byte (b\<lparr>block_data := ?d\<rparr>) x = ?d ! (?o + unat (x - a))"
      unfolding bb by (simp only: if_True)
    also have "\<dots> = bs ! unat (x - a)"
      using nth_splice [OF off(1) assms(3), of "?o + unat (x - a)"] i off(1) by simp
    finally show ?thesis using True by simp
  next
    case False
    let ?j = "unat (offset (block_params b) x)"
    have nj: "\<not> (?o \<le> ?j \<and> ?j < ?o + unat n)"
    proof
      assume j: "?o \<le> ?j \<and> ?j < ?o + unat n"
      have "unat (x - a) = unat (offset (block_params b) x - offset (block_params b) a)"
        by (simp add: offset_def)
      also have "\<dots> = ?j - ?o" using j by (simp add: unat_sub word_le_nat_alt)
      finally show False using j False by (auto simp: in_area_def)
    qed
    have "?d ! ?j = block_data b ! ?j" if "?j < length (block_data b)"
      unfolding nth_splice [OF off(1) assms(3) that] by (simp only: nj if_False)
    then show ?thesis using False unfolding bb by (simp only: block_byte_def Let_def if_False cong: if_cong)
  qed
  then have "block_byte (b\<lparr>block_data := ?d\<rparr>)
      = (\<lambda>x. if in_area a n x then bs ! unat (x - a) else block_byte b x)" by (rule ext)
  moreover have "block_ok (b\<lparr>block_data := ?d\<rparr>)"
    using assms(1) by (subst block_ok_update) (simp only: len block_ok_def simp_thms)
  moreover have "block_params (b\<lparr>block_data := ?d\<rparr>) = block_params b" by simp
  ultimately show ?thesis using st by blast
qed

interpretation generic_memory: byte_memory block_load block_store block_ok covers block_byte
proof unfold_locales
  fix b a n
  assume "block_ok b" and "covers b a n"
  then show "block_load b a n = Inr (Some (map (\<lambda>i. block_byte b (a + of_nat i)) [0..<unat n]))"
    by (rule block_load_covered)
next
  fix b a n and bs :: "u8 list"
  assume "block_ok b" and "covers b a n" and "unat n \<le> length bs"
  from block_store_covered [OF this]
  show "\<exists>b'. block_store b a bs n = Inr (Some b') \<and> block_ok b' \<and> covers b' = covers b
      \<and> block_byte b' = (\<lambda>x. if in_area a n x then bs ! unat (x - a) else block_byte b x)"
    by (auto simp: covers_def fun_eq_iff)
qed

section \<open>The unit keeps its blocks apart\<close>

text \<open>\<open>x\<close> lies before \<open>y\<close> and they share no address.\<close>

definition before :: "memory_block \<Rightarrow> memory_block \<Rightarrow> bool" where
  "before x y \<longleftrightarrow> hi (block_params x) \<le> lo (block_params y) \<and> lo (block_params x) < lo (block_params y)"

text \<open>
  Blocks end well below the top of the address space: the sums in \<open>in_range\<close> then do not wrap for
  an access of at most 256 bytes, nor do those in \<open>is_overlap\<close>.
\<close>

definition block_fits :: "memory_block \<Rightarrow> bool" where
  "block_fits b \<longleftrightarrow> hi (block_params b) + 256 \<le> 2 ^ 32"

definition mmu_ok :: "memory_management_unit \<Rightarrow> bool" where
  "mmu_ok mem \<longleftrightarrow> sorted_wrt before mem \<and> (\<forall>b \<in> set mem. block_ok b \<and> block_fits b)"

lemma before_start: "before x y \<Longrightarrow> start_of x < start_of y"
  by (simp add: before_def lo_def start_of_def word_less_nat_alt)

lemma start_less: "block_params x < block_params y \<longleftrightarrow> start_of x < start_of y"
  by (simp add: less_params_ext_def params_less_def start_of_def)

lemma try_emplace_new:
  assumes "\<forall>x \<in> set mem. start_of x \<noteq> start_of b"
  shows "fst (try_emplace b mem) \<and> set (snd (try_emplace b mem)) = insert b (set mem)"
  using assms
proof (induction mem)
  case Nil
  then show ?case by simp
next
  case (Cons x xs)
  then have "start_of x < start_of b \<or> start_of b < start_of x" by auto
  with Cons show ?case by (auto simp: start_less split: prod.splits)
qed

lemma try_emplace_refused: "\<not> fst (try_emplace b mem) \<Longrightarrow> snd (try_emplace b mem) = mem"
  by (induction mem) (auto split: if_splits prod.splits)

lemma try_emplace_sorted:
  assumes "sorted_wrt before mem" and "\<forall>x \<in> set mem. before b x \<or> before x b"
  shows "sorted_wrt before (snd (try_emplace b mem))"
  using assms
proof (induction mem)
  case Nil
  then show ?case by simp
next
  case (Cons x xs)
  show ?case
  proof (cases "start_of b < start_of x")
    case True
    have "before b y" if "y \<in> set (x # xs)" for y
    proof -
      have "start_of b < start_of y"
        using that True Cons.prems(1) by (auto dest!: before_start intro: order.strict_trans)
      with Cons.prems(2) that show ?thesis by (blast dest: before_start order.asym)
    qed
    with Cons.prems(1) True show ?thesis by (simp add: start_less)
  next
    case False
    with Cons.prems(2) have bx: "before x b" and less: "start_of x < start_of b"
      by (auto dest: before_start)
    have "\<forall>y \<in> set xs. start_of y \<noteq> start_of b"
      using Cons.prems(2) by (metis before_start list.set_intros(2) less_irrefl)
    then have "set (snd (try_emplace b xs)) = insert b (set xs)" by (simp add: try_emplace_new)
    with Cons less False bx show ?thesis by (auto simp: start_less split: prod.splits)
  qed
qed

text \<open>
  \<open>is_overlap\<close> of a new block that ends below the top of the address space. Ending exactly
  where another block starts counts as an overlap.
\<close>

lemma is_overlap_iff:
  assumes "block_size p \<noteq> 0" and fits: "hi k < 2 ^ 32"
  shows "is_overlap p k \<longleftrightarrow> \<not> (hi k < lo p \<or> hi p \<le> lo k)"
proof (cases "block_start k < block_start p")
  case True
  have "unat (block_start k + block_size k) = hi k"
    using fits by (simp add: hi_def unat_add_lem [THEN iffD1])
  with True show ?thesis
    by (auto simp: is_overlap_def is_overlap_at_def lo_def hi_def word_le_nat_alt word_less_nat_alt)
next
  case False
  then show ?thesis
    by (auto simp: is_overlap_def is_overlap_at_def in_range_at_iff lo_def hi_def word_less_nat_alt)
qed

lemma block_ok_range: "block_ok b \<Longrightarrow> lo (block_params b) < hi (block_params b)"
  by (simp add: block_ok_def lo_def hi_def unat_gt_0)

lemma before_cases:
  assumes "block_ok x" and "block_ok b"
  shows "before b x \<or> before x b \<longleftrightarrow>
    hi (block_params b) \<le> lo (block_params x) \<or> hi (block_params x) \<le> lo (block_params b)"
  using block_ok_range [OF assms(1)] block_ok_range [OF assms(2)] by (auto simp: before_def)

lemma add_block_ok:
  assumes "mmu_ok mem" and "block_ok b" and "block_fits b"
  shows "fst (add_block b mem) \<longleftrightarrow>
      (\<forall>x \<in> set mem. hi (block_params b) < lo (block_params x) \<or> hi (block_params x) \<le> lo (block_params b))"
    and "mmu_ok (snd (add_block b mem))"
    and "set (snd (add_block b mem)) = (if fst (add_block b mem) then insert b (set mem) else set mem)"
proof -
  have ov: "is_overlap (block_params x) (block_params b) \<longleftrightarrow>
      \<not> (hi (block_params b) < lo (block_params x) \<or> hi (block_params x) \<le> lo (block_params b))"
    if "x \<in> set mem" for x
    using that assms by (intro is_overlap_iff) (auto simp: mmu_ok_def block_ok_def block_fits_def)
  have size: "block_size (block_params b) \<noteq> 0" using assms(2) by (simp add: block_ok_def)
  let ?free = "\<forall>x \<in> set mem. hi (block_params b) < lo (block_params x) \<or> hi (block_params x) \<le> lo (block_params b)"
  have add: "add_block b mem = (if ?free then try_emplace b mem else (False, mem))"
    using size ov by (auto simp: add_block_def list_ex_iff)
  have apart: "before b x \<or> before x b" if ?free and "x \<in> set mem" for x
    using that assms(1,2) before_cases [of x b] by (auto simp: mmu_ok_def)
  then have new: "\<forall>x \<in> set mem. start_of x \<noteq> start_of b" if ?free
    using apart that by (metis before_start less_irrefl)
  show "fst (add_block b mem) \<longleftrightarrow> ?free"
    using new try_emplace_new [of mem b] by (auto simp: add)
  show set: "set (snd (add_block b mem)) = (if fst (add_block b mem) then insert b (set mem) else set mem)"
    using new try_emplace_new [of mem b] by (auto simp: add)
  have "sorted_wrt before (snd (add_block b mem))"
    using assms(1) apart try_emplace_sorted [of mem b] by (auto simp: add mmu_ok_def)
  then show "mmu_ok (snd (add_block b mem))"
    using assms set by (auto simp: mmu_ok_def split: if_splits)
qed


section \<open>The unit as byte-addressed storage\<close>

text \<open>What \<open>basic_vm\<close> does for an access: find the block, then read or write through the pointer.\<close>

definition mmu_load :: "memory_management_unit \<Rightarrow> address_type \<Rightarrow> size_type \<Rightarrow> exn + u8 list option" where
  "mmu_load mem a n =
     (case find_block mem a n of None \<Rightarrow> Inr None | Some b \<Rightarrow> block_load b a n)"

definition mmu_store ::
  "memory_management_unit \<Rightarrow> address_type \<Rightarrow> u8 list \<Rightarrow> size_type \<Rightarrow> exn + memory_management_unit option" where
  "mmu_store mem a bs n =
     (case find_block mem a n of
        None \<Rightarrow> Inr None
      | Some b \<Rightarrow> map_sum id (map_option (\<lambda>b'. put_block b' mem)) (block_store b a bs n))"

definition mmu_covers :: "memory_management_unit \<Rightarrow> address_type \<Rightarrow> size_type \<Rightarrow> bool" where
  "mmu_covers mem a n \<longleftrightarrow> (\<exists>b \<in> set mem. covers b a n)"

definition mmu_byte :: "memory_management_unit \<Rightarrow> address_type \<Rightarrow> u8" where
  "mmu_byte mem x =
     (case find (\<lambda>b. in_range_at (block_params b) x) mem of None \<Rightarrow> 0 | Some b \<Rightarrow> block_byte b x)"

lemma sorted_before_apart:
  assumes "sorted_wrt before mem" and "x \<in> set mem" and "y \<in> set mem"
  shows "x = y \<or> before x y \<or> before y x"
  using assms by (induction mem) auto

lemma in_range_at_unique:
  assumes "mmu_ok mem" and "x \<in> set mem" and "y \<in> set mem"
    and "in_range_at (block_params x) a" and "in_range_at (block_params y) a"
  shows "x = y"
proof -
  from assms(1) have "sorted_wrt before mem" by (simp add: mmu_ok_def)
  from sorted_before_apart [OF this assms(2,3)] assms(4,5) show ?thesis
    unfolding before_def in_range_at_iff by linarith
qed

lemma start_of_unique:
  assumes "mmu_ok mem" and "x \<in> set mem" and "y \<in> set mem" and "start_of x = start_of y"
  shows "x = y"
proof -
  from assms(1) have "sorted_wrt before mem" by (simp add: mmu_ok_def)
  from sorted_before_apart [OF this assms(2,3)] assms(4) show ?thesis
    by (metis before_start less_irrefl)
qed

lemma find_unique:
  assumes "b \<in> set xs" and "P b" and "\<And>x. x \<in> set xs \<Longrightarrow> P x \<Longrightarrow> x = b"
  shows "find P xs = Some b"
proof (cases "find P xs")
  case None
  with assms(1,2) show ?thesis by (simp add: find_None_iff)
next
  case (Some y)
  then have "y \<in> set xs \<and> P y" by (auto simp: find_Some_iff)
  with assms(3) Some show ?thesis by simp
qed

lemma covers_in_range: "covers b a n \<Longrightarrow> in_range (block_params b) a n \<and> in_range_at (block_params b) a"
  by (simp add: covers_def within_in_range within_def)

lemma in_range_atD: "in_range p a n \<Longrightarrow> in_range_at p a"
  by (simp add: in_range_def split: if_splits)

lemma find_block_covers:
  assumes "mmu_ok mem" and "b \<in> set mem" and "covers b a n"
  shows "find_block mem a n = Some b"
  unfolding find_block_def
proof (rule find_unique)
  show "in_range (block_params b) a n" using covers_in_range [OF assms(3)] by simp
  fix x
  assume "x \<in> set mem" and "in_range (block_params x) a n"
  then show "x = b"
    using in_range_at_unique [OF assms(1) _ assms(2)] covers_in_range [OF assms(3)] in_range_atD by blast
qed (rule assms(2))

lemma find_block_SomeD:
  assumes "find_block mem a n = Some b"
  shows "b \<in> set mem" and "in_range (block_params b) a n"
  using assms by (auto simp: find_block_def find_Some_iff)

text \<open>Where no sum of a size and an offset wraps, a block is found exactly when it holds all the bytes.\<close>

lemma find_block_iff_wide:
  assumes "mmu_ok mem" and "\<forall>b \<in> set mem. unat (block_size (block_params b)) + unat n \<le> 2 ^ 32"
  shows "find_block mem a n = Some b \<longleftrightarrow> b \<in> set mem \<and> covers b a n"
proof
  assume f: "find_block mem a n = Some b"
  then have "b \<in> set mem" by (rule find_block_SomeD)
  with find_block_SomeD [OF f] assms(2) show "b \<in> set mem \<and> covers b a n"
    by (simp add: covers_def in_range_within)
next
  assume "b \<in> set mem \<and> covers b a n"
  with assms(1) show "find_block mem a n = Some b" by (blast intro: find_block_covers)
qed

lemma find_block_iff:
  assumes "mmu_ok mem" and "unat n \<le> 256"
  shows "find_block mem a n = Some b \<longleftrightarrow> b \<in> set mem \<and> covers b a n"
  using assms by (intro find_block_iff_wide) (auto simp: mmu_ok_def block_fits_def hi_def)

lemma find_block_None_iff:
  assumes "mmu_ok mem" and "unat n \<le> 256"
  shows "find_block mem a n = None \<longleftrightarrow> \<not> mmu_covers mem a n"
  using find_block_iff [OF assms] unfolding mmu_covers_def by (metis not_None_eq)

lemma covers_address:
  assumes "block_fits b" and "covers b a n" and "i < unat n"
  shows "in_range_at (block_params b) (a + of_nat i)"
proof -
  from assms have "unat a + i < 2 ^ LENGTH(32)"
    by (auto simp: covers_def within_def block_fits_def)
  moreover have "unat (of_nat i :: u32) = i" using assms(3) by (rule unat_of_nat_small)
  ultimately have "unat (a + of_nat i) = unat a + i" by (simp add: unat_add_lem [THEN iffD1])
  with assms show ?thesis by (auto simp: covers_def within_def in_range_at_iff)
qed

lemma mmu_byte_block:
  assumes "mmu_ok mem" and "b \<in> set mem" and "in_range_at (block_params b) x"
  shows "mmu_byte mem x = block_byte b x"
proof -
  have "find (\<lambda>b. in_range_at (block_params b) x) mem = Some b"
    using assms(2,3) in_range_at_unique [OF assms(1) _ assms(2) _ assms(3)] by (rule find_unique) blast
  then show ?thesis by (simp add: mmu_byte_def)
qed

lemma mmu_byte_outside:
  "(\<And>b. b \<in> set mem \<Longrightarrow> \<not> in_range_at (block_params b) x) \<Longrightarrow> mmu_byte mem x = 0"
  by (auto simp: mmu_byte_def find_Some_iff split: option.splits dest: nth_mem)

lemma put_block_params:
  assumes "mmu_ok mem" and "b \<in> set mem" and "block_params b' = block_params b"
  shows "map block_params (put_block b' mem) = map block_params mem"
  using start_of_unique [OF assms(1) _ assms(2)] assms(3)
  by (auto simp: put_block_def start_of_def)

lemma put_block_mem:
  assumes "mmu_ok mem" and "b \<in> set mem" and "block_params b' = block_params b"
  shows "x \<in> set (put_block b' mem) \<longleftrightarrow> x = b' \<or> (x \<in> set mem \<and> x \<noteq> b)"
  using start_of_unique [OF assms(1) _ assms(2)] assms(2,3)
  by (fastforce simp: put_block_def start_of_def image_iff)

lemma sorted_before_params:
  "sorted_wrt before mem \<longleftrightarrow> sorted_wrt (\<lambda>p q. hi p \<le> lo q \<and> lo p < lo q) (map block_params mem)"
  by (simp add: sorted_wrt_map before_def [abs_def])

lemma put_block_ok:
  assumes "mmu_ok mem" and "b \<in> set mem" and "block_params b' = block_params b" and "block_ok b'"
  shows "mmu_ok (put_block b' mem)"
proof -
  have "sorted_wrt before (put_block b' mem)"
    using assms(1) put_block_params [OF assms(1-3)] by (simp add: mmu_ok_def sorted_before_params)
  moreover have "block_fits b'" using assms(1-3) by (simp add: mmu_ok_def block_fits_def)
  ultimately show ?thesis
    using assms(1,4) put_block_mem [OF assms(1-3)] by (auto simp: mmu_ok_def)
qed

lemma put_block_covers:
  assumes "mmu_ok mem" and "b \<in> set mem" and "block_params b' = block_params b"
  shows "mmu_covers (put_block b' mem) = mmu_covers mem"
  unfolding mmu_covers_def covers_def fun_eq_iff Bex_def put_block_mem [OF assms] using assms(2,3) by metis

lemma mmu_store_covered:
  assumes ok: "mmu_ok mem" and cov: "mmu_covers mem a n" and len: "unat n \<le> length bs"
  shows "\<exists>mem'. mmu_store mem a bs n = Inr (Some mem') \<and> mmu_ok mem' \<and> mmu_covers mem' = mmu_covers mem
    \<and> mmu_byte mem' = (\<lambda>x. if in_area a n x then bs ! unat (x - a) else mmu_byte mem x)"
proof -
  from cov obtain b where b: "b \<in> set mem" and c: "covers b a n" by (auto simp: mmu_covers_def)
  from ok b have bok: "block_ok b" and fits: "block_fits b" by (auto simp: mmu_ok_def)
  from block_store_covered [OF bok c len] obtain b' where
    st: "block_store b a bs n = Inr (Some b')" and p: "block_params b' = block_params b"
    and bok': "block_ok b'"
    and byte: "block_byte b' = (\<lambda>x. if in_area a n x then bs ! unat (x - a) else block_byte b x)"
    by blast
  let ?mem = "put_block b' mem"
  note mem_iff = put_block_mem [OF ok b p]
  note ok' = put_block_ok [OF ok b p bok']
  have "mmu_byte ?mem x = (if in_area a n x then bs ! unat (x - a) else mmu_byte mem x)" for x
  proof (cases "in_range_at (block_params b) x")
    case True
    then show ?thesis
      using mmu_byte_block [OF ok b] mmu_byte_block [OF ok', of b'] mem_iff by (simp add: p byte)
  next
    case False
    have "\<not> in_area a n x"
    proof
      assume "in_area a n x"
      then have "x = a + of_nat (unat (x - a))" and "unat (x - a) < unat n" by (simp_all add: in_area_def)
      with covers_address [OF fits c] False show False by metis
    qed
    moreover have "mmu_byte ?mem x = mmu_byte mem x"
    proof (cases "\<exists>y \<in> set mem. in_range_at (block_params y) x")
      case True
      then obtain y where y: "y \<in> set mem" "in_range_at (block_params y) x" by blast
      with False have "y \<in> set ?mem" by (auto simp: mem_iff)
      with y show ?thesis by (simp add: mmu_byte_block [OF ok] mmu_byte_block [OF ok'])
    next
      case none: False
      then have "\<And>y. y \<in> set ?mem \<Longrightarrow> \<not> in_range_at (block_params y) x"
        using False by (auto simp: mem_iff p)
      with none show ?thesis by (simp add: mmu_byte_outside)
    qed
    ultimately show ?thesis by simp
  qed
  then show ?thesis
    using ok' put_block_covers [OF ok b p] find_block_covers [OF ok b c] st
    by (simp add: mmu_store_def fun_eq_iff)
qed

interpretation mmu: byte_memory mmu_load mmu_store mmu_ok mmu_covers mmu_byte
proof unfold_locales
  fix mem a n
  assume ok: "mmu_ok mem" and "mmu_covers mem a n"
  then obtain b where b: "b \<in> set mem" and c: "covers b a n" by (auto simp: mmu_covers_def)
  with ok have bok: "block_ok b" and fits: "block_fits b" by (auto simp: mmu_ok_def)
  have "map (\<lambda>i. block_byte b (a + of_nat i)) [0..<unat n] = map (\<lambda>i. mmu_byte mem (a + of_nat i)) [0..<unat n]"
    using mmu_byte_block [OF ok b covers_address [OF fits c]] by simp
  then show "mmu_load mem a n = Inr (Some (map (\<lambda>i. mmu_byte mem (a + of_nat i)) [0..<unat n]))"
    using block_load_covered [OF bok c] by (simp add: mmu_load_def find_block_covers [OF ok b c])
qed (rule mmu_store_covered)


section \<open>Blocks anywhere in the address space\<close>

text \<open>
  What holds of every unit, also of one with blocks that end at the top of the address space or run past it: the
  blocks are in the order of their keys, and each has its bytes. Where no block runs that far they are apart too.
\<close>

definition blocks_ok :: "memory_management_unit \<Rightarrow> bool" where
  "blocks_ok mem \<longleftrightarrow> sorted_wrt (\<lambda>x y. start_of x < start_of y) mem \<and> (\<forall>b \<in> set mem. block_ok b)"

definition mmu_inv :: "memory_management_unit \<Rightarrow> bool" where
  "mmu_inv mem \<longleftrightarrow> blocks_ok mem \<and> (list_all block_fits mem \<longrightarrow> mmu_ok mem)"

lemma mmu_ok_iff: "mmu_ok mem \<longleftrightarrow> mmu_inv mem \<and> list_all block_fits mem"
  by (auto simp: mmu_ok_def mmu_inv_def blocks_ok_def list_all_iff intro: sorted_wrt_mono_rel [rotated] before_start)

lemma block_fits_params: "list_all block_fits mem \<longleftrightarrow> list_all (\<lambda>p. hi p + 256 \<le> 2 ^ 32) (map block_params mem)"
  by (simp add: list_all_iff block_fits_def)

lemma try_emplace_starts:
  assumes "sorted_wrt (\<lambda>x y. start_of x < start_of y) mem"
  shows "sorted_wrt (\<lambda>x y. start_of x < start_of y) (snd (try_emplace b mem))"
    and "set (snd (try_emplace b mem)) = (if fst (try_emplace b mem) then insert b (set mem) else set mem)"
proof -
  have "sorted_wrt (\<lambda>x y. start_of x < start_of y) (snd (try_emplace b mem))
    \<and> set (snd (try_emplace b mem)) = (if fst (try_emplace b mem) then insert b (set mem) else set mem)"
    using assms
  proof (induction mem)
    case (Cons x xs)
    consider "start_of b < start_of x" | "start_of x < start_of b" | "start_of x = start_of b" by fastforce
    then show ?case
    proof cases
      case 1
      with Cons.prems show ?thesis by (auto simp: start_less intro: order.strict_trans)
    next
      case 2
      with Cons show ?thesis by (auto simp: start_less split: prod.splits if_splits)
    next
      case 3
      with Cons.prems show ?thesis by (simp add: start_less)
    qed
  qed simp
  then show "sorted_wrt (\<lambda>x y. start_of x < start_of y) (snd (try_emplace b mem))"
    and "set (snd (try_emplace b mem)) = (if fst (try_emplace b mem) then insert b (set mem) else set mem)"
    by simp_all
qed

lemma add_block_inv:
  assumes "mmu_inv mem" and "length (block_data b) = unat (block_size (block_params b))"
  shows "mmu_inv (snd (add_block b mem))"
    and "set (snd (add_block b mem)) = (if fst (add_block b mem) then insert b (set mem) else set mem)"
proof -
  have srt: "sorted_wrt (\<lambda>x y. start_of x < start_of y) mem" and ok: "\<forall>x \<in> set mem. block_ok x"
    using assms(1) by (simp_all add: mmu_inv_def blocks_ok_def)
  show set: "set (snd (add_block b mem)) = (if fst (add_block b mem) then insert b (set mem) else set mem)"
    using try_emplace_starts(2) [OF srt, of b] by (auto simp: add_block_def)
  have "block_size (block_params b) \<noteq> 0" if "fst (add_block b mem)" using that by (auto simp: add_block_def)
  then have new: "block_ok b" if "fst (add_block b mem)" using that assms(2) by (simp add: block_ok_def)
  have "sorted_wrt (\<lambda>x y. start_of x < start_of y) (snd (add_block b mem))"
    using try_emplace_starts(1) [OF srt, of b] srt by (simp add: add_block_def)
  then have "blocks_ok (snd (add_block b mem))"
    using ok new set by (auto simp: blocks_ok_def split: if_splits)
  moreover have "mmu_ok (snd (add_block b mem))" if fits: "list_all block_fits (snd (add_block b mem))"
  proof (cases "fst (add_block b mem)")
    case True
    with fits set have "list_all block_fits mem" "block_fits b" by (auto simp: list_all_iff)
    with assms(1) have "mmu_ok mem" by (simp add: mmu_ok_iff)
    then show ?thesis using add_block_ok(2) new True \<open>block_fits b\<close> by blast
  next
    case False
    then have "snd (add_block b mem) = mem"
      using try_emplace_refused [of b mem] by (auto simp: add_block_def split: if_splits)
    with fits assms(1) show ?thesis by (simp add: mmu_ok_iff)
  qed
  ultimately show "mmu_inv (snd (add_block b mem))" by (simp add: mmu_inv_def)
qed

lemma put_block_inv:
  assumes "blocks_ok mem" and "b \<in> set mem" and "block_params b' = block_params b" and "block_ok b'"
  shows "map block_params (put_block b' mem) = map block_params mem" and "blocks_ok (put_block b' mem)"
proof -
  have "x = y" if "sorted_wrt (\<lambda>x y. start_of x < start_of y) mem" "x \<in> set mem" "y \<in> set mem" "start_of x = start_of y" for x y
    using that by (induction mem) auto
  then have "x = b" if "x \<in> set mem" "start_of x = start_of b" for x
    using assms(1,2) that by (simp add: blocks_ok_def)
  then show params: "map block_params (put_block b' mem) = map block_params mem"
    using assms(3) by (auto simp: put_block_def start_of_def)
  have "sorted_wrt (\<lambda>x y. start_of x < start_of y) ms \<longleftrightarrow> sorted_wrt (\<lambda>p q. block_start p < block_start q) (map block_params ms)"
    for ms by (simp add: sorted_wrt_map start_of_def)
  with assms(1) params have "sorted_wrt (\<lambda>x y. start_of x < start_of y) (put_block b' mem)"
    by (simp only: blocks_ok_def)
  then show "blocks_ok (put_block b' mem)"
    using assms(1,4) by (auto simp: blocks_ok_def) (auto simp: put_block_def)
qed

lemma put_block_mmu_inv:
  assumes "mmu_inv mem" and "b \<in> set mem" and "block_params b' = block_params b" and "block_ok b'"
  shows "mmu_inv (put_block b' mem)"
  unfolding mmu_inv_def
proof (intro conjI impI)
  note put = put_block_inv [OF _ assms(2-4)]
  have ok: "blocks_ok mem" using assms(1) by (simp add: mmu_inv_def)
  then show "blocks_ok (put_block b' mem)" by (rule put)
  assume "list_all block_fits (put_block b' mem)"
  then have "list_all block_fits mem" unfolding block_fits_params put(1) [OF ok] .
  with assms(1) have "mmu_ok mem" by (simp add: mmu_inv_def)
  then show "mmu_ok (put_block b' mem)" by (rule put_block_ok) (rule assms)+
qed

lemma block_store_SomeD:
  assumes "block_ok b" and "block_store b a bs n = Inr (Some b')"
  shows "block_params b' = block_params b" and "block_ok b'"
  using assms by (auto simp: block_store_def Let_def block_ok_def split: if_splits)

lemma find_block_None_low:
  assumes "unat a + unat n < 2 ^ 32"
  shows "find_block mem a n = None \<longleftrightarrow> \<not> mmu_covers mem a n"
proof -
  have "in_range p a n \<longleftrightarrow> within p a n" for p
  proof (cases "in_range_at p a")
    case True
    then have l: "lo p \<le> unat a" "unat (offset p a) = unat a - lo p" by (simp_all add: in_range_at_iff unat_offset)
    then have "unat (offset p a + n) = unat (offset p a) + unat n" using assms by (simp add: unat_word_ariths)
    with True l show ?thesis by (auto simp: in_range_def within_def word_le_nat_alt hi_def lo_def)
  qed (simp add: in_range_def within_def)
  then show ?thesis by (auto simp: find_block_def find_None_iff mmu_covers_def covers_def)
qed

section \<open>Properties\<close>

text \<open>
  C20: A new block that ends below the top of the address space is accepted exactly when it shares no
  address with a block of the unit and does not end exactly where one starts; the unit keeps its
  blocks in order and apart, and a refused block changes nothing.
\<close>

theorem add_block_accepts:
  assumes "mmu_ok mem" and "block_ok b" and "block_fits b"
  shows "(fst (add_block b mem) \<longleftrightarrow>
      (\<forall>x \<in> set mem. hi (block_params b) < lo (block_params x) \<or> hi (block_params x) \<le> lo (block_params b)))
    \<and> mmu_ok (snd (add_block b mem))
    \<and> set (snd (add_block b mem)) = (if fst (add_block b mem) then insert b (set mem) else set mem)"
  using add_block_ok [OF assms] by blast

theorem add_block_accepts_witness:
  "fst (add_block (generic_memory 16 16) [generic_memory 0 16, generic_memory 64 4])
    \<and> \<not> fst (add_block (generic_memory 48 16) [generic_memory 0 16, generic_memory 64 4])"
  using add_block_accepts [of "[generic_memory 0 16, generic_memory 64 4]" "generic_memory 16 16"]
    add_block_accepts [of "[generic_memory 0 16, generic_memory 64 4]" "generic_memory 48 16"]
  by (simp add: mmu_ok_def block_ok_def block_fits_def generic_memory_def before_def lo_def hi_def)

text \<open>
  C35: The overlap test adds the start and the size of the new block in 32 bits. A block that starts
  below a block of the unit and runs past the top of the address space is accepted although it
  contains every address of that block.
\<close>

theorem add_block_wraps:
  assumes "start_of b < start_of x" and "hi (block_params x) \<le> 2 ^ 32"
    and "2 ^ 32 \<le> hi (block_params b)"
  shows "add_block b [x] = (True, [b, x])
    \<and> (\<forall>a. in_range_at (block_params x) a \<longrightarrow> in_range_at (block_params b) a)"
proof -
  let ?p = "block_params b"
  have sz: "unat (block_size ?p) < 2 ^ 32" and st: "unat (block_start ?p) < 2 ^ 32"
    using unat_u32_less [of "block_size ?p"] unat_u32_less [of "block_start ?p"] by simp_all
  with assms(3) have ne: "block_size ?p \<noteq> 0" by (auto simp: hi_def)
  have "unat (block_start ?p + block_size ?p) = hi ?p - 2 ^ 32"
    using assms(3) sz st
    by (simp add: unat_word_ariths hi_def mod_if)
  then have "\<not> is_overlap (block_params x) ?p"
    using assms(1) sz
    by (auto simp: is_overlap_def is_overlap_at_def start_of_def word_le_nat_alt word_less_nat_alt hi_def)
  with ne assms(1) have "add_block b [x] = (True, [b, x])" by (simp add: add_block_def start_less)
  moreover have "in_range_at ?p a" if "in_range_at (block_params x) a" for a
    using that assms by (auto simp: in_range_at_iff start_of_def lo_def word_less_nat_alt)
  ultimately show ?thesis by blast
qed

theorem add_block_wraps_witness:
  "add_block (generic_memory 0x1000 0xFFFFF000) [generic_memory 0x80000000 16]
    = (True, [generic_memory 0x1000 0xFFFFF000, generic_memory 0x80000000 16])"
  using add_block_wraps [of "generic_memory 0x1000 0xFFFFF000" "generic_memory 0x80000000 16"]
  by (simp add: generic_memory_def start_of_def hi_def)

text \<open>
  C21: A load from a block returns the bytes of the range exactly when the block holds all of them.
  Otherwise it is refused, except that an offset and size whose sum wraps pass the range check and the
  copy runs past the end of the vector.
\<close>

theorem block_load_exact:
  assumes "block_ok b"
  shows "block_load b a n =
     (if in_range_at (block_params b) a \<and> unat a + unat n \<le> hi (block_params b)
      then Inr (Some (map (\<lambda>i. block_byte b (a + of_nat i)) [0..<unat n]))
      else if in_range_at (block_params b) a \<and> 2 ^ 32 \<le> unat (a - block_start (block_params b)) + unat n
      then Inl (undefined Out_Of_Bounds)
      else Inr None)"
proof -
  let ?p = "block_params b" and ?o = "unat (offset (block_params b) a)"
  consider (in_) "covers b a n" | (out) "\<not> in_range_at ?p a"
    | (past) "in_range_at ?p a" "\<not> unat a + unat n \<le> hi ?p" by (auto simp: covers_def within_def)
  then show ?thesis
  proof cases
    case in_
    then show ?thesis using block_load_covered [OF assms] by (auto simp: covers_def within_def)
  next
    case out
    then show ?thesis by (simp add: block_load_def in_range_def)
  next
    case past
    have lo: "lo ?p \<le> unat a" and o_less: "?o < unat (block_size ?p)"
      using past(1) by (auto simp: in_range_at_iff unat_offset lo_def hi_def)
    have past': "\<not> ?o + unat n \<le> unat (block_size ?p)"
      using past lo by (simp add: unat_offset lo_def hi_def)
    have bounds: "unat n < 2 ^ 32" "?o < 2 ^ 32"
      using unat_u32_less [of n] unat_u32_less [of "offset ?p a"] by simp_all
    have "in_range ?p a n \<longleftrightarrow> 2 ^ 32 \<le> ?o + unat n"
    proof (cases "2 ^ 32 \<le> ?o + unat n")
      case True
      then have "unat (offset ?p a + n) = ?o + unat n - 2 ^ 32"
        using bounds by (simp add: unat_word_ariths mod_if)
      with True past(1) o_less bounds show ?thesis by (simp add: in_range_def word_le_nat_alt)
    next
      case False
      then have "unat (offset ?p a + n) = ?o + unat n" by (simp add: unat_word_ariths)
      with False past(1) past' show ?thesis by (simp add: in_range_def word_le_nat_alt)
    qed
    with past past' assms show ?thesis by (simp add: block_load_def block_ok_def offset_def Let_def)
  qed
qed

theorem block_load_exact_witness:
  "block_load (generic_memory 0 0xFFFFFFFE) 0xFFFFFFFC 4 = Inl (undefined Out_Of_Bounds)
    \<and> block_load (generic_memory 16 8) 22 4 = Inr None"
  using block_load_exact [of "generic_memory 0 0xFFFFFFFE" "0xFFFFFFFC" 4]
    block_load_exact [of "generic_memory 16 8" 22 4]
  by (simp add: generic_memory_def block_ok_def in_range_at_def hi_def)

end
