(* ===== verification/Utility.thy ===== *)
theory Utility
  imports Prelude
begin

text \<open>
  vm_utility.hxx / vm_utility.cxx: \<open>ensure\<close> and the Intel HEX parser. A stream is the text it holds;
  opening and reading files is left to the caller. Reading a vector or a string view outside its
  bounds is undefined behaviour.
\<close>

definition ensure :: "bool \<Rightarrow> string \<Rightarrow> ('s, unit) action" where
  "ensure ok message = (if \<not> ok then throw (domain_error message) else ret ())"

text \<open>\<open>to_signed\<close> and \<open>to_unsigned\<close> of namespace \<open>vm\<close>: a signed register value is an integer.\<close>

definition vm_to_signed :: "u32 \<Rightarrow> int" where
  "vm_to_signed val = sint val"

definition vm_to_unsigned :: "int \<Rightarrow> u32" where
  "vm_to_unsigned val = word_of_int val"

lemma vm_to_unsigned_signed [simp]: "vm_to_unsigned (vm_to_signed val) = val"
  by (simp add: vm_to_unsigned_def vm_to_signed_def)

section \<open>Hexadecimal text\<close>

definition char_in_range :: "char \<Rightarrow> char \<Rightarrow> char \<Rightarrow> bool" where
  "char_in_range c lo hi \<longleftrightarrow> of_char lo \<le> (of_char c :: nat) \<and> of_char c \<le> (of_char hi :: nat)"

definition from_hex_char :: "char \<Rightarrow> u8" where
  "from_hex_char hex =
     (if char_in_range hex CHR ''0'' CHR ''9'' then of_char hex - of_char CHR ''0''
      else if char_in_range hex CHR ''a'' CHR ''f'' then of_char hex - of_char CHR ''a'' + 10
      else if char_in_range hex CHR ''A'' CHR ''F'' then of_char hex - of_char CHR ''A'' + 10
      else 0xff)"

fun from_hex :: "string \<Rightarrow> u8 list" where
  "from_hex (a # b # cs) =
     (let hi = from_hex_char a; lo = from_hex_char b in (push_bit 4 hi OR lo) # from_hex cs)"
| "from_hex [c] = []"
| "from_hex [] = []"

text \<open>\<open>hex_checksum(first, last)\<close> of the bytes of the range \<open>[first, last)\<close>.\<close>

definition hex_checksum :: "u8 list \<Rightarrow> u8" where
  "hex_checksum bytes =
     (let sum = fold (\<lambda>b sum. sum + b) bytes 0;
          sum = NOT sum
      in 1 + sum)"

section \<open>Records\<close>

datatype record_type =
    HEX_DATA
  | HEX_EOF
  | HEX_SEGMENT_EXTEND
  | HEX_SEGMENT_START
  | HEX_LINEAR_EXTEND
  | HEX_LINEAR_START
  | HEX_UNKNOWN

fun record_type_value :: "record_type \<Rightarrow> u8" where
  "record_type_value HEX_DATA = 0x00"
| "record_type_value HEX_EOF = 0x01"
| "record_type_value HEX_SEGMENT_EXTEND = 0x02"
| "record_type_value HEX_SEGMENT_START = 0x03"
| "record_type_value HEX_LINEAR_EXTEND = 0x04"
| "record_type_value HEX_LINEAR_START = 0x05"
| "record_type_value HEX_UNKNOWN = 0x06"

record hex_record =
  rec_count :: u8
  rec_type :: u8
  sum_expected :: u8
  sum_actual :: u8
  rec_offset :: u16
  rec_data :: "u8 list"

definition get_type :: "hex_record \<Rightarrow> record_type" where
  "get_type r =
     (if rec_type r < record_type_value HEX_UNKNOWN
      then the (find (\<lambda>t. record_type_value t = rec_type r)
             [HEX_DATA, HEX_EOF, HEX_SEGMENT_EXTEND, HEX_SEGMENT_START, HEX_LINEAR_EXTEND, HEX_LINEAR_START])
      else HEX_UNKNOWN)"

definition is_valid :: "hex_record \<Rightarrow> bool" where
  "is_valid r \<longleftrightarrow> sum_actual r = sum_expected r \<and> unat (rec_count r) = length (rec_data r)"

definition get_type_name :: "hex_record \<Rightarrow> string" where
  "get_type_name r =
     (case get_type r of
        HEX_DATA \<Rightarrow> ''HEX_DATA''
      | HEX_EOF \<Rightarrow> ''HEX_EOF''
      | HEX_SEGMENT_EXTEND \<Rightarrow> ''HEX_SEGMENT_EXTEND''
      | HEX_SEGMENT_START \<Rightarrow> ''HEX_SEGMENT_START''
      | HEX_LINEAR_EXTEND \<Rightarrow> ''HEX_LINEAR_EXTEND''
      | HEX_LINEAR_START \<Rightarrow> ''HEX_LINEAR_START''
      | HEX_UNKNOWN \<Rightarrow> ''HEX_UNKNOWN'')"

definition is_data :: "hex_record \<Rightarrow> bool" where
  "is_data r \<longleftrightarrow> get_type r = HEX_DATA"

definition is_eof :: "hex_record \<Rightarrow> bool" where
  "is_eof r \<longleftrightarrow> get_type r = HEX_EOF"

definition is_start_segment :: "hex_record \<Rightarrow> bool" where
  "is_start_segment r \<longleftrightarrow> rec_type r = record_type_value HEX_SEGMENT_START"

definition is_extend_segment :: "hex_record \<Rightarrow> bool" where
  "is_extend_segment r \<longleftrightarrow> rec_type r = record_type_value HEX_SEGMENT_EXTEND"

definition is_start_linear :: "hex_record \<Rightarrow> bool" where
  "is_start_linear r \<longleftrightarrow> rec_type r = record_type_value HEX_LINEAR_START"

definition is_extend_linear :: "hex_record \<Rightarrow> bool" where
  "is_extend_linear r \<longleftrightarrow> rec_type r = record_type_value HEX_LINEAR_EXTEND"

definition get_extend :: "hex_record \<Rightarrow> u32" where
  "get_extend r =
     (if length (rec_data r) = 2
      then let val = push_bit 8 (ucast (rec_data r ! 0)) OR ucast (rec_data r ! 1)
           in if is_extend_segment r then push_bit 4 val
              else if is_extend_linear r then push_bit 16 val
              else 0
      else 0)"

definition get_start :: "hex_record \<Rightarrow> u32" where
  "get_start r =
     (if length (rec_data r) = 4
      then if is_start_linear r \<or> is_start_segment r
           then push_bit 24 (ucast (rec_data r ! 0)) OR push_bit 16 (ucast (rec_data r ! 1))
                  OR push_bit 8 (ucast (rec_data r ! 2)) OR ucast (rec_data r ! 3)
           else 0
      else 0)"

section \<open>Parsing\<close>

definition parse_hex_record :: "string \<Rightarrow> exn + hex_record" where
  "parse_hex_record line =
     (let bytes = from_hex line in
      if length bytes < 4 \<or> length bytes < 4 + unat (bytes ! 0) then Inl (undefined Out_Of_Bounds)
      else Inr \<lparr>rec_count = bytes ! 0,
                rec_type = bytes ! 3,
                sum_expected = last bytes,
                sum_actual = hex_checksum (butlast bytes),
                rec_offset = push_bit 8 (ucast (bytes ! 1)) OR ucast (bytes ! 2),
                rec_data = take (unat (bytes ! 0)) (drop 4 bytes)\<rparr>)"

definition min_record_size :: nat where
  "min_record_size = 1 + (1 + 2 + 1 + 1) * 2"

text \<open>The position of the first colon; \<open>None\<close> is \<open>npos\<close>.\<close>

definition find_colon :: "string \<Rightarrow> nat option" where
  "find_colon line = find (\<lambda>i. line ! i = CHR '':'') [0..<length line]"

text \<open>One turn of the loop: skip the line, fail, or a parsed record.\<close>

datatype line_result = Skip | Fail | Parsed hex_record

definition parse_line :: "string \<Rightarrow> exn + line_result" where
  "parse_line line =
     (case find_colon line of
        None \<Rightarrow> Inr Skip
      | Some pos \<Rightarrow>
          if min_record_size > length line then Inr Fail
          else let line = drop pos line in
            if length line < 3 then Inl (undefined Out_Of_Bounds)
            else let record_size = min_record_size
                   + unat (push_bit 4 (ucast (from_hex_char (line ! 1))) OR ucast (from_hex_char (line ! 2)) :: u32)
                 in if record_size > length line then Inr Fail
                    else map_sum id Parsed (parse_hex_record (drop 1 line)))"

fun parse_lines :: "string list \<Rightarrow> hex_record list \<Rightarrow> exn + hex_record list option" where
  "parse_lines [] result = Inr (Some result)"
| "parse_lines (tmp # rest) result =
     (case parse_line tmp of
        Inl e \<Rightarrow> Inl e
      | Inr Skip \<Rightarrow> parse_lines rest result
      | Inr Fail \<Rightarrow> Inr None
      | Inr (Parsed r) \<Rightarrow>
          if is_eof r then Inr (Some (result @ [r])) else parse_lines rest (result @ [r]))"

text \<open>\<open>std::getline\<close> until the stream is exhausted: a last line without a newline counts if it is not empty.\<close>

fun get_lines :: "string \<Rightarrow> string \<Rightarrow> string list" where
  "get_lines acc [] = (if acc = [] then [] else [acc])"
| "get_lines acc (c # cs) =
     (if c = CHR 0x0A then acc # get_lines [] cs else get_lines (acc @ [c]) cs)"

definition parse_hex :: "string \<Rightarrow> exn + hex_record list option" where
  "parse_hex stream = parse_lines (get_lines [] stream) []"

end
