(* ===== verification/Syscall.thy ===== *)
theory Syscall
  imports Interface Registry Utility
begin

text \<open>
  vm_syscall.hxx / vm_syscall.cxx: system call handlers and their registry. A handler
  (\<open>syscall_functor\<close>) is its number, its name and a callback; \<open>'c\<close> is the type of callbacks, which
  clients of the library supply and whose effect on a machine is a parameter of the machine.
\<close>

record 'c syscall_functor =
  sys_id :: register_t
  sys_name :: string
  callback :: 'c

definition create :: "register_t \<Rightarrow> string \<Rightarrow> 'c \<Rightarrow> 'c syscall_functor" where
  "create i name cb = \<lparr>sys_id = i, sys_name = name, callback = cb\<rparr>"

type_synonym 'c syscall_registry = "register_t \<rightharpoonup> 'c syscall_functor"

definition register_syscall :: "'c syscall_functor \<Rightarrow> ('c syscall_registry, bool) action" where
  "register_syscall h r =
     (case r (sys_id h) of
        None \<Rightarrow> andThen (ensure True (sys_name h)) (\<lambda>_. ret True) (r(sys_id h \<mapsto> h))
      | Some g \<Rightarrow> andThen (ensure False (sys_name g)) (\<lambda>_. ret False) r)"

definition find_syscall :: "'c syscall_registry \<Rightarrow> register_t \<Rightarrow> 'c syscall_functor option" where
  "find_syscall r i = r i"

definition get_syscall_id :: "'m MachineInterface \<Rightarrow> 'm \<Rightarrow> exn + register_t" where
  "get_syscall_id vm m = mi_get_register vm (reg_no Reg_a7) m"

interpretation syscall_registry: keyed_registry
  sys_id
  "\<lambda>h r. fst (register_syscall h r) = Inr True"
  "\<lambda>h r. snd (register_syscall h r)"
  "\<lambda>r. r"
  by unfold_locales
    (auto simp: register_syscall_def ensure_def action_simps split: option.splits)

end
