(* ===== verification/Output.thy ===== *)
theory Output
  imports Base_Types
begin

text \<open>
  What the programs write: the formatting manipulators of the standard library, and the text on \<open>std::cout\<close>.
  A machine keeps the list of what was inserted into that stream; the number base that is in force at an insertion
  depends on what was inserted before it.
\<close>

section \<open>Formatting\<close>

definition endl :: string where
  "endl = [CHR 0x0A]"

definition tab :: string where
  "tab = [CHR 0x09]"

text \<open>\<open>std::setw(n)\<close> with the default adjustment and fill character.\<close>

definition setw :: "nat \<Rightarrow> string \<Rightarrow> string" where
  "setw n s = replicate (n - length s) CHR '' '' @ s"

text \<open>
  \<open>std::setw(n)\<close> under \<open>std::left\<close>, and under \<open>std::right\<close> with the fill character 0. A string under
  \<open>std::internal\<close> is adjusted as under \<open>std::right\<close>.
\<close>

definition setw_left :: "nat \<Rightarrow> string \<Rightarrow> string" where
  "setw_left n s = s @ replicate (n - length s) CHR '' ''"

definition setw_zero :: "nat \<Rightarrow> string \<Rightarrow> string" where
  "setw_zero n s = replicate (n - length s) CHR ''0'' @ s"

text \<open>A truth value under \<open>std::boolalpha\<close>.\<close>

definition show_bool :: "bool \<Rightarrow> string" where
  "show_bool b = (if b then ''true'' else ''false'')"

text \<open>A path written to a stream: \<open>std::quoted\<close>.\<close>

definition quoted :: "string \<Rightarrow> string" where
  "quoted s = [CHR 0x22] @ concat (map (\<lambda>c. if c = CHR 0x22 \<or> c = CHR 0x5C then [CHR 0x5C, c] else [c]) s) @ [CHR 0x22]"

text \<open>An unsigned number under \<open>std::hex\<close>.\<close>

fun show_hex :: "nat \<Rightarrow> string" where
  "show_hex n = (if n < 16 then [''0123456789abcdef'' ! n] else show_hex (n div 16) @ [''0123456789abcdef'' ! (n mod 16)])"

declare show_hex.simps [simp del]

definition hex_word :: "u32 \<Rightarrow> string" where
  "hex_word w = show_hex (unat w)"

section \<open>The standard output stream\<close>

text \<open>
  An event is an insertion: the two halves of a debug line of \<open>run_step\<close>, which use manipulators, or a value inserted
  by a system call, which uses none.
\<close>

datatype trace_event =
    Trace_Before register_t string string register_t register_t register_t
  | Trace_After register_t register_t register_t
  | Print_Text string
  | Print_Signed register_t
  | Print_Unsigned register_t
  | Print_Char u8

fun is_output :: "trace_event \<Rightarrow> bool" where
  "is_output (Trace_Before _ _ _ _ _ _) = False"
| "is_output (Trace_After _ _ _) = False"
| "is_output _ = True"

text \<open>
  The text of an insertion. The base of the stream is decimal or, after \<open>std::hex\<close>, hexadecimal; a signed number is
  written in two's complement under \<open>std::hex\<close>. \<open>std::setw\<close> holds for one insertion. The fill character and the
  adjustment last, but a second half always follows a first half, which leaves blanks and \<open>std::right\<close>, and the
  insertions of the system calls have no width.
\<close>

definition show_word :: "bool \<Rightarrow> u32 \<Rightarrow> string" where
  "show_word hex w = (if hex then hex_word w else show_nat (unat w))"

fun event_text :: "bool \<Rightarrow> trace_event \<Rightarrow> string" where
  "event_text hex (Trace_Before pc name args rd rs1 rs2) =
     setw_zero 8 (show_word hex pc) @ '' '' @ setw_left 10 name @ setw_left 20 args
     @ setw 10 (hex_word rd) @ setw 10 (hex_word rs1) @ setw 10 (hex_word rs2)"
| "event_text hex (Trace_After rd rs1 rs2) =
     setw 10 (hex_word rd) @ setw 10 (hex_word rs1) @ setw 10 (hex_word rs2) @ endl"
| "event_text hex (Print_Text s) = s"
| "event_text hex (Print_Signed w) = (if hex then hex_word w else to_string (sint w))"
| "event_text hex (Print_Unsigned w) = show_word hex w"
| "event_text hex (Print_Char b) = [char_of (unat b)]"

text \<open>The debug lines set \<open>std::hex\<close>, and nothing sets the base back.\<close>

fun stream_text :: "bool \<Rightarrow> trace_event list \<Rightarrow> string" where
  "stream_text hex [] = []"
| "stream_text hex (e # es) = event_text hex e @ stream_text (hex \<or> \<not> is_output e) es"

text \<open>The part of this text that the system calls wrote.\<close>

fun output_text :: "bool \<Rightarrow> trace_event list \<Rightarrow> string" where
  "output_text hex [] = []"
| "output_text hex (e # es) = (if is_output e then event_text hex e else []) @ output_text (hex \<or> \<not> is_output e) es"

lemma stream_text_output: "list_all is_output es \<Longrightarrow> stream_text hex es = concat (map (event_text hex) es)"
  by (induction es arbitrary: hex) simp_all

lemma output_text_hex: "output_text True es = concat (map (event_text True) (filter is_output es))"
  by (induction es) simp_all

text \<open>Once a debug line is there, all numbers after it are hexadecimal.\<close>

lemma output_text_debug:
  assumes "es \<noteq> []" and "\<not> is_output (hd es)"
  shows "output_text hex es = concat (map (event_text True) (filter is_output es))"
  using assms by (cases es) (simp_all add: output_text_hex)

text \<open>The number 100.\<close>

lemma printed_numbers:
  "event_text False (Print_Signed 100) = ''100''" "event_text True (Print_Signed 100) = ''64''"
  by (simp_all add: to_string_def show_nat.simps [of 100] show_nat.simps [of 10] show_nat.simps [of "Suc 0"]
    hex_word_def show_hex.simps [of 100] show_hex.simps [of 6])

end
