(* ===== verification/Basic_VM.thy ===== *)
theory Basic_VM
  imports Handler_Effects Memory Syscall Output
begin

text \<open>
  vm_basic.hxx / vm_basic.cxx: the class \<open>basic_vm\<close>. Its state is a record with the fields of the
  class; its virtual functions are the \<open>MachineInterface\<close> handed to instruction handlers. The callbacks
  of registered system calls are a parameter: \<open>call c\<close> is the effect of callback \<open>c\<close> on the machine.
  What is written to \<open>std::cout\<close> is kept as the list of insertions of theory \<open>Output\<close>.
\<close>

section \<open>State\<close>

record 'c basic_vm =
  initFlags :: u8
  opcodes :: "HandlerClass HandlerRegistry"
  syscalls :: "'c syscall_registry"
  mmu :: memory_management_unit
  registers :: "register_t list"
  ro_size :: size_t
  rw_size :: size_t
  code_base :: address_t
  data_base :: address_t
  initial_pc :: address_t
  running :: bool
  debugging :: bool
  syscall_throw_on_error :: bool
  trace :: "trace_event list"

definition def_code_base :: address_t where
  "def_code_base = 0"

definition def_data_base :: address_t where
  "def_data_base = 4 * 1024 * 1024"

definition def_code_size :: size_t where
  "def_code_size = 4 * 1024 * 1024"

definition def_data_size :: size_t where
  "def_data_size = 4 * 1024 * 1024"

text \<open>A default-constructed machine: the member initialisers of the class.\<close>

definition new_vm :: "'c basic_vm" where
  "new_vm =
     \<lparr>initFlags = 0, opcodes = empty_registry, syscalls = Map.empty, mmu = [],
      registers = replicate 33 0, ro_size = def_code_size, rw_size = def_data_size,
      code_base = def_code_base, data_base = def_data_base, initial_pc = 0,
      running = False, debugging = False, syscall_throw_on_error = True, trace = []\<rparr>"

section \<open>Initialisation flags\<close>

datatype InitFlag = HAVE_CODE_BLOCK | HAVE_DATA_BLOCK | ISA_INITIALIZED | PC_INITIALIZED

fun flag_value :: "InitFlag \<Rightarrow> u8" where
  "flag_value HAVE_CODE_BLOCK = push_bit 0 1"
| "flag_value HAVE_DATA_BLOCK = push_bit 1 1"
| "flag_value ISA_INITIALIZED = push_bit 2 1"
| "flag_value PC_INITIALIZED = push_bit 3 1"

definition ALL_FLAGS_MASK :: u8 where
  "ALL_FLAGS_MASK = flag_value HAVE_DATA_BLOCK OR flag_value HAVE_CODE_BLOCK
     OR flag_value ISA_INITIALIZED OR flag_value PC_INITIALIZED"

definition is_flag_set :: "'c basic_vm \<Rightarrow> InitFlag \<Rightarrow> bool" where
  "is_flag_set m flag \<longleftrightarrow> initFlags m AND flag_value flag \<noteq> 0"

definition set_flag :: "InitFlag \<Rightarrow> 'c basic_vm \<Rightarrow> 'c basic_vm" where
  "set_flag flag m = m\<lparr>initFlags := initFlags m OR flag_value flag\<rparr>"

definition clear_flag :: "InitFlag \<Rightarrow> 'c basic_vm \<Rightarrow> 'c basic_vm" where
  "clear_flag flag m = m\<lparr>initFlags := initFlags m AND NOT (flag_value flag)\<rparr>"

definition have_code_block :: "'c basic_vm \<Rightarrow> bool" where
  "have_code_block m = is_flag_set m HAVE_CODE_BLOCK"

definition have_data_block :: "'c basic_vm \<Rightarrow> bool" where
  "have_data_block m = is_flag_set m HAVE_DATA_BLOCK"

definition is_initialized :: "'c basic_vm \<Rightarrow> bool" where
  "is_initialized m \<longleftrightarrow> initFlags m = ALL_FLAGS_MASK"

section \<open>Registers and jumps\<close>

definition halt :: "('c basic_vm, unit) action" where
  "halt = modify (\<lambda>m. m\<lparr>running := False\<rparr>)"

definition set_register :: "register_no \<Rightarrow> register_t \<Rightarrow> ('c basic_vm, unit) action" where
  "set_register r val =
     (if r \<ge> register_count
      then throw (data_access_error (''register ID('' @ to_string (uint r) @ '') out of range''))
      else whenever (r > 0) (modify (\<lambda>m. m\<lparr>registers := (registers m)[unat r := val]\<rparr>)))"

definition get_register :: "register_no \<Rightarrow> 'c basic_vm \<Rightarrow> exn + register_t" where
  "get_register r m =
     (if r \<ge> register_count
      then Inl (data_access_error (''register ID('' @ to_string (uint r) @ '') out of range''))
      else if r > 0 then Inr (registers m ! unat r)
      else Inr 0)"

definition get_pc :: "'c basic_vm \<Rightarrow> register_t" where
  "get_pc m = registers m ! unat (reg_no Reg_pc)"

definition set_pc :: "register_t \<Rightarrow> ('c basic_vm, unit) action" where
  "set_pc val m =
     (if find_block (mmu m) val 4 = None
      then throw (code_access_error (''destination address '' @ to_hex val @ '' outside code region'')) m
      else modify (\<lambda>m. m\<lparr>registers := (registers m)[unat (reg_no Reg_pc) := val]\<rparr>) m)"

definition inc_pc :: "('c basic_vm, unit) action" where
  "inc_pc m = set_pc (get_pc m + 4) m"

definition jump_abs :: "address_t \<Rightarrow> ('c basic_vm, unit) action" where
  "jump_abs dest =
     (if dest mod 4 \<noteq> 0
      then throw (code_access_error
             (''destination address('' @ to_hex dest @ '') should be aligned by instruction size''))
      else set_pc dest)"

definition jump_to :: "offset_t \<Rightarrow> ('c basic_vm, unit) action" where
  "jump_to val m = (let dest = get_pc m + val in jump_abs dest m)"

definition jump_if :: "bool \<Rightarrow> offset_t \<Rightarrow> ('c basic_vm, unit) action" where
  "jump_if condition val = (if condition then jump_to val else inc_pc)"

definition jump_if_abs :: "bool \<Rightarrow> address_t \<Rightarrow> ('c basic_vm, unit) action" where
  "jump_if_abs condition val = (if condition then jump_abs val else inc_pc)"

section \<open>Memory access\<close>

text \<open>\<open>address % size\<close> with \<open>size\<close> = 0 divides by zero.\<close>

definition get_ptr_ro :: "address_t \<Rightarrow> u8 \<Rightarrow> 'c basic_vm \<Rightarrow> exn + memory_block option" where
  "get_ptr_ro address sz m =
     (if sz = 0 then Inl (undefined Division_By_Zero)
      else if address mod ucast sz \<noteq> 0
           then Inl (data_access_error (''address '' @ to_hex address @ '' is not aligned''))
      else Inr (find_block (mmu m) address (ucast sz)))"

definition get_ptr_rw :: "address_t \<Rightarrow> u8 \<Rightarrow> 'c basic_vm \<Rightarrow> exn + memory_block option" where
  "get_ptr_rw address sz m =
     (if sz = 0 then Inl (undefined Division_By_Zero)
      else if address mod ucast sz \<noteq> 0
           then Inl (data_access_error (''address '' @ to_hex address @ '' is not aligned''))
      else Inr (find_block (mmu m) address (ucast sz)))"

text \<open>Copying bytes over the first bytes of an integer leaves its other bytes as they were.\<close>

definition overlay :: "u8 list \<Rightarrow> register_t \<Rightarrow> register_t" where
  "overlay bytes val = (val AND NOT (mask (8 * length bytes))) OR le_word bytes"

definition read_memory :: "address_t \<Rightarrow> u8 \<Rightarrow> register_t \<Rightarrow> ('c basic_vm, register_t) action" where
  "read_memory from sz val =
     andThen (query (get_ptr_ro from sz)) (\<lambda>ptr.
     case ptr of
       None \<Rightarrow> throw (data_access_error (''load: address '' @ to_hex from @ '' out of range''))
     | Some b \<Rightarrow>
         if sz > 4 then throw (data_access_error ''load: size out of range'')
         else andThen (checked (block_load b from (ucast sz))) (\<lambda>ok.
              case ok of
                None \<Rightarrow> throw (data_access_error ''load: read error'')
              | Some bytes \<Rightarrow> ret (overlay bytes val)))"

definition write_memory :: "address_t \<Rightarrow> u8 \<Rightarrow> register_t \<Rightarrow> ('c basic_vm, unit) action" where
  "write_memory from sz val =
     (if sz = 0 \<or> sz > 4 then throw (data_access_error ''store: size out of range'')
      else andThen (query (get_ptr_rw from sz)) (\<lambda>ptr.
           case ptr of
             None \<Rightarrow> throw (data_access_error (''store: address '' @ to_hex from @ '' out of range''))
           | Some b \<Rightarrow>
               andThen (checked (block_store b from (le_bytes 4 val) (ucast sz))) (\<lambda>ok.
               case ok of
                 None \<Rightarrow> throw (data_access_error ''store: write error'')
               | Some b' \<Rightarrow> modify (\<lambda>m. m\<lparr>mmu := put_block b' (mmu m)\<rparr>))))"

section \<open>System functions\<close>

definition debug :: "('c basic_vm, unit) action" where
  "debug = ret ()"

definition control_get :: "address_t \<Rightarrow> ('c basic_vm, register_t) action" where
  "control_get csr_id = throw (control_access_error ''not supported'')"

definition control_set :: "address_t \<Rightarrow> register_t \<Rightarrow> ('c basic_vm, unit) action" where
  "control_set csr_id val = throw (control_access_error ''not supported'')"

definition barrier :: "('c basic_vm, unit) action" where
  "barrier = ret ()"

text \<open>\<open>syscalls.get_syscall_id(this)\<close> reads register \<open>a7\<close> through the virtual \<open>get_register\<close>.\<close>

definition syscall :: "('c \<Rightarrow> ('c basic_vm, unit) action) \<Rightarrow> ('c basic_vm, unit) action" where
  "syscall call =
     andThen (query (get_register (reg_no Reg_a7))) (\<lambda>syscall_id.
     andThen (query (\<lambda>m. Inr (find_syscall (syscalls m) syscall_id, syscall_throw_on_error m))) (\<lambda>(handler, strict).
     case handler of
       None \<Rightarrow> if \<not> strict then ret ()
               else throw (unknown_syscall (''unknown syscall #'' @ to_hex syscall_id))
     | Some h \<Rightarrow> call (callback h)))"

definition basic_machine ::
  "('c \<Rightarrow> ('c basic_vm, unit) action) \<Rightarrow> 'c basic_vm MachineInterface" where
  "basic_machine call =
     \<lparr>mi_halt = halt, mi_jump_abs = jump_abs, mi_jump_to = jump_to, mi_jump_if = jump_if,
      mi_jump_if_abs = jump_if_abs, mi_syscall = syscall call, mi_debug = debug,
      mi_control_get = control_get, mi_control_set = control_set, mi_barrier = barrier,
      mi_read_memory = read_memory, mi_write_memory = write_memory,
      mi_set_register = set_register, mi_get_register = get_register, mi_get_pc = get_pc\<rparr>"

section \<open>The emulation cycle\<close>

definition is_running :: "'c basic_vm \<Rightarrow> bool" where
  "is_running m = running m"

definition is_debugging_enabled :: "'c basic_vm \<Rightarrow> bool" where
  "is_debugging_enabled m = debugging m"

text \<open>
  \<open>get_current\<close> gives a pointer into memory. \<open>current_ptr\<close> is the pointer (\<open>None\<close> the null
  pointer); reading \<open>current->code\<close> reads the four bytes there. Calling a member function through a
  null block pointer is undefined behaviour.
\<close>

definition current_ptr :: "'c basic_vm \<Rightarrow> exn + u8 list option" where
  "current_ptr m =
     (case get_ptr_ro (get_pc m) 4 m of
        Inl e \<Rightarrow> Inl e
      | Inr None \<Rightarrow> Inl (undefined Null_Dereference)
      | Inr (Some b) \<Rightarrow> Inr (get_ro b (get_pc m) 4))"

definition get_current :: "'c basic_vm \<Rightarrow> exn + opcode_t option" where
  "get_current m =
     (case current_ptr m of
        Inl e \<Rightarrow> Inl e
      | Inr None \<Rightarrow> Inr None
      | Inr (Some p) \<Rightarrow> map_sum id Some (deref_u32 p))"

text \<open>
  The instruction a pointer fetched at address \<open>pc\<close> still points to, read again after the handler
  ran: a store may have changed it.
\<close>

definition code_at :: "address_t \<Rightarrow> 'c basic_vm \<Rightarrow> exn + opcode_t" where
  "code_at pc m =
     (case find_block (mmu m) pc 4 of
        None \<Rightarrow> Inl (undefined Null_Dereference)
      | Some b \<Rightarrow> (case get_ro b pc 4 of None \<Rightarrow> Inl (undefined Null_Dereference) | Some p \<Rightarrow> deref_u32 p))"

definition trace_before :: "'c basic_vm HandlerInterface \<Rightarrow> opcode_t \<Rightarrow> ('c basic_vm, unit) action" where
  "trace_before h code =
     andThen (query (\<lambda>m. Inr (get_pc m))) (\<lambda>pc.
     andThen (checked (disassemblyArgs h code)) (\<lambda>args.
     andThen (query (get_register (get_rd code))) (\<lambda>rd.
     andThen (query (get_register (get_rs1 code))) (\<lambda>rs1.
     andThen (query (get_register (get_rs2 code))) (\<lambda>rs2.
     modify (\<lambda>m. m\<lparr>trace := trace m @ [Trace_Before pc (mnemonic h) args rd rs1 rs2]\<rparr>))))))"

definition trace_after :: "address_t \<Rightarrow> ('c basic_vm, unit) action" where
  "trace_after pc =
     andThen (query (code_at pc)) (\<lambda>code.
     andThen (query (get_register (get_rd code))) (\<lambda>rd.
     andThen (query (get_register (get_rs1 code))) (\<lambda>rs1.
     andThen (query (get_register (get_rs2 code))) (\<lambda>rs2.
     modify (\<lambda>m. m\<lparr>trace := trace m @ [Trace_After rd rs1 rs2]\<rparr>)))))"

definition debug_print :: "('c basic_vm, unit) action \<Rightarrow> ('c basic_vm, unit) action" where
  "debug_print out m = whenever (is_debugging_enabled m) out m"

definition run_step :: "('c \<Rightarrow> ('c basic_vm, unit) action) \<Rightarrow> ('c basic_vm, unit) action" where
  "run_step call =
     andThen (query (\<lambda>m. Inr (get_pc m))) (\<lambda>pc.
     andThen (query get_current) (\<lambda>current.
     case current of
       None \<Rightarrow> throw (unknown_instruction (''unable fetch instruction from '' @ to_hex pc))
     | Some code \<Rightarrow>
         andThen (query (\<lambda>m. Inr (find_handler (opcodes m) code))) (\<lambda>handler.
         case handler of
           None \<Rightarrow> throw (unknown_instruction (''unable find handler for '' @ to_hex code))
         | Some c \<Rightarrow>
             andThen (debug_print (trace_before (vtable c) code)) (\<lambda>_.
             andThen (exec (vtable c) (basic_machine call) code) (\<lambda>_.
             andThen (debug_print (trace_after pc)) (\<lambda>_.
             whenever (\<not> skip (vtable c :: 'c basic_vm HandlerInterface)) inc_pc))))))"

text \<open>\<open>run\<close> may not return; \<open>None\<close> is an endless loop.\<close>

partial_function (option) run ::
  "('c \<Rightarrow> ('c basic_vm, unit) action) \<Rightarrow> 'c basic_vm \<Rightarrow> ((exn + unit) \<times> 'c basic_vm) option" where
  "run call m =
     (if is_running m
      then (case run_step call m of
              (Inl e, m') \<Rightarrow> Some (Inl e, m')
            | (Inr _, m') \<Rightarrow> run call m')
      else Some (Inr (), m))"

section \<open>Configuration\<close>

definition set_ro_size :: "size_t \<Rightarrow> 'c basic_vm \<Rightarrow> bool \<times> 'c basic_vm" where
  "set_ro_size sz m =
     (if is_flag_set m HAVE_CODE_BLOCK then (False, m) else (True, m\<lparr>ro_size := sz\<rparr>))"

definition set_rw_size :: "size_t \<Rightarrow> 'c basic_vm \<Rightarrow> bool \<times> 'c basic_vm" where
  "set_rw_size sz m =
     (if is_flag_set m HAVE_DATA_BLOCK then (False, m) else (True, m\<lparr>rw_size := sz\<rparr>))"

definition set_ro_base :: "address_t \<Rightarrow> 'c basic_vm \<Rightarrow> bool \<times> 'c basic_vm" where
  "set_ro_base base m = (if have_code_block m then (False, m) else (True, m\<lparr>code_base := base\<rparr>))"

definition set_rw_base :: "address_t \<Rightarrow> 'c basic_vm \<Rightarrow> bool \<times> 'c basic_vm" where
  "set_rw_base base m = (if have_data_block m then (False, m) else (True, m\<lparr>data_base := base\<rparr>))"

definition add_memory_block :: "memory_block \<Rightarrow> 'c basic_vm \<Rightarrow> bool \<times> 'c basic_vm" where
  "add_memory_block b m =
     (case add_block b (mmu m) of (ok, mem) \<Rightarrow> (ok, m\<lparr>mmu := mem\<rparr>))"

text \<open>The \<open>size_t\<close> is converted to the 32-bit \<open>size_type\<close> of the block's constructor.\<close>

definition add_memory :: "address_t \<Rightarrow> size_t \<Rightarrow> 'c basic_vm \<Rightarrow> bool \<times> 'c basic_vm" where
  "add_memory address sz m = add_memory_block (generic_memory address (ucast sz)) m"

definition add_code_block :: "address_t \<Rightarrow> size_t \<Rightarrow> 'c basic_vm \<Rightarrow> bool \<times> 'c basic_vm" where
  "add_code_block address sz m =
     (if have_code_block m then (False, m)
      else case add_memory address sz m of
             (False, m') \<Rightarrow> (False, m')
           | (True, m') \<Rightarrow> (True, set_flag HAVE_CODE_BLOCK m'))"

definition add_data_block :: "address_t \<Rightarrow> size_t \<Rightarrow> 'c basic_vm \<Rightarrow> bool \<times> 'c basic_vm" where
  "add_data_block address sz m =
     (if have_data_block m then (False, m)
      else case add_memory address sz m of
             (False, m') \<Rightarrow> (False, m')
           | (True, m') \<Rightarrow> (True, set_flag HAVE_DATA_BLOCK m'))"

definition init_memory_sizes :: "size_t \<Rightarrow> size_t \<Rightarrow> 'c basic_vm \<Rightarrow> bool \<times> 'c basic_vm" where
  "init_memory_sizes code_size data_size m =
     (let (ro_ok, m) = set_ro_size code_size m;
          (rw_ok, m) = set_rw_size data_size m;
          mem_ok = (ro_ok \<and> rw_ok);
          (code_ok, m) = add_code_block (code_base m) (ro_size m) m;
          mem_ok = (mem_ok \<and> code_ok);
          (data_ok, m) = add_data_block (data_base m) (rw_size m) m;
          mem_ok = (mem_ok \<and> data_ok)
      in (mem_ok, m))"

definition init_memory :: "'c basic_vm \<Rightarrow> bool \<times> 'c basic_vm" where
  "init_memory = init_memory_sizes def_code_size def_data_size"

definition init_isa :: "'c basic_vm \<Rightarrow> bool \<times> 'c basic_vm" where
  "init_isa m =
     (let (rv32i_ok, r) = register_rv32i_set (opcodes m);
          (rv32m_ok, r) = register_rv32m_set r;
          m = m\<lparr>opcodes := r\<rparr>;
          isa_ok = (rv32i_ok \<and> rv32m_ok)
      in (isa_ok, if isa_ok then set_flag ISA_INITIALIZED m else m))"

definition init_pc :: "address_t \<Rightarrow> 'c basic_vm \<Rightarrow> bool \<times> 'c basic_vm" where
  "init_pc address m =
     (if is_flag_set m PC_INITIALIZED then (False, m)
      else (True, set_flag PC_INITIALIZED (m\<lparr>initial_pc := address\<rparr>)))"

definition enable_debugging :: "bool \<Rightarrow> 'c basic_vm \<Rightarrow> 'c basic_vm" where
  "enable_debugging enable m = m\<lparr>debugging := enable\<rparr>"

definition syscall_should_throw :: "bool \<Rightarrow> 'c basic_vm \<Rightarrow> 'c basic_vm" where
  "syscall_should_throw enable m = m\<lparr>syscall_throw_on_error := enable\<rparr>"

definition get_syscalls :: "'c basic_vm \<Rightarrow> 'c syscall_registry" where
  "get_syscalls m = syscalls m"

definition start :: "('c basic_vm, unit) action" where
  "start =
     andThen (modify (\<lambda>m. m\<lparr>registers := replicate (length (registers m)) 0\<rparr>)) (\<lambda>_.
     andThen (query (\<lambda>m. Inr (initial_pc m))) (\<lambda>pc.
     andThen (set_pc pc) (\<lambda>_.
     modify (\<lambda>m. m\<lparr>running := is_initialized m\<rparr>))))"

section \<open>Loading a program\<close>

definition set_program_bin :: "program_code_t \<Rightarrow> address_t \<Rightarrow> ('c basic_vm, bool) action" where
  "set_program_bin bin pc_value m =
     (if \<not> have_code_block m then ret False m
      else case init_pc pc_value m of
             (False, m) \<Rightarrow> ret False m
           | (True, m) \<Rightarrow>
               (let sz = of_nat (length bin) in
                case find_block (mmu m) (code_base m) sz of
                  None \<Rightarrow> ret False m
                | Some code \<Rightarrow>
                    (case block_store code (code_base m) bin sz of
                       Inl e \<Rightarrow> throw e m
                     | Inr None \<Rightarrow> ret False m
                     | Inr (Some b) \<Rightarrow> ret True (m\<lparr>mmu := put_block b (mmu m)\<rparr>))))"

text \<open>
  A data record. \<open>empty_null\<close> says whether \<open>data()\<close> of an empty vector is a null pointer, which the
  standard leaves open.
\<close>

definition load_data_record :: "bool \<Rightarrow> address_t \<Rightarrow> u8 list \<Rightarrow> ('c basic_vm, bool) action" where
  "load_data_record empty_null address bytes m =
     (let sz = of_nat (length bytes) in
      case find_block (mmu m) address sz of
        None \<Rightarrow> ret False m
      | Some b \<Rightarrow>
          if bytes = [] \<and> empty_null then ret False m
          else (case block_store b address bytes sz of
                  Inl e \<Rightarrow> throw e m
                | Inr None \<Rightarrow> ret False m
                | Inr (Some b') \<Rightarrow> ret True (m\<lparr>mmu := put_block b' (mmu m)\<rparr>)))"

fun load_records ::
  "bool \<Rightarrow> hex_record list \<Rightarrow> address_t \<Rightarrow> address_t \<Rightarrow> ('c basic_vm, bool) action" where
  "load_records empty_null [] offs pc_value m = ret False m"
| "load_records empty_null (r # rs) offs pc_value m =
     (if \<not> is_valid r then ret False m
      else case get_type r of
             HEX_DATA \<Rightarrow>
               (case load_data_record empty_null (offs + ucast (rec_offset r)) (rec_data r) m of
                  (Inl e, m) \<Rightarrow> (Inl e, m)
                | (Inr False, m) \<Rightarrow> ret False m
                | (Inr True, m) \<Rightarrow> load_records empty_null rs offs pc_value m)
           | HEX_EOF \<Rightarrow> (case init_pc pc_value m of (ok, m) \<Rightarrow> ret ok m)
           | HEX_SEGMENT_START \<Rightarrow> load_records empty_null rs offs (get_start r) m
           | HEX_LINEAR_START \<Rightarrow> load_records empty_null rs offs (get_start r) m
           | HEX_SEGMENT_EXTEND \<Rightarrow> load_records empty_null rs (get_extend r) pc_value m
           | HEX_LINEAR_EXTEND \<Rightarrow> load_records empty_null rs (get_extend r) pc_value m
           | HEX_UNKNOWN \<Rightarrow> ret False m)"

definition set_program_hex :: "bool \<Rightarrow> hex_record list \<Rightarrow> ('c basic_vm, bool) action" where
  "set_program_hex empty_null hex m =
     (if \<not> have_code_block m then ret False m
      else if is_flag_set m PC_INITIALIZED then ret False m
      else load_records empty_null hex 0 0 m)"

section \<open>The contract with the handlers\<close>

text \<open>
  The registers are the 32 of the architecture and the program counter, register 0 holds 0, and the
  memory blocks are apart.
\<close>

definition vm_ok :: "'c basic_vm \<Rightarrow> bool" where
  "vm_ok m \<longleftrightarrow> length (registers m) = 33 \<and> registers m ! 0 = 0 \<and> mmu_ok (mmu m)"

definition reg_value :: "'c basic_vm \<Rightarrow> register_no \<Rightarrow> register_t" where
  "reg_value m r = (if r < register_count then registers m ! unat r else 0)"

text \<open>Everything but these registers: the other fields and the program counter.\<close>

definition vm_rest :: "'c basic_vm \<Rightarrow> 'c basic_vm \<times> register_t" where
  "vm_rest m = (m\<lparr>registers := []\<rparr>, get_pc m)"

lemma register_count_index [simp]: "unat register_count = 32"
  by (simp add: register_count_def)

lemma reg_less: "r < register_count \<longleftrightarrow> unat r < 32"
  by (simp add: register_count_def word_less_nat_alt)

lemma basic_machine_sel [simp]:
  "mi_halt (basic_machine call) = halt" "mi_jump_abs (basic_machine call) = jump_abs"
  "mi_jump_to (basic_machine call) = jump_to" "mi_jump_if (basic_machine call) = jump_if"
  "mi_jump_if_abs (basic_machine call) = jump_if_abs" "mi_syscall (basic_machine call) = syscall call"
  "mi_debug (basic_machine call) = debug" "mi_control_get (basic_machine call) = control_get"
  "mi_control_set (basic_machine call) = control_set" "mi_barrier (basic_machine call) = barrier"
  "mi_read_memory (basic_machine call) = read_memory" "mi_write_memory (basic_machine call) = write_memory"
  "mi_set_register (basic_machine call) = set_register" "mi_get_register (basic_machine call) = get_register"
  "mi_get_pc (basic_machine call) = get_pc"
  by (simp_all add: basic_machine_def)

lemma set_register_small:
  "r < register_count \<Longrightarrow> set_register r v m
    = (Inr (), if r = 0 then m else m\<lparr>registers := (registers m)[unat r := v]\<rparr>)"
  by (auto simp: set_register_def action_simps word_gt_0)

lemma get_register_small: "vm_ok m \<Longrightarrow> r < register_count \<Longrightarrow> get_register r m = Inr (reg_value m r)"
  by (auto simp: get_register_def reg_value_def vm_ok_def word_gt_0)

lemma find_block_small: "unat (ucast (sz :: u8) :: u32) = unat sz"
  by (simp add: unsigned_ucast_eq take_bit_nat_eq_self unsigned_less [THEN less_le_trans])

lemma read_memory_length:
  assumes "block_load b a n = Inr (Some bytes)"
  shows "length bytes \<le> unat n"
  using assms by (auto simp: block_load_def Let_def split: if_splits)

lemma le_word_small: "length bytes \<le> n \<Longrightarrow> take_bit (8 * n) (le_word bytes) = le_word bytes"
  by (rule bit_word_eqI) (auto simp: bit_simps bit_le_word)

interpretation basic: loading_machine "basic_machine call" vm_ok reg_value vm_rest snd
  for call :: "'c \<Rightarrow> ('c basic_vm, unit) action"
proof unfold_locales
  fix m :: "'c basic_vm" and r
  assume ok: "vm_ok m"
  show "reg_value m 0 = 0" using ok by (simp add: reg_value_def vm_ok_def)
  show "mi_get_pc (basic_machine call) m = snd (vm_rest m)" by (simp add: vm_rest_def)
  fix v
  assume r: "r < register_count"
  show "mi_get_register (basic_machine call) r m = Inr (reg_value m r)"
    using ok r by (simp add: get_register_small)
  show "fst (mi_set_register (basic_machine call) r v m) = Inr ()"
    using r by (simp add: set_register_small)
  show "vm_ok (snd (mi_set_register (basic_machine call) r v m))"
    using ok r by (auto simp: set_register_small vm_ok_def nth_list_update unat_eq_zero)
  show "vm_rest (snd (mi_set_register (basic_machine call) r v m)) = vm_rest m"
    using r by (auto simp: set_register_small vm_rest_def get_pc_def reg_less)
  fix q
  assume "q < register_count"
  then show "reg_value (snd (mi_set_register (basic_machine call) r v m)) q
      = (if q = r \<and> r \<noteq> 0 then v else reg_value m q)"
    using ok r by (auto simp: set_register_small reg_value_def vm_ok_def reg_less nth_list_update word_unat_eq_iff)
next
  fix m :: "'c basic_vm" and a n w m'
  assume "mi_read_memory (basic_machine call) a n 0 m = (Inr w, m')"
  then obtain bytes b where "block_load b a (ucast n) = Inr (Some bytes)" and w: "w = le_word bytes"
    by (auto simp: read_memory_def action_simps overlay_def split: option.splits sum.splits if_splits)
  then have "length bytes \<le> unat n" using read_memory_length find_block_small by fastforce
  then show "take_bit (8 * unat n) w = w" unfolding w by (rule le_word_small)
qed

end
