(* ===== verification/VM_Refinement.thy ===== *)
theory VM_Refinement
  imports Basic_VM
begin

text \<open>
  \<open>basic_vm\<close> refines the abstract machine of theory \<open>ISA_Spec\<close>: the abstraction of a machine state, a
  rule for each action the handlers use, and the refinement of one emulation step. The handlers come in
  through the interpretation of \<open>loading_machine\<close> on \<open>basic_machine\<close>.
\<close>

section \<open>The abstraction of a machine\<close>

definition abs_vm :: "'c basic_vm \<Rightarrow> arch" where
  "abs_vm m = \<lparr>arch_x = reg_value m, arch_pc = get_pc m, arch_mem = mmu_byte (mmu m),
     arch_mapped = mmu_covers (mmu m)\<rparr>"

text \<open>What an instruction leaves alone: all fields but the registers, the memory and the trace.\<close>

definition frame :: "'c basic_vm \<Rightarrow> 'c basic_vm" where
  "frame m = m\<lparr>registers := [], mmu := [], trace := []\<rparr>"

fun outcome :: "exn + unit \<Rightarrow> trap option \<Rightarrow> bool" where
  "outcome (Inr _) t \<longleftrightarrow> t = None"
| "outcome (Inl (code_access_error _)) t \<longleftrightarrow> t = Some Bad_Jump"
| "outcome (Inl (data_access_error _)) t \<longleftrightarrow> t = Some Bad_Access"
| "outcome (Inl _) t \<longleftrightarrow> False"

text \<open>An action from state \<open>m\<close> ends as the abstract machine does, in the state and in the outcome.\<close>

definition realises :: "('c basic_vm, unit) action \<Rightarrow> 'c basic_vm \<Rightarrow> trap option \<times> arch \<Rightarrow> bool" where
  "realises f m res \<longleftrightarrow> outcome (fst (f m)) (fst res) \<and> vm_ok (snd (f m)) \<and> abs_vm (snd (f m)) = snd res
     \<and> frame (snd (f m)) = frame m"

lemma realisesI:
  assumes "f m = (r, m')" and "outcome r t" and "vm_ok m'" and "abs_vm m' = a" and "frame m' = frame m"
  shows "realises f m (t, a)"
  using assms by (simp add: realises_def)

lemma realises_andThen:
  assumes "realises f m (None, a)"
    and "\<And>m1. vm_ok m1 \<Longrightarrow> abs_vm m1 = a \<Longrightarrow> frame m1 = frame m \<Longrightarrow> realises (g ()) m1 res"
  shows "realises (andThen f g) m res"
proof -
  obtain r m1 where f: "f m = (r, m1)" by (cases "f m")
  with assms(1) have r: "outcome r None" and m1: "vm_ok m1" "abs_vm m1 = a" "frame m1 = frame m"
    by (simp_all add: realises_def)
  from r have "r = Inr ()" by (cases "(r, None :: trap option)" rule: outcome.cases) auto
  with f assms(2) [OF m1] m1 show ?thesis by (simp add: realises_def andThen_def)
qed

lemma realises_andThen_trap:
  assumes "realises f m (Some t, a)"
  shows "realises (andThen f g) m (Some t, a)"
proof -
  obtain r m1 where f: "f m = (r, m1)" by (cases "f m")
  with assms have "outcome r (Some t)" by (simp add: realises_def)
  then obtain e where "r = Inl e" by (cases r) auto
  with f assms show ?thesis by (simp add: realises_def andThen_def)
qed

lemma realises_set_register:
  assumes "vm_ok m" and "r < register_count"
  shows "realises (set_register r v) m (None, arch_write r v (abs_vm m))"
proof -
  let ?m = "snd (set_register r v m)"
  have ok: "vm_ok ?m" and rest: "vm_rest ?m = vm_rest m"
    using basic.set_register_good [OF assms] basic.set_register_rest [OF assms] by simp_all
  from rest have "frame ?m = frame m" "get_pc ?m = get_pc m" "mmu ?m = mmu m"
    by (auto simp: set_register_small [OF assms(2)] frame_def vm_rest_def)
  moreover have "reg_value ?m = arch_x (arch_write r v (abs_vm m))"
  proof
    fix q
    show "reg_value ?m q = arch_x (arch_write r v (abs_vm m)) q"
      using basic.set_register_reg [OF assms, of q] assms(2)
      by (cases "q < register_count") (auto simp: arch_write_def abs_vm_def reg_value_def)
  qed
  ultimately show ?thesis
    using ok assms(2) by (simp add: realises_def set_register_small abs_vm_def arch_write_def)
qed

lemma set_pc_state:
  assumes "vm_ok m" and m': "m' = m\<lparr>registers := (registers m)[32 := v]\<rparr>"
  shows "vm_ok m'" "abs_vm m' = (abs_vm m)\<lparr>arch_pc := v\<rparr>" "frame m' = frame m"
  using assms
  by (auto simp: vm_ok_def abs_vm_def frame_def reg_value_def reg_less get_pc_def fun_eq_iff)

lemma realises_set_pc:
  assumes "vm_ok m"
  shows "realises (set_pc v) m (arch_at v (abs_vm m))"
proof (cases "mmu_covers (mmu m) v 4")
  case True
  then obtain b where "find_block (mmu m) v 4 = Some b"
    using assms find_block_None_iff [of "mmu m" 4 v] by (auto simp: vm_ok_def)
  then have "set_pc v m = (Inr (), m\<lparr>registers := (registers m)[32 := v]\<rparr>)"
    by (simp add: set_pc_def modify_def)
  moreover have "arch_at v (abs_vm m) = (None, (abs_vm m)\<lparr>arch_pc := v\<rparr>)"
    using True by (simp add: arch_at_def abs_vm_def)
  ultimately show ?thesis using set_pc_state [OF assms refl, of v] by (simp add: realises_def)
next
  case False
  then have "find_block (mmu m) v 4 = None"
    using assms find_block_None_iff [of "mmu m" 4 v] by (simp add: vm_ok_def)
  with False assms show ?thesis
    by (simp add: realises_def set_pc_def throw_def arch_at_def) (simp add: abs_vm_def)
qed

lemma realises_inc_pc: "vm_ok m \<Longrightarrow> realises inc_pc m (arch_next (abs_vm m))"
  using realises_set_pc [of m "get_pc m + 4"]
  by (simp add: realises_def inc_pc_def arch_next_def) (simp add: abs_vm_def)

lemma realises_jump_abs: "vm_ok m \<Longrightarrow> realises (jump_abs v) m (arch_goto v (abs_vm m))"
  using realises_set_pc [of m v] by (simp add: realises_def jump_abs_def arch_goto_def throw_def)

lemma realises_jump_to: "vm_ok m \<Longrightarrow> realises (jump_to v) m (arch_goto (arch_pc (abs_vm m) + v) (abs_vm m))"
  using realises_jump_abs [of m "get_pc m + v"]
  by (simp add: realises_def jump_to_def Let_def) (simp add: abs_vm_def)


section \<open>Memory accesses\<close>

lemma ucast_of_nat_size: "n \<in> {1, 2, 4} \<Longrightarrow> ucast (of_nat n :: u8) = (of_nat n :: u32)"
  by auto

lemma find_block_load:
  assumes "mmu_ok mem" and "find_block mem a n = Some b" and "unat n \<le> 256"
  shows "block_load b a n = Inr (Some (map (\<lambda>i. mmu_byte mem (a + of_nat i)) [0..<unat n]))"
  using mmu.ld_covered [OF assms(1), of a n] assms find_block_iff [OF assms(1,3), of a b]
  by (auto simp: mmu_load_def mmu_covers_def)

lemma find_block_store:
  assumes "mmu_ok mem" and "find_block mem a n = Some b" and "unat n \<le> 256" and "unat n \<le> length bs"
  shows "\<exists>b'. block_store b a bs n = Inr (Some b') \<and> mmu_ok (put_block b' mem)
    \<and> mmu_covers (put_block b' mem) = mmu_covers mem
    \<and> mmu_byte (put_block b' mem) = (\<lambda>x. if in_area a n x then bs ! unat (x - a) else mmu_byte mem x)"
proof -
  have "mmu_covers mem a n" using assms(2) find_block_iff [OF assms(1,3), of a b] by (auto simp: mmu_covers_def)
  from mmu_store_covered [OF assms(1) this assms(4)] assms(2) show ?thesis
    by (cases "block_store b a bs n") (auto simp: mmu_store_def)
qed

lemma read_memory_eq:
  assumes ok: "vm_ok m" and n: "n \<in> {1, 2, 4}"
  shows "if arch_access a n (abs_vm m)
    then read_memory a (of_nat n) 0 m = (Inr (arch_load a n (abs_vm m)), m)
    else \<exists>msg. read_memory a (of_nat n) 0 m = (Inl (data_access_error msg), m)"
proof -
  let ?n = "of_nat n :: u32"
  have size: "(of_nat n :: u8) \<noteq> 0" "\<not> (of_nat n :: u8) > 4" "unat ?n = n" "n \<le> 256"
    using n by auto
  note n' = ucast_of_nat_size [OF n]
  have mem: "mmu_ok (mmu m)" using ok by (simp add: vm_ok_def)
  show ?thesis
  proof (cases "a mod ?n = 0")
    case False
    with size show ?thesis
      by (simp add: arch_access_def read_memory_def get_ptr_ro_def action_simps n')
  next
    case True
    show ?thesis
    proof (cases "find_block (mmu m) a ?n")
      case None
      then have "\<not> arch_access a n (abs_vm m)"
        using find_block_None_iff [OF mem, of ?n a] size by (simp add: arch_access_def abs_vm_def)
      with None True size show ?thesis
        by (simp add: read_memory_def get_ptr_ro_def action_simps n')
    next
      case (Some b)
      then have "arch_access a n (abs_vm m)"
        using find_block_None_iff [OF mem, of ?n a] size True by (simp add: arch_access_def abs_vm_def)
      moreover have "block_load b a ?n = Inr (Some (arch_bytes a n (abs_vm m)))"
        using find_block_load [OF mem Some] size by (simp add: arch_bytes_def abs_vm_def)
      ultimately show ?thesis
        using True Some size
        by (simp add: read_memory_def get_ptr_ro_def action_simps n' overlay_def arch_load_def)
    qed
  qed
qed

lemma write_memory_refused:
  assumes ok: "vm_ok m" and n: "n \<in> {1, 2, 4}" and acc: "\<not> arch_access a n (abs_vm m)"
  shows "\<exists>msg. write_memory a (of_nat n) v m = (Inl (data_access_error msg), m)"
proof -
  let ?n = "of_nat n :: u32"
  have size: "(of_nat n :: u8) \<noteq> 0" "\<not> (of_nat n :: u8) > 4" "unat ?n = n" "n \<le> 256" using n by auto
  have "mmu_ok (mmu m)" using ok by (simp add: vm_ok_def)
  with acc size have "a mod ?n \<noteq> 0 \<or> find_block (mmu m) a ?n = None"
    by (auto simp: arch_access_def abs_vm_def find_block_None_iff)
  with size show ?thesis
    by (auto simp: write_memory_def get_ptr_rw_def action_simps ucast_of_nat_size [OF n])
qed

lemma realises_write_memory:
  assumes ok: "vm_ok m" and n: "n \<in> {1, 2, 4}"
  shows "realises (write_memory a (of_nat n) v) m
    (if arch_access a n (abs_vm m)
     then (None, arch_store a n v (abs_vm m))
     else (Some Bad_Access, abs_vm m))"
proof -
  let ?n = "of_nat n :: u32"
  have size: "(of_nat n :: u8) \<noteq> 0" "\<not> (of_nat n :: u8) > 4" "unat ?n = n" "n \<le> 256" "n \<le> 4"
    using n by auto
  note n' = ucast_of_nat_size [OF n]
  have mem: "mmu_ok (mmu m)" using ok by (simp add: vm_ok_def)
  show ?thesis
  proof (cases "arch_access a n (abs_vm m)")
    case False
    with write_memory_refused [OF assms False, of v] ok show ?thesis by (auto intro: realisesI)
  next
    case acc: True
    then have True: "a mod ?n = 0" by (simp add: arch_access_def)
    obtain b where b: "find_block (mmu m) a ?n = Some b"
      using find_block_None_iff [OF mem, of ?n a] size acc by (auto simp: arch_access_def abs_vm_def)
    from find_block_store [OF mem b, of "le_bytes 4 v"] size obtain b' where
      st: "block_store b a (le_bytes 4 v) ?n = Inr (Some b')" and
      m': "mmu_ok (put_block b' (mmu m))" "mmu_covers (put_block b' (mmu m)) = mmu_covers (mmu m)"
        "mmu_byte (put_block b' (mmu m)) =
          (\<lambda>x. if in_area a ?n x then le_bytes 4 v ! unat (x - a) else mmu_byte (mmu m) x)"
      by auto
    have "write_memory a (of_nat n) v m = (Inr (), m\<lparr>mmu := put_block b' (mmu m)\<rparr>)"
      using True b st size by (simp add: write_memory_def get_ptr_rw_def action_simps n')
    then show ?thesis
      using acc m' ok
      by (simp add: realises_def)
        (simp add: arch_store_def vm_ok_def abs_vm_def frame_def reg_value_def get_pc_def fun_eq_iff)
  qed
qed


section \<open>One instruction\<close>

fun effect_ok :: "effect \<Rightarrow> bool" where
  "effect_ok (Set_Reg r v) \<longleftrightarrow> r < register_count"
| "effect_ok (Load_To r ad n sext) \<longleftrightarrow> r < register_count \<and> n \<in> {1, 2, 4}"
| "effect_ok (Store_At ad n v) \<longleftrightarrow> n \<in> {1, 2, 4}"
| "effect_ok (Jump_By r link offs) \<longleftrightarrow> r < register_count"
| "effect_ok (Jump_At r link dest) \<longleftrightarrow> r < register_count"
| "effect_ok (Branch_If b offs) \<longleftrightarrow> True"
| "effect_ok No_Effect \<longleftrightarrow> True"
| "effect_ok System \<longleftrightarrow> True"

lemma isa_effect_ok: "effect_ok (isa_effect c w x pc)"
  using reg_field_small by (cases c) (simp_all add: register_count_def)

lemma realises_read:
  assumes ok: "vm_ok m" and n: "n \<in> {1, 2, 4}" and r: "r < register_count"
  shows "realises (andThen (read_memory ad (of_nat n) 0) (\<lambda>v. set_register r (f v))) m
    (if arch_access ad n (abs_vm m) then (None, arch_write r (f (arch_load ad n (abs_vm m))) (abs_vm m))
     else (Some Bad_Access, abs_vm m))"
proof (cases "arch_access ad n (abs_vm m)")
  case True
  then have "read_memory ad (of_nat n) 0 m = (Inr (arch_load ad n (abs_vm m)), m)"
    using read_memory_eq [OF ok n, of ad] by simp
  then show ?thesis
    using True realises_set_register [OF ok r, of "f (arch_load ad n (abs_vm m))"]
    by (simp add: realises_def andThen_def)
next
  case False
  then obtain msg where "read_memory ad (of_nat n) 0 m = (Inl (data_access_error msg), m)"
    using read_memory_eq [OF ok n, of ad] by auto
  with False ok show ?thesis by (simp add: realises_def andThen_def)
qed

lemma realises_link:
  assumes ok: "vm_ok m" and r: "r < register_count"
    and jump: "\<And>m1. vm_ok m1 \<Longrightarrow> abs_vm m1 = arch_write r link (abs_vm m) \<Longrightarrow> realises f m1 res"
  shows "realises (andThen (set_register r link) (\<lambda>_. f)) m res"
  by (rule realises_andThen [OF realises_set_register [OF ok r]]) (rule jump)

lemma arch_pc_write [simp]: "arch_pc (arch_write r v a) = arch_pc a"
  by (simp add: arch_write_def)

lemma realises_perform:
  assumes ok: "vm_ok m" and eff: "effect_ok eff" and sys: "eff \<noteq> System"
  shows "realises (perform (basic_machine call) eff) m (arch_perform eff (abs_vm m))"
proof (cases eff)
  case (Set_Reg r v)
  with ok eff show ?thesis by (simp add: realises_set_register)
next
  case (Load_To r ad n sext)
  with ok eff show ?thesis
    using realises_read [OF ok, of n r ad "\<lambda>v. if sext then signed_take_bit (8 * n - 1) v else v"]
    by (simp add: Let_def split del: if_split)
next
  case (Store_At ad n v)
  with ok eff show ?thesis using realises_write_memory [OF ok, of n ad v] by simp
next
  case (Branch_If b offs)
  with ok show ?thesis using realises_jump_to [OF ok, of offs] realises_inc_pc [OF ok]
    by (simp add: jump_if_def)
next
  case (Jump_By r link offs)
  have "realises (jump_to offs) m1 (arch_goto (arch_pc (abs_vm m) + offs) (arch_write r link (abs_vm m)))"
    if "vm_ok m1" and "abs_vm m1 = arch_write r link (abs_vm m)" for m1 :: "'a basic_vm"
    using realises_jump_to [OF that(1), of offs] by (simp add: that(2))
  with ok eff Jump_By show ?thesis by (auto intro!: realises_link)
next
  case (Jump_At r link dest)
  have "realises (jump_abs dest) m1 (arch_goto dest (arch_write r link (abs_vm m)))"
    if "vm_ok m1" and "abs_vm m1 = arch_write r link (abs_vm m)" for m1 :: "'a basic_vm"
    using realises_jump_abs [OF that(1), of dest] by (simp add: that(2))
  with ok eff Jump_At show ?thesis by (auto intro!: realises_link)
next
  case No_Effect
  with ok show ?thesis by (simp add: realises_def barrier_def ret_def)
next
  case System
  with sys show ?thesis by simp
qed


section \<open>Fetch\<close>

lemma get_ro_covers:
  assumes "block_ok b" and "covers b a 4"
  shows "\<exists>p. get_ro b a 4 = Some p \<and> deref_u32 p = Inr (le_word (map (\<lambda>i. block_byte b (a + of_nat i)) [0..<4]))"
proof -
  let ?o = "unat (offset (block_params b) a)"
  have len: "?o + 4 \<le> length (block_data b)" using covered_offsets(1) [OF assms(2,1)] by simp
  have "block_load b a 4 = Inr (Some (take 4 (drop ?o (block_data b))))"
    using covers_in_range [OF assms(2)] len by (simp add: block_load_def Let_def)
  with block_load_covered [OF assms]
  have "take 4 (drop ?o (block_data b)) = map (\<lambda>i. block_byte b (a + of_nat i)) [0..<4]" by simp
  then show ?thesis using covers_in_range [OF assms(2)] len by (simp add: get_ro_def deref_u32_def)
qed

lemma find_block_fetch:
  assumes "mmu_ok mem" and "find_block mem a 4 = Some b"
  shows "\<exists>p. get_ro b a 4 = Some p \<and> deref_u32 p = Inr (le_word (map (\<lambda>i. mmu_byte mem (a + of_nat i)) [0..<4]))"
proof -
  have b: "b \<in> set mem" and c: "covers b a 4" using find_block_iff [OF assms(1), of 4 a b] assms(2) by simp_all
  then have ok: "block_ok b" and fits: "block_fits b" using assms(1) by (simp_all add: mmu_ok_def)
  have eq: "map (\<lambda>i. mmu_byte mem (a + of_nat i)) [0..<4] = map (\<lambda>i. block_byte b (a + of_nat i)) [0..<4]"
    using mmu_byte_block [OF assms(1) b covers_address [OF fits c]] by simp
  show ?thesis using get_ro_covers [OF ok c] by (simp only: eq)
qed

definition arch_fetch :: "arch \<Rightarrow> u32" where
  "arch_fetch a = arch_load (arch_pc a) 4 a"

lemma get_current_eq:
  assumes "vm_ok m"
  shows "if arch_access (get_pc m) 4 (abs_vm m) then get_current m = Inr (Some (arch_fetch (abs_vm m)))
    else if get_pc m mod 4 = 0 then get_current m = Inl (undefined Null_Dereference)
    else \<exists>msg. get_current m = Inl (data_access_error msg)"
proof -
  have mem: "mmu_ok (mmu m)" using assms by (simp add: vm_ok_def)
  show ?thesis
  proof (cases "find_block (mmu m) (get_pc m) 4")
    case None
    then have "\<not> mmu_covers (mmu m) (get_pc m) 4" using find_block_None_iff [OF mem, of 4] by simp
    with None show ?thesis
      by (simp add: arch_access_def abs_vm_def get_current_def current_ptr_def get_ptr_ro_def)
  next
    case (Some b)
    then have "mmu_covers (mmu m) (get_pc m) 4" using find_block_None_iff [OF mem, of 4] by force
    with Some find_block_fetch [OF mem Some] show ?thesis
      by (auto simp: arch_access_def abs_vm_def get_current_def current_ptr_def get_ptr_ro_def
        arch_fetch_def arch_load_def arch_bytes_def)
  qed
qed

lemma code_at_eq:
  assumes "vm_ok m" and "mmu_covers (mmu m) pc 4"
  shows "\<exists>code. code_at pc m = Inr code"
proof -
  have mem: "mmu_ok (mmu m)" using assms by (simp add: vm_ok_def)
  then obtain b where "find_block (mmu m) pc 4 = Some b"
    using assms(2) find_block_None_iff [OF mem, of 4 pc] by auto
  then show ?thesis using find_block_fetch [OF mem, of pc b] by (auto simp: code_at_def)
qed

section \<open>The debug trace\<close>

lemma disassembly_total: "\<exists>s. disassemblyArgs (vtable c :: 'm HandlerInterface) code = Inr s"
  by (cases c; simp add: handler_class_defs GenericHandler_def get_bits_at_def bit_count_def promoted_bits_def)

lemma decoded_register: "vm_ok m \<Longrightarrow> \<exists>v. get_register (get_rd code) m = Inr v"
  "vm_ok m \<Longrightarrow> \<exists>v. get_register (get_rs1 code) m = Inr v"
  "vm_ok m \<Longrightarrow> \<exists>v. get_register (get_rs2 code) m = Inr v"
  using reg_field_small by (simp_all add: get_register_small reg_fields register_count_def)

lemma trace_state [simp]:
  "vm_ok (m\<lparr>trace := t\<rparr>) = vm_ok m" "abs_vm (m\<lparr>trace := t\<rparr>) = abs_vm m" "frame (m\<lparr>trace := t\<rparr>) = frame m"
  by (auto simp: vm_ok_def abs_vm_def frame_def get_pc_def reg_value_def fun_eq_iff)

lemma realises_trace_before:
  assumes "vm_ok m"
  shows "realises (debug_print (trace_before (vtable c) code)) m (None, abs_vm m)"
proof -
  obtain s where "disassemblyArgs (vtable c :: 'a basic_vm HandlerInterface) code = Inr s"
    using disassembly_total by blast
  then show ?thesis
    using assms decoded_register [OF assms, of code]
    by (auto simp: realises_def debug_print_def trace_before_def action_simps)
qed

lemma realises_trace_after:
  assumes "vm_ok m" and "mmu_covers (mmu m) pc 4"
  shows "realises (debug_print (trace_after pc)) m (None, abs_vm m)"
proof -
  obtain code where "code_at pc m = Inr code" using code_at_eq [OF assms] by blast
  then show ?thesis
    using assms decoded_register [OF assms(1), of code]
    by (auto simp: realises_def debug_print_def trace_after_def action_simps)
qed

section \<open>A step of the machine\<close>

lemma skip_advances: "skip (vtable c :: 'm HandlerInterface) \<longleftrightarrow> \<not> advances (isa_effect c w x pc)"
  by (cases c; simp add: handler_class_defs GenericHandler_def)

lemma arch_perform_mapped: "arch_perform eff a = (t, a') \<Longrightarrow> arch_mapped a' = arch_mapped a"
  by (cases eff) (auto simp: arch_write_def arch_store_def arch_goto_def arch_next_def arch_at_def Let_def
    split: if_splits)


lemma realises_exec:
  assumes ok: "vm_ok m" and sys: "isa_effect c w (arch_x (abs_vm m)) (arch_pc (abs_vm m)) \<noteq> System"
    and dfd: "cxx_defined c w (arch_x (abs_vm m))"
  shows "realises (exec (vtable c) (basic_machine call) w) m
    (arch_perform (isa_effect c w (arch_x (abs_vm m)) (arch_pc (abs_vm m))) (abs_vm m))"
proof -
  let ?eff = "isa_effect c w (arch_x (abs_vm m)) (arch_pc (abs_vm m))"
  have e: "isa_effect c w (reg_value m) (snd (vm_rest m)) = ?eff" and d: "cxx_defined c w (reg_value m)"
    using dfd by (simp_all add: abs_vm_def vm_rest_def)
  have "exec (vtable c) (basic_machine call) w m = perform (basic_machine call) ?eff m"
    using basic.exec_effect [where call = call and c = c and w = w, OF ok _ d, unfolded e] sys by blast
  with realises_perform [OF ok isa_effect_ok sys] show ?thesis by (simp add: realises_def)
qed

lemma realises_after:
  assumes ok: "vm_ok m" and pc: "arch_mapped (abs_vm m) pc 4"
  shows "realises (andThen (debug_print (trace_after pc)) (\<lambda>_.
      whenever (\<not> skip (vtable c :: 'c basic_vm HandlerInterface)) inc_pc)) (m :: 'c basic_vm)
    (if advances (isa_effect c w x p) then arch_next (abs_vm m) else (None, abs_vm m))"
proof (rule realises_andThen [OF realises_trace_after [OF ok]])
  show "mmu_covers (mmu m) pc 4" using pc by (simp add: abs_vm_def)
  fix m1 :: "'c basic_vm"
  assume m1: "vm_ok m1" "abs_vm m1 = abs_vm m"
  then show "realises (whenever (\<not> skip (vtable c :: 'c basic_vm HandlerInterface)) inc_pc) m1
      (if advances (isa_effect c w x p) then arch_next (abs_vm m) else (None, abs_vm m))"
    using realises_inc_pc [OF m1(1)] unfolding skip_advances [of c w x p]
    by (simp add: whenever_def) (simp add: realises_def ret_def)
qed

text \<open>What follows the fetch and the lookup of the handler.\<close>

lemma realises_instruction:
  assumes ok: "vm_ok (m :: 'c basic_vm)" and pc: "arch_mapped (abs_vm m) pc 4"
    and eff: "eff = isa_effect c w (arch_x (abs_vm m)) (arch_pc (abs_vm m))"
    and sys: "eff \<noteq> System" and dfd: "cxx_defined c w (arch_x (abs_vm m))"
  shows "realises (andThen (exec (vtable c) (basic_machine call) w) (\<lambda>_.
      andThen (debug_print (trace_after pc)) (\<lambda>_.
      whenever (\<not> skip (vtable c :: 'c basic_vm HandlerInterface)) inc_pc))) m (arch_step eff (abs_vm m))"
proof -
  obtain t a where p: "arch_perform eff (abs_vm m) = (t, a)" by (cases "arch_perform eff (abs_vm m)")
  have exec: "realises (exec (vtable c) (basic_machine call) w) m (t, a)"
    using realises_exec [OF ok _ dfd, of call] sys by (simp add: eff [symmetric] p)
  show ?thesis
  proof (cases t)
    case (Some t')
    then have "arch_step eff (abs_vm m) = (Some t', a)" by (simp add: arch_step_def p)
    with exec show ?thesis by (simp add: Some realises_andThen_trap)
  next
    case None
    have mapped: "arch_mapped a pc 4" using arch_perform_mapped [OF p] pc by simp
    have step: "arch_step eff (abs_vm m) = (if advances eff then arch_next a else (None, a))"
      by (simp add: arch_step_def p None)
    show ?thesis
    proof (rule realises_andThen [OF exec [unfolded None]])
      fix m2 :: "'c basic_vm"
      assume ok2: "vm_ok m2" and a: "abs_vm m2 = a"
      show "realises (andThen (debug_print (trace_after pc)) (\<lambda>_.
          whenever (\<not> skip (vtable c :: 'c basic_vm HandlerInterface)) inc_pc)) m2 (arch_step eff (abs_vm m))"
        using realises_after [OF ok2, of pc c w "arch_x (abs_vm m)" "arch_pc (abs_vm m)"] mapped
        unfolding eff step [unfolded eff] a by blast
    qed
  qed
qed

lemma run_step_found:
  assumes ok: "vm_ok (m :: 'c basic_vm)" and fetch: "arch_access (get_pc m) 4 (abs_vm m)"
    and decode: "find_handler (opcodes m) (arch_fetch (abs_vm m)) = Some c"
  shows "run_step call m =
    andThen (debug_print (trace_before (vtable c) (arch_fetch (abs_vm m)))) (\<lambda>_.
    andThen (exec (vtable c) (basic_machine call) (arch_fetch (abs_vm m))) (\<lambda>_.
    andThen (debug_print (trace_after (get_pc m))) (\<lambda>_.
    whenever (\<not> skip (vtable c :: 'c basic_vm HandlerInterface)) inc_pc))) m"
  using get_current_eq [OF ok] fetch decode by (simp add: run_step_def andThen_def query_def)

lemma run_step_realises:
  assumes "vm_ok m" and "arch_access (arch_pc (abs_vm m)) 4 (abs_vm m)"
    and "find_handler (opcodes m) (arch_fetch (abs_vm m)) = Some c"
    and "eff = isa_effect c (arch_fetch (abs_vm m)) (arch_x (abs_vm m)) (arch_pc (abs_vm m))"
    and "eff \<noteq> System"
    and "cxx_defined c (arch_fetch (abs_vm m)) (arch_x (abs_vm m))"
  shows "realises (run_step call) m (arch_step eff (abs_vm m))"
proof -
  have pc: "arch_pc (abs_vm m) = get_pc m" by (simp add: abs_vm_def)
  let ?w = "arch_fetch (abs_vm m)"
  have "realises (andThen (debug_print (trace_before (vtable c) ?w)) (\<lambda>_.
      andThen (exec (vtable c) (basic_machine call) ?w) (\<lambda>_.
      andThen (debug_print (trace_after (get_pc m))) (\<lambda>_.
      whenever (\<not> skip (vtable c :: 'a basic_vm HandlerInterface)) inc_pc)))) m (arch_step eff (abs_vm m))"
  proof (rule realises_andThen [OF realises_trace_before [OF assms(1)]])
    fix m1 :: "'a basic_vm"
    assume "vm_ok m1" and a: "abs_vm m1 = abs_vm m"
    then show "realises (andThen (exec (vtable c) (basic_machine call) ?w) (\<lambda>_.
        andThen (debug_print (trace_after (get_pc m))) (\<lambda>_.
        whenever (\<not> skip (vtable c :: 'a basic_vm HandlerInterface)) inc_pc))) m1 (arch_step eff (abs_vm m))"
      using realises_instruction [of m1 "get_pc m" eff c ?w call] assms(2,4-6)
      by (simp add: a pc arch_access_def)
  qed
  then show ?thesis using run_step_found [of m c call] assms(1-3) by (simp add: realises_def pc)
qed

section \<open>Properties\<close>

text \<open>
  C1: One emulation step refines the RISC-V specification. Where the program counter is aligned and
  mapped, the fetched word is an RV32IM instruction other than a system instruction, and the C++
  arithmetic is defined, \<open>run_step\<close> ends in the state and with the kind of outcome of the abstract
  machine: registers, program counter and every byte of memory, on success, on a bad jump and on a bad
  memory access. It keeps the machine well-formed and all other fields, and the debug trace, on or off,
  makes no difference.
\<close>

theorem run_step_refines:
  assumes "vm_ok m" and "arch_access (arch_pc (abs_vm m)) 4 (abs_vm m)"
    and "find_handler (opcodes m) (arch_fetch (abs_vm m)) = Some c"
    and "eff = isa_effect c (arch_fetch (abs_vm m)) (arch_x (abs_vm m)) (arch_pc (abs_vm m))"
    and "eff \<noteq> System"
    and "cxx_defined c (arch_fetch (abs_vm m)) (arch_x (abs_vm m))"
  shows "realises (run_step call) m (arch_step eff (abs_vm m))"
  using assms by (rule run_step_realises)

text \<open>A machine with the full instruction set and one block of code at address 0.\<close>

definition sample_vm :: "u8 list \<Rightarrow> 'c basic_vm" where
  "sample_vm bytes = new_vm\<lparr>opcodes := isa_registry,
     mmu := [\<lparr>block_params = \<lparr>block_start = 0, block_size = of_nat (length bytes)\<rparr>, block_data = bytes\<rparr>]\<rparr>"

lemmas sample_simps = sample_vm_def new_vm_def vm_ok_def mmu_ok_def block_ok_def block_fits_def hi_def lo_def
  abs_vm_def reg_value_def get_pc_def register_count_def arch_access_def arch_fetch_def arch_load_def
  arch_bytes_def mmu_covers_def covers_def within_def in_range_at_def mmu_byte_def block_byte_def offset_def
  upt_rec

theorem run_step_refines_witness:
  "realises (run_step (\<lambda>c :: unit. ret ())) (sample_vm [0x93, 0, 0x50, 0, 0, 0, 0, 0])
    (arch_step (Set_Reg 1 5) (abs_vm (sample_vm [0x93, 0, 0x50, 0, 0, 0, 0, 0] :: unit basic_vm)))"
proof -
  let ?m = "sample_vm [0x93, 0, 0x50, 0, 0, 0, 0, 0] :: unit basic_vm"
  have w: "arch_fetch (abs_vm ?m) = 0x00500093" by (simp add: sample_simps)
  have "entry_matches (class_entry C_addi) 0x00500093"
    by (simp add: class_entry_def class_id_simps get_code_def get_func3_def get_bits_def make_mask_def all_bits_mask_def
      mask_eq_exp_minus_1)
  then have "find_handler isa_registry 0x00500093 = Some C_addi" by (simp add: find_handler_isa)
  then have "find_handler (opcodes ?m) (arch_fetch (abs_vm ?m)) = Some C_addi"
    unfolding w by (simp add: sample_vm_def)
  moreover have "Set_Reg 1 5 = isa_effect C_addi (arch_fetch (abs_vm ?m)) (arch_x (abs_vm ?m)) (arch_pc (abs_vm ?m))"
    unfolding w by (simp add: sample_simps rd_def rs1_def field_def imm_I_def)
  moreover have "vm_ok ?m" by (simp add: sample_simps)
  moreover have "arch_access (arch_pc (abs_vm ?m)) 4 (abs_vm ?m)" by (simp add: sample_simps)
  moreover have "cxx_defined C_addi (arch_fetch (abs_vm ?m)) (arch_x (abs_vm ?m))" by (simp add: cxx_defined_def)
  ultimately show ?thesis using run_step_refines [of ?m C_addi "Set_Reg 1 5" "\<lambda>c :: unit. ret ()"] by blast
qed

end
