(* ===== verification/VM_Memory.thy ===== *)
theory VM_Memory
  imports VM_Refinement
begin

text \<open>
  The memory operations of \<open>basic_vm\<close> as a memory: what a load sees after a store.
\<close>

section \<open>The bytes of a store\<close>

lemma arch_bytes_store:
  assumes "n \<in> {1, 2, 4}"
  shows "arch_bytes a n (arch_store a n v s) = le_bytes n v"
proof (rule nth_equalityI)
  show "length (arch_bytes a n (arch_store a n v s)) = length (le_bytes n v)"
    by (simp add: arch_bytes_def)
next
  fix i
  assume "i < length (arch_bytes a n (arch_store a n v s))"
  then have i: "i < n" by (simp add: arch_bytes_def)
  with assms have "i < 4" by auto
  with i assms have "unat (of_nat i :: u32) = i" "unat (of_nat n :: u32) = n"
    by (auto intro!: unat_of_nat_u32)
  with i \<open>i < 4\<close> show "arch_bytes a n (arch_store a n v s) ! i = le_bytes n v ! i"
    by (simp add: arch_bytes_def arch_store_def in_area_def le_bytes_def)
qed

lemma arch_bytes_apart:
  assumes "\<forall>i < k. \<not> in_area a (of_nat n) (b + of_nat i)"
  shows "arch_bytes b k (arch_store a n v s) = arch_bytes b k s"
  using assms by (simp add: arch_bytes_def arch_store_def)

lemma arch_access_store [simp]: "arch_access b k (arch_store a n v s) = arch_access b k s"
  by (simp add: arch_access_def arch_store_def)

lemma write_memory_stores:
  assumes ok: "vm_ok m" and n: "n \<in> {1, 2, 4}" and acc: "arch_access a n (abs_vm m)"
  obtains m' where "write_memory a (of_nat n) v m = (Inr (), m')" and "vm_ok m'"
    and "abs_vm m' = arch_store a n v (abs_vm m)"
  using realises_write_memory [OF ok n, of a v] acc
  by (cases "write_memory a (of_nat n) v m") (auto simp: realises_def elim: outcome.elims)

section \<open>Properties\<close>

text \<open>
  C19: A load of 1, 2 or 4 bytes gives back what a store of the same size put there, and a store leaves
  every load from other addresses as it was. An unaligned access, or one outside the blocks, is refused
  with \<open>data_access_error\<close> and changes nothing.
\<close>

theorem store_load:
  assumes "vm_ok m" and "n \<in> {1, 2, 4}"
  shows "if arch_access a n (abs_vm m)
    then \<exists>m'. write_memory a (of_nat n) v m = (Inr (), m') \<and> vm_ok m'
      \<and> read_memory a (of_nat n) 0 m' = (Inr (take_bit (8 * n) v), m')
      \<and> (\<forall>b k. k \<in> {1, 2, 4} \<and> arch_access b k (abs_vm m) \<and>
          (\<forall>i < k. \<not> in_area a (of_nat n) (b + of_nat i)) \<longrightarrow>
          fst (read_memory b (of_nat k) 0 m') = fst (read_memory b (of_nat k) 0 m))
    else (\<exists>msg. write_memory a (of_nat n) v m = (Inl (data_access_error msg), m))
      \<and> (\<exists>msg. read_memory a (of_nat n) 0 m = (Inl (data_access_error msg), m))"
proof (cases "arch_access a n (abs_vm m)")
  case True
  obtain m' where w: "write_memory a (of_nat n) v m = (Inr (), m')" and ok: "vm_ok m'"
    and m': "abs_vm m' = arch_store a n v (abs_vm m)"
    using write_memory_stores [OF assms True] by blast
  have "read_memory a (of_nat n) 0 m' = (Inr (take_bit (8 * n) v), m')"
    using read_memory_eq [OF ok assms(2), of a] True
    by (simp add: m' arch_load_def arch_bytes_store [OF assms(2)] le_word_le_bytes)
  moreover have "fst (read_memory b (of_nat k) 0 m') = fst (read_memory b (of_nat k) 0 m)"
    if "k \<in> {1, 2, 4}" "arch_access b k (abs_vm m)" "\<forall>i < k. \<not> in_area a (of_nat n) (b + of_nat i)" for b k
    using read_memory_eq [OF ok that(1), of b] read_memory_eq [OF assms(1) that(1), of b] that(2)
    by (simp add: m' arch_load_def arch_bytes_apart [OF that(3)])
  ultimately show ?thesis using True w ok by auto
next
  case False
  then show ?thesis
    using read_memory_eq [OF assms, of a] write_memory_refused [OF assms False, of v] by simp
qed

theorem store_load_witness:
  "\<exists>m'. write_memory 4 2 0xABCD (sample_vm (replicate 8 0) :: unit basic_vm) = (Inr (), m')
     \<and> read_memory 4 2 0 m' = (Inr 0xABCD, m')"
proof -
  let ?m = "sample_vm (replicate 8 0) :: unit basic_vm"
  have "vm_ok ?m" and acc: "arch_access 4 2 (abs_vm ?m)" by (simp_all add: sample_simps)
  with store_load [of ?m 2 4 "0xABCD"] show ?thesis by auto
qed

end
