(* ===== verification/VM_Safety.thy ===== *)
theory VM_Safety
  imports VM_Refinement
begin

text \<open>
  What the emulator never does: reading or writing outside the byte vectors, following a null block
  pointer, dividing by zero. Every handler is safe on a machine whose operations are, and the operations
  of \<open>basic_vm\<close> are, under an invariant that every step keeps.
\<close>

section \<open>Handlers on a safe machine\<close>

definition access_sizes :: "u8 set" where
  "access_sizes = {1, 2, 4}"

lemma access_sizes_mem [simp]: "1 \<in> access_sizes" "2 \<in> access_sizes" "4 \<in> access_sizes"
  by (simp_all add: access_sizes_def)

definition machine_safe :: "exn set \<Rightarrow> ('m \<Rightarrow> bool) \<Rightarrow> 'm MachineInterface \<Rightarrow> bool" where
  "machine_safe E P vm \<longleftrightarrow>
     safe E P (mi_syscall vm) \<and> safe E P (mi_debug vm) \<and> safe E P (mi_barrier vm)
     \<and> (\<forall>d. safe E P (mi_jump_abs vm d)) \<and> (\<forall>d. safe E P (mi_jump_to vm d))
     \<and> (\<forall>b d. safe E P (mi_jump_if vm b d))
     \<and> (\<forall>i. safe E P (mi_control_get vm i)) \<and> (\<forall>i v. safe E P (mi_control_set vm i v))
     \<and> (\<forall>a n. n \<in> access_sizes \<longrightarrow> safe E P (mi_read_memory vm a n 0))
     \<and> (\<forall>a n v. n \<in> access_sizes \<longrightarrow> safe E P (mi_write_memory vm a n v))
     \<and> (\<forall>r v. r < register_count \<longrightarrow> safe E P (mi_set_register vm r v))
     \<and> (\<forall>r. r < register_count \<longrightarrow> safe E P (get_reg vm r))"

lemma machine_safeD:
  assumes "machine_safe E P vm"
  shows "safe E P (mi_syscall vm)" "safe E P (mi_debug vm)" "safe E P (mi_barrier vm)"
    "safe E P (mi_jump_abs vm d)" "safe E P (mi_jump_to vm d)" "safe E P (mi_jump_if vm b d)"
    "safe E P (mi_control_get vm i)" "safe E P (mi_control_set vm i v)"
    "n \<in> access_sizes \<Longrightarrow> safe E P (mi_read_memory vm a n 0)"
    "n \<in> access_sizes \<Longrightarrow> safe E P (mi_write_memory vm a n v)"
    "r < register_count \<Longrightarrow> safe E P (mi_set_register vm r v)"
    "r < register_count \<Longrightarrow> safe E P (get_reg vm r)"
  using assms unfolding machine_safe_def by blast+

lemma safe_get_pc_value [simp, action_intros]: "safe E P (get_pc_value vm)"
  by (simp add: get_pc_value_def safe_def query_def)

lemma shift_errors:
  "shl a n = Inl e \<Longrightarrow> e = undefined Shift_Out_Of_Range"
  "shr a n = Inl e \<Longrightarrow> e = undefined Shift_Out_Of_Range"
  "map_sum id f (shr a n) = Inl e \<Longrightarrow> e = undefined Shift_Out_Of_Range"
  by (auto simp: shl_def shr_def split: if_splits)

lemma mul_errors: "mul_calculate a b = Inl e \<Longrightarrow> e = undefined Signed_Overflow"
  by (simp add: mul_calculate_eq split: if_splits)

lemma decoded_small: "get_rd w < register_count" "get_rs1 w < register_count" "get_rs2 w < register_count"
  using reg_field_small by (simp_all add: reg_fields register_count_def)

lemma exec_safe:
  assumes "machine_safe E P vm" and "undefined Shift_Out_Of_Range \<in> E" and "undefined Signed_Overflow \<in> E"
  shows "safe E P (exec (vtable c) vm code)"
  using machine_safeD [OF assms(1)] assms(2,3) decoded_small [of code]
  by (cases c; auto simp: handler_class_defs GenericHandler_def Let_def mulh_calculate_eq mulhsu_calculate_eq
      mulhu_calculate_eq div_calculate_eq divu_calculate_eq rem_calculate_eq remu_calculate_eq
      dest: shift_errors mul_errors intro!: action_intros)


section \<open>\<open>basic_vm\<close> is safe\<close>

text \<open>
  The invariant of a running machine: well-formed, with the program counter in a block. \<open>C\<close> says which
  addresses are mapped, which no step changes.
\<close>

definition vm_inv :: "(address_t \<Rightarrow> u32 \<Rightarrow> bool) \<Rightarrow> 'c basic_vm \<Rightarrow> bool" where
  "vm_inv C m \<longleftrightarrow> vm_ok m \<and> mmu_covers (mmu m) = C \<and> C (get_pc m) 4"

text \<open>
  The same, and where \<open>al\<close> holds, the program counter is also a multiple of 4. The first instruction sees to
  that; all later ones keep it.
\<close>

definition pc_inv :: "bool \<Rightarrow> (address_t \<Rightarrow> u32 \<Rightarrow> bool) \<Rightarrow> 'c basic_vm \<Rightarrow> bool" where
  "pc_inv al C m \<longleftrightarrow> vm_inv C m \<and> (al \<longrightarrow> get_pc m mod 4 = 0)"

lemma pc_inv_False [simp]: "pc_inv False C = vm_inv C"
  by (simp add: pc_inv_def fun_eq_iff)

lemma pc_invD: "pc_inv al C m \<Longrightarrow> vm_inv C m"
  by (simp add: pc_inv_def)

lemma mod_4_add:
  fixes p i :: u32
  assumes "i mod 4 = 0"
  shows "(p + i) mod 4 = p mod 4"
proof -
  have "uint (i mod 4) = uint i mod 4" by (simp add: uint_mod)
  then have "uint i mod 4 = 0" using assms by simp
  moreover have "uint (p + i) mod 4 = (uint p + uint i) mod 4" by (simp add: uint_word_ariths mod_mod_cancel)
  ultimately have "uint (p + i) mod 4 = uint p mod 4" by presburger
  then have "uint ((p + i) mod 4) = uint (p mod 4)" by (simp add: uint_mod)
  then show ?thesis by (simp only: word_uint_eq_iff)
qed

lemma aligned_next: "w mod 4 = (0 :: u32) \<Longrightarrow> (w + 4) mod 4 = 0"
  by (simp add: mod_4_add)

text \<open>What the machine itself never gets into: everything undefined except arithmetic.\<close>

definition vm_errors :: "exn set" where
  "vm_errors = - {undefined Out_Of_Bounds, undefined Null_Dereference, undefined Division_By_Zero, undefined Endless_Loop}"

lemma vm_errors_mem [simp]:
  "code_access_error s \<in> vm_errors" "data_access_error s \<in> vm_errors" "control_access_error s \<in> vm_errors"
  "unknown_instruction s \<in> vm_errors" "unknown_syscall s \<in> vm_errors" "domain_error s \<in> vm_errors"
  "undefined Shift_Out_Of_Range \<in> vm_errors" "undefined Signed_Overflow \<in> vm_errors"
  by (simp_all add: vm_errors_def)

lemma vm_inv_abs:
  "vm_inv C m \<longleftrightarrow> vm_ok m \<and> arch_mapped (abs_vm m) = C \<and> C (arch_pc (abs_vm m)) 4"
  by (simp add: vm_inv_def abs_vm_def)

lemma pc_inv_abs:
  "pc_inv al C m \<longleftrightarrow> vm_ok m \<and> arch_mapped (abs_vm m) = C \<and> C (arch_pc (abs_vm m)) 4
    \<and> (al \<longrightarrow> arch_pc (abs_vm m) mod 4 = 0)"
  by (simp add: pc_inv_def vm_inv_abs) (simp add: abs_vm_def)

lemma pc_inv_ok: "pc_inv al C m \<Longrightarrow> vm_ok m"
  by (simp add: pc_inv_abs)

lemma outcome_vm_error: "outcome (Inl e) t \<Longrightarrow> e \<in> vm_errors"
  by (cases e) auto

text \<open>An action that realises an abstract step which keeps the program counter in mapped memory is safe.\<close>

lemma realises_safe:
  assumes "\<And>m. vm_ok m \<Longrightarrow> realises f m (step (abs_vm m))"
    and "\<And>a. arch_mapped (snd (step a)) = arch_mapped a"
    and "\<And>a. arch_mapped a (arch_pc a) 4 \<Longrightarrow> arch_mapped a (arch_pc (snd (step a))) 4"
    and "\<And>a. arch_pc a mod 4 = 0 \<Longrightarrow> arch_pc (snd (step a)) mod 4 = 0"
  shows "safe vm_errors (pc_inv al C) f"
proof (rule safeI)
  fix m :: "'a basic_vm"
  assume inv: "pc_inv al C m"
  then have r: "realises f m (step (abs_vm m))" using assms(1) pc_inv_ok by blast
  then show "pc_inv al C (snd (f m))"
    using assms(2-4) [of "abs_vm m"] inv by (simp add: realises_def pc_inv_abs)
  fix e
  assume "fst (f m) = Inl e"
  with r show "e \<in> vm_errors" by (auto simp: realises_def intro: outcome_vm_error)
qed

lemma safe_jump_abs: "safe vm_errors (pc_inv al C) (jump_abs d)"
  by (rule realises_safe [where step = "arch_goto d"], erule realises_jump_abs)
    (simp_all add: arch_goto_def arch_at_def)

lemma safe_jump_to: "safe vm_errors (pc_inv al C) (jump_to d)"
  by (rule realises_safe [where step = "\<lambda>a. arch_goto (arch_pc a + d) a"], erule realises_jump_to)
    (simp_all add: arch_goto_def arch_at_def)

lemma safe_inc_pc: "safe vm_errors (pc_inv al C) inc_pc"
  by (rule realises_safe [where step = arch_next], erule realises_inc_pc)
    (simp_all add: arch_next_def arch_at_def aligned_next)

lemma safe_set_register:
  assumes "r < register_count"
  shows "safe vm_errors (pc_inv al C) (set_register r v)"
  by (rule realises_safe [where step = "\<lambda>a. (None, arch_write r v a)"],
      erule realises_set_register [OF _ assms]) (simp_all add: arch_write_def)

lemma access_sizes_nat: "n \<in> access_sizes \<Longrightarrow> \<exists>k \<in> {1, 2, 4}. n = of_nat k"
  by (auto simp: access_sizes_def intro: bexI [of _ 1] bexI [of _ 2] bexI [of _ 4])

lemma safe_write_memory:
  assumes "n \<in> access_sizes"
  shows "safe vm_errors (pc_inv al C) (write_memory a n v)"
proof -
  obtain k where k: "k \<in> {1, 2, 4}" and n: "n = of_nat k" using access_sizes_nat [OF assms] by blast
  show ?thesis unfolding n
    by (rule realises_safe [where step = "\<lambda>s. if arch_access a k s then (None, arch_store a k v s)
        else (Some Bad_Access, s)"], erule realises_write_memory [OF _ k]) (simp_all add: arch_store_def)
qed

lemma safe_read_memory:
  assumes "n \<in> access_sizes"
  shows "safe vm_errors (pc_inv al C) (read_memory a n 0)"
proof -
  obtain k where k: "k \<in> {1, 2, 4}" and n: "n = of_nat k" using access_sizes_nat [OF assms] by blast
  have "(\<exists>v. read_memory a n 0 m = (Inr v, m)) \<or> (\<exists>s. read_memory a n 0 m = (Inl (data_access_error s), m))"
    if "pc_inv al C m" for m :: "'a basic_vm"
    using read_memory_eq [OF pc_inv_ok [OF that] k, of a] by (auto simp: n split: if_splits)
  then show ?thesis by (intro safeI) fastforce+
qed

lemma safe_get_reg:
  assumes "r < register_count"
  shows "safe vm_errors (pc_inv al C) (get_reg (basic_machine call) r)"
  using assms by (auto simp: get_reg_def pc_inv_ok get_register_small intro!: action_intros)

lemma safe_syscall:
  assumes "\<And>c. safe vm_errors (pc_inv al C) (call c)"
  shows "safe vm_errors (pc_inv al C) (syscall call)"
proof -
  have "reg_no Reg_a7 < register_count" by (simp add: register_count_def)
  then show ?thesis
    using assms by (auto simp: syscall_def pc_inv_ok get_register_small intro!: action_intros split: option.splits)
qed

lemma basic_machine_safe:
  assumes "\<And>c. safe vm_errors (pc_inv al C) (call c)"
  shows "machine_safe vm_errors (pc_inv al C) (basic_machine call)"
  using safe_syscall [where call = call, OF assms] safe_jump_abs safe_jump_to safe_inc_pc safe_read_memory
    safe_write_memory safe_set_register safe_get_reg
  by (auto simp: machine_safe_def debug_def barrier_def control_get_def control_set_def jump_if_def
    intro!: action_intros)

lemma safe_debug_print: "safe E P out \<Longrightarrow> safe E P (debug_print out)"
  by (auto simp: safe_def debug_print_def whenever_def ret_def)

lemma safe_trace_before: "safe vm_errors (pc_inv al C) (debug_print (trace_before (vtable c) code))"
  by (rule realises_safe [where step = "\<lambda>a. (None, a)"], erule realises_trace_before) simp_all

lemma safe_trace_after:
  assumes "C pc 4"
  shows "safe vm_errors (pc_inv al C) (debug_print (trace_after pc) :: ('c basic_vm, unit) action)"
proof (rule safeI)
  fix m :: "'c basic_vm"
  assume inv: "pc_inv al C m"
  then have r: "realises (debug_print (trace_after pc)) m (None, abs_vm m)"
    using assms pc_invD [OF inv] by (auto simp: vm_inv_def intro: realises_trace_after)
  with inv show "pc_inv al C (snd (debug_print (trace_after pc) m))" by (simp add: realises_def pc_inv_abs)
  fix e
  assume "fst (debug_print (trace_after pc) m) = Inl e"
  with r show "e \<in> vm_errors" by (auto simp: realises_def intro: outcome_vm_error)
qed

lemma safe_instruction:
  assumes "\<And>c. safe vm_errors (pc_inv al C) (call c)" and "C pc 4"
  shows "safe vm_errors (pc_inv al C)
    (andThen (debug_print (trace_before (vtable c) code)) (\<lambda>_.
     andThen (exec (vtable c) (basic_machine call) code) (\<lambda>_.
     andThen (debug_print (trace_after pc)) (\<lambda>_. whenever b inc_pc))))"
  by (intro action_intros safe_trace_before safe_trace_after safe_inc_pc assms(2)
    exec_safe [OF basic_machine_safe [OF assms(1)]]) simp_all

lemma run_step_safe:
  assumes "\<And>c. safe vm_errors (pc_inv al C) (call c)"
  shows "safe vm_errors (pc_inv al C) (run_step call :: ('c basic_vm, unit) action)"
proof -
  have "pc_inv al C (snd (run_step call m)) \<and> (\<forall>e. fst (run_step call m) = Inl e \<longrightarrow> e \<in> vm_errors)"
    if inv: "pc_inv al C m" for m :: "'c basic_vm"
  proof -
    from pc_invD [OF inv] have ok: "vm_ok m" and pc: "C (get_pc m) 4" and cov: "mmu_covers (mmu m) (get_pc m) 4"
      by (auto simp: vm_inv_def)
    consider (fetched) w where "get_current m = Inr (Some w)"
      | (unaligned) s where "get_current m = Inl (data_access_error s)"
      using get_current_eq [OF ok] cov by (auto simp: arch_access_def abs_vm_def split: if_splits)
    then show ?thesis
    proof cases
      case fetched
      show ?thesis
      proof (cases "find_handler (opcodes m) w")
        case None
        with fetched inv show ?thesis by (auto simp: run_step_def andThen_def query_def throw_def)
      next
        case (Some c)
        with fetched safe_instruction [where c = c and code = w and b = "\<not> skip (vtable c :: 'c basic_vm HandlerInterface)",
            OF assms pc] inv
        show ?thesis by (simp add: run_step_def andThen_def [of "query _"] query_def safe_def)
      qed
    next
      case unaligned
      with inv show ?thesis by (simp add: run_step_def andThen_def query_def)
    qed
  qed
  then show ?thesis by (simp add: safe_def)
qed

section \<open>Properties\<close>

text \<open>
  C12: Every word is well typed as an instruction. Whichever of its register fields a handler uses, the number is
  one of the 32 registers: reading it gives the value of that register, writing it succeeds, changes at most
  that register and keeps the machine well-formed, and the listing has a name for it. Every handler can print its
  operands.
\<close>

theorem decoded_operands:
  assumes "vm_ok (m :: 'c basic_vm)" and "r \<in> {get_rd code, get_rs1 code, get_rs2 code}"
  shows "r < register_count \<and> get_register r m = Inr (reg_value m r)
    \<and> (\<exists>m'. set_register r v m = (Inr (), m') \<and> vm_ok m'
        \<and> abs_vm m' = (abs_vm m)\<lparr>arch_x := (if r = 0 then reg_value m else (reg_value m)(r := v))\<rparr>)
    \<and> get_register_alias r \<noteq> ''unknown''
    \<and> (\<exists>text. disassemblyArgs (vtable c :: 'c basic_vm HandlerInterface) code = Inr text)"
proof -
  have r: "r < register_count" using assms(2) decoded_small [of code] by auto
  from realises_set_register [OF assms(1) r, of v] obtain m' where "set_register r v m = (Inr (), m')"
    and "vm_ok m'" and "abs_vm m' = arch_write r v (abs_vm m)"
    by (cases "set_register r v m") (auto simp: realises_def elim: outcome.elims)
  moreover have "arch_write r v (abs_vm m) = (abs_vm m)\<lparr>arch_x := (if r = 0 then reg_value m else (reg_value m)(r := v))\<rparr>"
    by (simp add: arch_write_def abs_vm_def)
  ultimately show ?thesis
    using r get_register_small [OF assms(1) r] register_names disassembly_total [of c code]
    by (auto simp: not_less)
qed

theorem decoded_operands_witness:
  "get_register (get_rd 0x00500093) (sample_vm [0x93, 0, 0x50, 0] :: unit basic_vm) = Inr 0
    \<and> get_rd 0x00500093 = 1"
proof -
  let ?m = "sample_vm [0x93, 0, 0x50, 0] :: unit basic_vm"
  have "vm_ok ?m" by (simp add: sample_simps)
  from decoded_operands [OF this, where code = "0x00500093" and r = "get_rd 0x00500093"]
  have "get_register (get_rd 0x00500093) ?m = Inr (reg_value ?m (get_rd 0x00500093))" by simp
  moreover have "get_rd 0x00500093 = 1" by (simp add: reg_fields rd_def field_def)
  ultimately show ?thesis by (simp add: sample_simps)
qed

end
