(* ===== verification/VM_Run.thy ===== *)
theory VM_Run
  imports VM_Safety
begin

text \<open>
  The emulation loop \<open>run\<close>: its results are those of a bounded loop with enough steps, the states at its
  head are the reachable ones, and memory safety of whole runs.
\<close>

section \<open>The emulation loop\<close>

text \<open>The loop of \<open>run\<close> with at most \<open>n\<close> steps.\<close>

fun run_fuel :: "nat \<Rightarrow> ('c \<Rightarrow> ('c basic_vm, unit) action) \<Rightarrow> 'c basic_vm
    \<Rightarrow> ((exn + unit) \<times> 'c basic_vm) option" where
  "run_fuel 0 call m = (if is_running m then None else Some (Inr (), m))"
| "run_fuel (Suc n) call m =
     (if is_running m
      then (case run_step call m of
              (Inl e, m') \<Rightarrow> Some (Inl e, m')
            | (Inr _, m') \<Rightarrow> run_fuel n call m')
      else Some (Inr (), m))"

text \<open>The states at the head of the loop.\<close>

inductive reached :: "('c \<Rightarrow> ('c basic_vm, unit) action) \<Rightarrow> 'c basic_vm \<Rightarrow> 'c basic_vm \<Rightarrow> bool"
  for call m where
  reached_start: "reached call m m"
| reached_step: "reached call m m1 \<Longrightarrow> is_running m1 \<Longrightarrow> run_step call m1 = (Inr (), m2) \<Longrightarrow> reached call m m2"

inductive_simps reached_iff: "reached call m m'"

lemma run_unfold:
  "run call m =
     (if is_running m
      then (case run_step call m of
              (Inl e, m') \<Rightarrow> Some (Inl e, m')
            | (Inr _, m') \<Rightarrow> run call m')
      else Some (Inr (), m))"
  by (rule run.simps)

lemma run_fuel_run: "run_fuel n call m = Some res \<Longrightarrow> run call m = Some res"
proof (induction n arbitrary: m)
  case 0
  then show ?case by (subst run_unfold) (simp split: if_splits)
next
  case (Suc n)
  then show ?case by (subst run_unfold) (auto split: if_splits prod.splits sum.splits)
qed

lemma run_run_fuel:
  assumes "run call m = Some res"
  shows "\<exists>n. run_fuel n call m = Some res"
proof (rule run.raw_induct [where P = "\<lambda>call m res. \<exists>n. run_fuel n call m = Some res", OF _ assms])
  fix run' :: "('a \<Rightarrow> ('a basic_vm, unit) action) \<Rightarrow> 'a basic_vm \<Rightarrow> ((exn + unit) \<times> 'a basic_vm) option"
  fix call m res
  assume IH: "\<And>call m res. run' call m = Some res \<Longrightarrow> \<exists>n. run_fuel n call m = Some res"
    and body: "(if is_running m
      then (case run_step call m of
              (Inl e, m') \<Rightarrow> Some (Inl e, m')
            | (Inr _, m') \<Rightarrow> run' call m')
      else Some (Inr (), m)) = Some res"
  show "\<exists>n. run_fuel n call m = Some res"
  proof (cases "is_running m \<and> (\<exists>m'. run_step call m = (Inr (), m'))")
    case True
    then obtain m' where m': "is_running m" "run_step call m = (Inr (), m')" by blast
    with body have "run' call m' = Some res" by simp
    then obtain n where "run_fuel n call m' = Some res" using IH by blast
    with m' have "run_fuel (Suc n) call m = Some res" by simp
    then show ?thesis ..
  next
    case False
    with body have "run_fuel 1 call m = Some res" by (auto split: if_splits prod.splits sum.splits)
    then show ?thesis ..
  qed
qed

lemma run_fuel_iff: "run call m = Some res \<longleftrightarrow> (\<exists>n. run_fuel n call m = Some res)"
  using run_fuel_run run_run_fuel by blast

lemma reached_prefix:
  assumes "is_running m" and "run_step call m = (Inr (), m1)" and "reached call m1 m2"
  shows "reached call m m2"
  using assms(3)
proof induction
  case reached_start
  then show ?case using assms(1,2) by (blast intro: reached.intros)
next
  case (reached_step m2 m3)
  then show ?case by (blast intro: reached.intros)
qed

lemma reached_inv:
  assumes "reached call m m'" and "pc_inv al C m" and "\<And>c. safe vm_errors (pc_inv al C) (call c)"
  shows "pc_inv al C m'"
  using assms(1,2)
proof (induction rule: reached.induct)
  case (reached_step m1 m2)
  have "safe vm_errors (pc_inv al C) (run_step call)" by (rule run_step_safe) (rule assms(3))
  with reached_step show ?case by (blast intro: safe_state)
qed

lemma run_result:
  assumes "run call m = Some (r, m')"
  shows "\<exists>m1. reached call m m1 \<and>
    (case r of Inr _ \<Rightarrow> \<not> is_running m1 \<and> m' = m1
     | Inl e \<Rightarrow> is_running m1 \<and> run_step call m1 = (Inl e, m'))"
proof -
  obtain n where "run_fuel n call m = Some (r, m')" using run_run_fuel [OF assms] by blast
  then show ?thesis
  proof (induction n arbitrary: m)
    case 0
    then show ?case by (auto split: if_splits intro: reached_start)
  next
    case (Suc n)
    show ?case
    proof (cases "is_running m \<and> (\<exists>m1. run_step call m = (Inr (), m1))")
      case True
      then obtain m1 where m1: "is_running m" "run_step call m = (Inr (), m1)" by blast
      with Suc.prems have "run_fuel n call m1 = Some (r, m')" by simp
      from Suc.IH [OF this] reached_prefix [OF m1] show ?thesis by blast
    next
      case False
      with Suc.prems show ?thesis
        by (auto split: if_splits prod.splits sum.splits intro: reached_start)
    qed
  qed
qed

lemma run_keeps_inv:
  assumes "pc_inv al C m" and "\<And>c. safe vm_errors (pc_inv al C) (call c)" and "run call m = Some (r, m')"
  shows "pc_inv al C m' \<and> (case r of Inr _ \<Rightarrow> \<not> is_running m'
     | Inl e \<Rightarrow> e \<notin> {undefined Out_Of_Bounds, undefined Null_Dereference, undefined Division_By_Zero, undefined Endless_Loop})"
proof -
  from run_result [OF assms(3)] obtain m1 where m1: "reached call m m1"
    and r: "case r of Inr _ \<Rightarrow> \<not> is_running m1 \<and> m' = m1
      | Inl e \<Rightarrow> is_running m1 \<and> run_step call m1 = (Inl e, m')" by blast
  have inv: "pc_inv al C m1" using m1 assms(1,2) by (rule reached_inv)
  show ?thesis
  proof (cases r)
    case (Inl e)
    with r have "run_step call m1 = (Inl e, m')" by simp
    moreover have "safe vm_errors (pc_inv al C) (run_step call)" by (rule run_step_safe) (rule assms(2))
    ultimately have "pc_inv al C m' \<and> e \<in> vm_errors" using inv by (blast intro: safe_state safe_error)
    then show ?thesis by (simp add: Inl vm_errors_def)
  next
    case Inr
    with r inv show ?thesis by simp
  qed
qed

text \<open>
  C2: The emulator is memory-safe. From a well-formed machine with the program counter in a block,
  and with system calls that are safe in the same sense, \<open>run\<close> never reads or writes outside a block's
  bytes, never follows a null block pointer, never divides by zero and never hangs inside a step,
  whatever the program: if it returns, the machine has the invariant, and what it may have thrown is one
  of the declared exceptions or one of the two arithmetic overflows the handlers leave undefined. It
  returns normally only once the machine was halted.
\<close>

theorem run_safe:
  assumes "vm_inv C m" and "\<And>c. safe vm_errors (vm_inv C) (call c)" and "run call m = Some (r, m')"
  shows "vm_inv C m' \<and> (case r of Inr _ \<Rightarrow> \<not> is_running m'
     | Inl e \<Rightarrow> e \<notin> {undefined Out_Of_Bounds, undefined Null_Dereference, undefined Division_By_Zero, undefined Endless_Loop})"
  using run_keeps_inv [where al = False, unfolded pc_inv_False] assms by blast

text \<open>
  \<open>run\<close> returns a result exactly when the loop ends after some number of steps; a result does not
  depend on how many are allowed.
\<close>

theorem run_is_iterated_step:
  "(run call m = Some res \<longleftrightarrow> (\<exists>n. run_fuel n call m = Some res))
    \<and> (run call m = None \<longleftrightarrow> (\<forall>n. run_fuel n call m = None))"
  using run_fuel_iff by (metis option.exhaust option.distinct(1))


text \<open>
  C8: Every fetch succeeds. A run that starts at a multiple of 4 in a block has such a program counter before each
  of its steps, as long as the system calls keep it, and the word that is fetched there is the one the RISC-V
  machine fetches.
\<close>

theorem fetch_never_fails:
  assumes "vm_inv C m" and "get_pc m mod 4 = 0" and "\<And>c. safe vm_errors (pc_inv True C) (call c)"
    and "reached call m m'"
  shows "get_pc m' mod 4 = 0 \<and> vm_inv C m' \<and> get_current m' = Inr (Some (arch_fetch (abs_vm m')))"
proof -
  have "pc_inv True C m" using assms(1,2) by (simp add: pc_inv_def)
  with assms(3,4) have "pc_inv True C m'" by (blast intro: reached_inv)
  then have "vm_ok m'" and "vm_inv C m'" and "get_pc m' mod 4 = 0" and "arch_access (get_pc m') 4 (abs_vm m')"
    by (auto simp: pc_inv_def vm_inv_def arch_access_def abs_vm_def)
  with get_current_eq [of m'] show ?thesis by simp
qed

text \<open>A machine whose program is one \<open>ecall\<close>, with a system call 0 that halts.\<close>

definition halting_vm :: "unit basic_vm" where
  "halting_vm = (sample_vm [0x73, 0, 0, 0, 0, 0, 0, 0])
     \<lparr>syscalls := [0 \<mapsto> create 0 ''exit'' ()], running := True\<rparr>"

lemma halting_vm_inv: "vm_inv (mmu_covers (mmu halting_vm)) halting_vm"
  by (simp add: halting_vm_def vm_inv_def sample_simps)

lemma safe_halt: "safe vm_errors (pc_inv al C) halt"
  by (auto simp: halt_def pc_inv_def vm_inv_def vm_ok_def get_pc_def intro!: action_intros)

lemma halting_step: "\<exists>m. run_step (\<lambda>_. halt) halting_vm = (Inr (), m) \<and> \<not> is_running m"
proof -
  let ?m = halting_vm
  have ok: "vm_ok ?m" and acc: "arch_access (get_pc ?m) 4 (abs_vm ?m)" and w: "arch_fetch (abs_vm ?m) = 0x73"
    by (simp_all add: halting_vm_def sample_simps)
  have "entry_matches (class_entry C_env_call) 0x73"
    by (simp add: class_entry_def class_id_simps get_code_def get_func3_def get_bits_def make_mask_def
      all_bits_mask_def mask_eq_exp_minus_1)
  then have "find_handler isa_registry 0x73 = Some C_env_call" by (simp add: find_handler_isa)
  then have h: "find_handler (opcodes ?m) (arch_fetch (abs_vm ?m)) = Some C_env_call"
    unfolding w by (simp add: halting_vm_def sample_vm_def)
  have imm: "decode_i_u 0x73 = 0" by (simp add: bits32)
  have nodebug: "debugging ?m = False" by (simp add: halting_vm_def sample_vm_def new_vm_def)
  have sys: "syscall (\<lambda>_. halt) ?m = (Inr (), ?m\<lparr>running := False\<rparr>)"
    by (simp add: halting_vm_def sample_vm_def new_vm_def syscall_def action_simps get_register_def
      register_count_def find_syscall_def create_def halt_def)
  have pc: "get_pc (?m\<lparr>running := False\<rparr>) = 0" "find_block (mmu (?m\<lparr>running := False\<rparr>)) 4 4 \<noteq> None"
    by (simp_all add: halting_vm_def sample_vm_def new_vm_def get_pc_def find_block_def in_range_def
      in_range_at_def offset_def)
  have "set_pc (get_pc (?m\<lparr>running := False\<rparr>) + 4) (?m\<lparr>running := False\<rparr>)
      = (Inr (), ?m\<lparr>running := False, registers := (registers ?m)[32 := 4]\<rparr>)"
    unfolding set_pc_def using pc by (auto simp: modify_def)
  then show ?thesis
    unfolding run_step_found [OF ok acc h] w
    by (simp add: andThen_def debug_print_def is_debugging_enabled_def nodebug whenever_def ret_def
      env_call_def GenericHandler_def imm sys inc_pc_def is_running_def)
qed

theorem run_safe_witness:
  "\<exists>m. run (\<lambda>_. halt) halting_vm = Some (Inr (), m) \<and> vm_inv (mmu_covers (mmu halting_vm)) m \<and> \<not> is_running m"
proof -
  obtain m where m: "run_step (\<lambda>_. halt) halting_vm = (Inr (), m)" "\<not> is_running m"
    using halting_step by blast
  moreover have "is_running halting_vm" by (simp add: halting_vm_def is_running_def)
  ultimately have "run_fuel 1 (\<lambda>_. halt) halting_vm = Some (Inr (), m)" by simp
  then have r: "run (\<lambda>_. halt) halting_vm = Some (Inr (), m)" by (rule run_fuel_run)
  from run_safe [OF halting_vm_inv safe_halt [where al = False, unfolded pc_inv_False] r] r show ?thesis by auto
qed

theorem fetch_never_fails_witness:
  "\<exists>m. run_step (\<lambda>_. halt) halting_vm = (Inr (), m) \<and> get_current m = Inr (Some (arch_fetch (abs_vm m)))"
proof -
  obtain m where m: "run_step (\<lambda>_. halt) halting_vm = (Inr (), m)" using halting_step by blast
  have "is_running halting_vm" "get_pc halting_vm mod 4 = 0" by (simp_all add: halting_vm_def is_running_def sample_simps)
  with m fetch_never_fails [OF halting_vm_inv _ safe_halt reached_step [OF reached_start]] show ?thesis by auto
qed

end
