(* ===== verification/VM_Program.thy ===== *)
theory VM_Program
  imports VM_Run
begin

text \<open>
  Before a run: configuring a machine, loading a program into it, starting it. \<open>configured\<close> are the
  machines the configuration calls can give.
\<close>

section \<open>Initialisation flags\<close>

fun flag_no :: "InitFlag \<Rightarrow> nat" where
  "flag_no HAVE_CODE_BLOCK = 0"
| "flag_no HAVE_DATA_BLOCK = 1"
| "flag_no ISA_INITIALIZED = 2"
| "flag_no PC_INITIALIZED = 3"

lemma flag_no_simps [simp]: "flag_no f < 8" "flag_no f = flag_no g \<longleftrightarrow> f = g"
  by (cases f; cases g; simp)+

lemma flag_value_bit: "flag_value f = push_bit (flag_no f) 1"
  by (cases f) simp_all

lemma is_flag_set_bit: "is_flag_set m f \<longleftrightarrow> bit (initFlags m) (flag_no f)"
  by (simp add: is_flag_set_def flag_value_bit push_bit_eq_mult and_exp_eq_0_iff_not_bit)

lemma is_flag_set_flag [simp]: "is_flag_set (set_flag f m) g \<longleftrightarrow> f = g \<or> is_flag_set m g"
  by (auto simp: is_flag_set_bit set_flag_def flag_value_bit bit_simps)

lemma set_flag_sel [simp]:
  "opcodes (set_flag f m) = opcodes m" "mmu (set_flag f m) = mmu m" "registers (set_flag f m) = registers m"
  "initial_pc (set_flag f m) = initial_pc m" "code_base (set_flag f m) = code_base m"
  "running (set_flag f m) = running m"
  by (simp_all add: set_flag_def)

lemma initialized_flags: "is_initialized m \<Longrightarrow> is_flag_set m f"
proof -
  assume "is_initialized m"
  then have "initFlags m = 15" by (simp add: is_initialized_def ALL_FLAGS_MASK_def)
  then show ?thesis by (cases f) (simp_all add: is_flag_set_def)
qed

section \<open>Setting up a machine\<close>

text \<open>
  What a client can have done before it starts the machine: any calls of the configuration functions, with any
  arguments, whether they failed or not. A block that the client supplies itself has as many bytes as its size.
\<close>

inductive configured :: "'c basic_vm \<Rightarrow> bool" where
  conf_new: "configured new_vm"
| conf_ro_size: "configured m \<Longrightarrow> configured (snd (set_ro_size sz m))"
| conf_rw_size: "configured m \<Longrightarrow> configured (snd (set_rw_size sz m))"
| conf_ro_base: "configured m \<Longrightarrow> configured (snd (set_ro_base a m))"
| conf_rw_base: "configured m \<Longrightarrow> configured (snd (set_rw_base a m))"
| conf_add_memory: "configured m \<Longrightarrow> configured (snd (add_memory a sz m))"
| conf_add_memory_block: "configured m \<Longrightarrow> length (block_data b) = unat (block_size (block_params b))
    \<Longrightarrow> configured (snd (add_memory_block b m))"
| conf_add_code_block: "configured m \<Longrightarrow> configured (snd (add_code_block a sz m))"
| conf_add_data_block: "configured m \<Longrightarrow> configured (snd (add_data_block a sz m))"
| conf_init_memory: "configured m \<Longrightarrow> configured (snd (init_memory_sizes code_size data_size m))"
| conf_init_isa: "configured m \<Longrightarrow> configured (snd (init_isa m))"
| conf_init_pc: "configured m \<Longrightarrow> configured (snd (init_pc a m))"
| conf_program_bin: "configured m \<Longrightarrow> configured (snd (set_program_bin bin a m))"
| conf_program_hex: "configured m \<Longrightarrow> configured (snd (set_program_hex empty_null hex m))"
| conf_syscall: "configured m \<Longrightarrow> configured (m\<lparr>syscalls := snd (register_syscall h (get_syscalls m))\<rparr>)"
| conf_debugging: "configured m \<Longrightarrow> configured (enable_debugging b m)"
| conf_throwing: "configured m \<Longrightarrow> configured (syscall_should_throw b m)"

definition config_inv :: "'c basic_vm \<Rightarrow> bool" where
  "config_inv m \<longleftrightarrow> length (registers m) = 33 \<and> registers m ! 0 = 0 \<and> mmu_inv (mmu m) \<and> \<not> running m
     \<and> opcodes m = (if is_flag_set m ISA_INITIALIZED then isa_registry else empty_registry)
     \<and> (have_code_block m \<or> have_data_block m \<longrightarrow> mmu m \<noteq> [])"

text \<open>Where no block reaches the top of the address space.\<close>

definition config_ok :: "'c basic_vm \<Rightarrow> bool" where
  "config_ok m \<longleftrightarrow> vm_ok m \<and> \<not> running m
     \<and> opcodes m = (if is_flag_set m ISA_INITIALIZED then isa_registry else empty_registry)
     \<and> (have_code_block m \<or> have_data_block m \<longrightarrow> mmu m \<noteq> [])"

lemma config_ok_iff: "config_ok m \<longleftrightarrow> config_inv m \<and> list_all block_fits (mmu m)"
  by (auto simp: config_ok_def config_inv_def vm_ok_def mmu_ok_iff)

lemma put_block_nonempty [simp]: "put_block b mem = [] \<longleftrightarrow> mem = []"
  by (simp add: put_block_def)

lemma config_inv_fields:
  assumes "config_inv m" and "registers m' = registers m" and "mmu_inv (mmu m')" and "mmu m = [] \<or> mmu m' \<noteq> []"
    and "running m' = running m" and "opcodes m' = opcodes m" and "initFlags m' = initFlags m"
  shows "config_inv m'"
  using assms by (auto simp: config_inv_def is_flag_set_def have_code_block_def have_data_block_def)

lemma config_inv_update [simp]:
  "config_inv (m\<lparr>initial_pc := a\<rparr>) = config_inv m" "config_inv (m\<lparr>ro_size := sz\<rparr>) = config_inv m"
  "config_inv (m\<lparr>rw_size := sz\<rparr>) = config_inv m" "config_inv (m\<lparr>code_base := a\<rparr>) = config_inv m"
  "config_inv (m\<lparr>data_base := a\<rparr>) = config_inv m" "config_inv (m\<lparr>debugging := b\<rparr>) = config_inv m"
  "config_inv (m\<lparr>syscalls := s\<rparr>) = config_inv m" "config_inv (m\<lparr>syscall_throw_on_error := b\<rparr>) = config_inv m"
  by (simp_all add: config_inv_def is_flag_set_def have_code_block_def have_data_block_def)

lemma config_inv_set_flag:
  "config_inv m \<Longrightarrow> f \<noteq> ISA_INITIALIZED \<Longrightarrow> mmu m \<noteq> [] \<or> f = PC_INITIALIZED \<Longrightarrow> config_inv (set_flag f m)"
  by (auto simp: config_inv_def have_code_block_def have_data_block_def)

text \<open>What a store into a block leaves as it is.\<close>

lemma stored_block:
  assumes "mmu_inv mem" and "find_block mem a n = Some b" and "block_store b a bs n = Inr (Some b')"
  shows "mmu_inv (put_block b' mem)" and "map block_params (put_block b' mem) = map block_params mem"
proof -
  have b: "b \<in> set mem" using assms(2) by (rule find_block_SomeD)
  have mem: "blocks_ok mem" using assms(1) by (simp add: mmu_inv_def)
  with b have "block_ok b" by (simp add: blocks_ok_def)
  note b' = block_store_SomeD [OF this assms(3)]
  show "mmu_inv (put_block b' mem)" by (rule put_block_mmu_inv [OF assms(1) b b'])
  show "map block_params (put_block b' mem) = map block_params mem" by (rule put_block_inv [OF mem b b'])
qed

lemma config_inv_stored:
  assumes "config_inv m" and "find_block (mmu m) a n = Some b" and "block_store b a bs n = Inr (Some b')"
  shows "config_inv (m\<lparr>mmu := put_block b' (mmu m)\<rparr>)"
    and "map block_params (put_block b' (mmu m)) = map block_params (mmu m)"
proof -
  have "mmu_inv (mmu m)" using assms(1) by (simp add: config_inv_def)
  note st = stored_block [OF this assms(2,3)]
  from st(1) show "config_inv (m\<lparr>mmu := put_block b' (mmu m)\<rparr>)"
    by (intro config_inv_fields [OF assms(1)]) auto
  show "map block_params (put_block b' (mmu m)) = map block_params (mmu m)" by (rule st(2))
qed

lemma config_inv_init_pc: "config_inv m \<Longrightarrow> config_inv (snd (init_pc a m))"
  by (simp add: init_pc_def config_inv_set_flag)

lemma init_pc_mmu [simp]: "mmu (snd (init_pc a m)) = mmu m"
  by (simp add: init_pc_def)

lemma is_flag_set_opcodes [simp]: "is_flag_set (m\<lparr>opcodes := r\<rparr>) f = is_flag_set m f"
  by (simp add: is_flag_set_def)

lemma init_isa_eq:
  assumes "config_inv m"
  shows "init_isa m = (if is_flag_set m ISA_INITIALIZED then (False, m)
    else (True, set_flag ISA_INITIALIZED (m\<lparr>opcodes := isa_registry\<rparr>)))"
proof (cases "is_flag_set m ISA_INITIALIZED")
  case True
  with assms have "opcodes m = isa_registry" by (simp add: config_inv_def)
  then show ?thesis using True register_again by (simp add: init_isa_def)
next
  case False
  with assms have e: "opcodes m = empty_registry" by (simp add: config_inv_def)
  obtain r where "register_rv32i_set empty_registry = (True, r)" and "register_rv32m_set r = (True, isa_registry)"
    using register_empty(1,2) by metis
  then show ?thesis using False by (simp add: init_isa_def e)
qed

lemma config_inv_init_isa: "config_inv m \<Longrightarrow> config_inv (snd (init_isa m))"
  by (simp add: init_isa_eq) (auto simp: config_inv_def have_code_block_def have_data_block_def)

lemma config_inv_add_memory_block:
  assumes inv: "config_inv m" and len: "length (block_data b) = unat (block_size (block_params b))"
  shows "config_inv (snd (add_memory_block b m))"
    and "fst (add_memory_block b m) \<Longrightarrow> mmu (snd (add_memory_block b m)) \<noteq> []"
proof -
  let ?r = "add_block b (mmu m)"
  have eq: "add_memory_block b m = (fst ?r, m\<lparr>mmu := snd ?r\<rparr>)"
    by (simp add: add_memory_block_def split: prod.splits)
  have "mmu_inv (mmu m)" using inv by (simp add: config_inv_def)
  note new = add_block_inv [OF this len]
  then show "config_inv (snd (add_memory_block b m))"
    unfolding eq snd_conv by (intro config_inv_fields [OF inv]) (auto split: if_splits)
  from new(2) show "fst (add_memory_block b m) \<Longrightarrow> mmu (snd (add_memory_block b m)) \<noteq> []"
    unfolding eq by auto
qed

lemma generic_block [simp]: "length (block_data (generic_memory a n)) = unat (block_size (block_params (generic_memory a n)))"
  by (simp add: generic_memory_def)

lemma config_inv_add_memory: "config_inv m \<Longrightarrow> config_inv (snd (add_memory a sz m))"
  by (simp add: add_memory_def config_inv_add_memory_block)

lemma config_inv_add_block:
  assumes "config_inv m"
  shows "config_inv (snd (add_code_block a sz m))" and "config_inv (snd (add_data_block a sz m))"
  using config_inv_add_memory_block [OF assms generic_block [of a "ucast sz"]] assms
  by (auto simp: add_code_block_def add_data_block_def add_memory_def intro!: config_inv_set_flag split: prod.splits bool.splits)

lemma config_inv_sizes: "config_inv m \<Longrightarrow> config_inv (snd (set_ro_size sz m))" "config_inv m \<Longrightarrow> config_inv (snd (set_rw_size sz m))"
  by (simp_all add: set_ro_size_def set_rw_size_def)

lemma config_inv_init_memory: "config_inv m \<Longrightarrow> config_inv (snd (init_memory_sizes code_size data_size m))"
  by (simp add: init_memory_sizes_def Let_def split_beta config_inv_add_block config_inv_sizes)

lemma config_inv_program_bin:
  assumes "config_inv m"
  shows "config_inv (snd (set_program_bin bin a m))"
    and "map block_params (mmu (snd (set_program_bin bin a m))) = map block_params (mmu m)"
proof -
  obtain r m1 where i: "init_pc a m = (r, m1)" by (cases "init_pc a m")
  with config_inv_init_pc [OF assms, of a] init_pc_mmu [of a m] have "config_inv m1" "mmu m1 = mmu m" by simp_all
  then show "config_inv (snd (set_program_bin bin a m))"
    and "map block_params (mmu (snd (set_program_bin bin a m))) = map block_params (mmu m)"
    using assms config_inv_stored [of m1 "code_base m1" "of_nat (length bin)"]
    by (auto simp: set_program_bin_def i action_simps Let_def split: bool.splits option.splits sum.splits)
qed

lemma config_inv_data_record: "config_inv m \<Longrightarrow> config_inv (snd (load_data_record empty_null a bytes m))"
  using config_inv_stored(1) [of m a "of_nat (length bytes)"]
  by (auto simp: load_data_record_def action_simps Let_def split: option.splits sum.splits)

lemma config_inv_records: "config_inv m \<Longrightarrow> config_inv (snd (load_records empty_null rs offs pc m))"
proof (induction empty_null rs offs pc m rule: load_records.induct)
  case (1 empty_null offs pc m)
  then show ?case by (simp add: ret_def)
next
  case (2 empty_null r rs offs pc m)
  have d: "config_inv (snd (load_data_record empty_null (offs + ucast (rec_offset r)) (rec_data r) m))"
    using 2 by (intro config_inv_data_record) simp
  have "config_inv (snd (init_pc pc m))" using 2 by (intro config_inv_init_pc) simp
  with d 2 show ?case
    by (auto simp: ret_def split: record_type.splits prod.splits sum.splits bool.splits)
qed

lemma config_inv_program_hex: "config_inv m \<Longrightarrow> config_inv (snd (set_program_hex empty_null hex m))"
  by (simp add: set_program_hex_def ret_def config_inv_records)

lemma config_ok_new: "config_ok new_vm"
  by (simp add: new_vm_def config_ok_def vm_ok_def mmu_ok_def is_flag_set_def have_code_block_def
    have_data_block_def)

lemma config_inv_new: "config_inv new_vm"
  by (rule config_ok_new [unfolded config_ok_iff, THEN conjunct1])

lemma configured_inv: "configured m \<Longrightarrow> config_inv m"
  by (induction rule: configured.induct)
    (simp_all add: config_inv_new config_inv_sizes config_inv_add_memory config_inv_add_memory_block config_inv_add_block config_inv_init_memory
      config_inv_init_isa config_inv_init_pc config_inv_program_bin config_inv_program_hex
      set_ro_base_def set_rw_base_def enable_debugging_def syscall_should_throw_def)

lemma config_ok_debugging [simp]: "config_ok (m\<lparr>debugging := b\<rparr>) = config_ok m"
  by (simp add: config_ok_iff)

lemma config_ok_init_pc: "config_ok m \<Longrightarrow> config_ok (snd (init_pc a m))"
  by (simp add: config_ok_iff config_inv_init_pc)

lemma config_ok_stored:
  assumes "config_ok m" and "find_block (mmu m) a n = Some b" and "block_store b a bs n = Inr (Some b')"
  shows "config_ok (m\<lparr>mmu := put_block b' (mmu m)\<rparr>)"
  using assms config_inv_stored [of m a n b bs b'] by (simp add: config_ok_iff block_fits_params)

lemma config_ok_program_bin: "config_ok m \<Longrightarrow> config_ok (snd (set_program_bin bin a m))"
  by (simp add: config_ok_iff block_fits_params config_inv_program_bin)

lemma start_eq:
  assumes "config_ok m"
  shows "if mmu_covers (mmu m) (initial_pc m) 4
    then start m = (Inr (), m\<lparr>registers := (replicate 33 0)[32 := initial_pc m], running := is_initialized m\<rparr>)
    else \<exists>msg. start m = (Inl (code_access_error msg), m\<lparr>registers := replicate 33 0\<rparr>)"
proof -
  from assms have len: "length (registers m) = 33" and mem: "mmu_ok (mmu m)"
    by (simp_all add: config_ok_def vm_ok_def)
  show ?thesis
  proof (cases "mmu_covers (mmu m) (initial_pc m) 4")
    case True
    then obtain b where "find_block (mmu m) (initial_pc m) 4 = Some b"
      using find_block_None_iff [OF mem, of 4 "initial_pc m"] by auto
    with True show ?thesis by (simp add: start_def action_simps set_pc_def len is_initialized_def)
  next
    case False
    then have "find_block (mmu m) (initial_pc m) 4 = None"
      using find_block_None_iff [OF mem, of 4 "initial_pc m"] by simp
    then show ?thesis using False by (simp add: start_def action_simps set_pc_def len)
  qed
qed

lemma started_inv:
  assumes "config_ok m" and "mmu_covers (mmu m) (initial_pc m) 4"
  shows "vm_inv (mmu_covers (mmu m)) (m\<lparr>registers := (replicate 33 0)[32 := initial_pc m], running := b\<rparr>)"
  using assms by (simp add: config_ok_def vm_inv_def vm_ok_def get_pc_def)

lemma add_code_block_new:
  assumes "ucast sz \<noteq> (0 :: u32)"
  shows "add_code_block a sz new_vm = (True, set_flag HAVE_CODE_BLOCK (new_vm\<lparr>mmu := [generic_memory a (ucast sz)]\<rparr>))"
  using assms by (simp add: add_code_block_def add_memory_def add_memory_block_def add_block_def new_vm_def
    have_code_block_def is_flag_set_def) (simp add: generic_memory_def)

section \<open>Properties\<close>

text \<open>
  C11: Whatever calls configured a machine, in whatever order, with whatever arguments and however often they
  failed, it has 33 registers with register 0 zero, it is not running, its instruction registry is the full set
  exactly when the flag says so, and its memory blocks are in the order of their addresses with all their bytes. If
  none of them ends in the last 256 bytes of the address space or beyond, they are apart, so that it is well-formed.
\<close>

theorem configured_machine:
  assumes "configured m"
  shows "length (registers m) = 33 \<and> registers m ! 0 = 0 \<and> \<not> running m
    \<and> opcodes m = (if is_flag_set m ISA_INITIALIZED then isa_registry else empty_registry)
    \<and> (have_code_block m \<or> have_data_block m \<longrightarrow> mmu m \<noteq> [])
    \<and> blocks_ok (mmu m) \<and> (list_all block_fits (mmu m) \<longrightarrow> vm_ok m)"
  using configured_inv [OF assms] by (auto simp: config_inv_def mmu_inv_def vm_ok_def)

theorem configured_machine_witness:
  "vm_ok (snd (init_isa (snd (add_code_block 0 8 (new_vm :: unit basic_vm)))))
    \<and> blocks_ok (mmu (snd (add_memory 0xFFFFFFF0 0x20 (new_vm :: unit basic_vm))))"
proof -
  let ?m = "snd (add_code_block 0 8 (new_vm :: unit basic_vm))"
  have "configured (snd (init_isa ?m))" "configured (snd (add_memory 0xFFFFFFF0 0x20 (new_vm :: unit basic_vm)))"
    by (intro configured.intros)+
  note this [THEN configured_machine]
  moreover have "mmu (snd (init_isa ?m)) = [generic_memory 0 8]"
    by (simp add: add_code_block_new init_isa_def Let_def split: prod.split)
  moreover have "block_fits (generic_memory 0 8)" by (simp add: block_fits_def generic_memory_def hi_def)
  ultimately show ?thesis by simp
qed

text \<open>
  C13: \<open>start\<close> clears the registers and jumps to the entry point if four bytes are mapped there, and
  throws \<open>code_access_error\<close> otherwise. The machine then runs exactly when code, data, instruction set and
  entry point were all set up, and a running machine has the full instruction set. As above, no block ends in the
  last 256 bytes of the address space or beyond.
\<close>

theorem start_result:
  assumes "configured m" and "list_all block_fits (mmu m)"
  shows "if mmu_covers (mmu m) (initial_pc m) 4
    then \<exists>m'. start m = (Inr (), m') \<and> vm_inv (mmu_covers (mmu m)) m' \<and> get_pc m' = initial_pc m
      \<and> (\<forall>q < register_count. reg_value m' q = 0) \<and> mmu m' = mmu m
      \<and> (running m' \<longleftrightarrow> is_initialized m) \<and> (running m' \<longrightarrow> opcodes m' = isa_registry)
    else \<exists>msg m'. start m = (Inl (code_access_error msg), m') \<and> \<not> running m'"
proof -
  have ok: "config_ok m" using configured_inv [OF assms(1)] assms(2) by (simp add: config_ok_iff)
  then have "\<not> running m" and "is_initialized m \<Longrightarrow> opcodes m = isa_registry"
    using initialized_flags [of m ISA_INITIALIZED] by (auto simp: config_ok_def)
  with start_eq [OF ok] started_inv [OF ok] show ?thesis
    by (auto simp: get_pc_def reg_value_def reg_less)
qed


section \<open>Loading a program\<close>

lemma set_program_found:
  assumes ok: "mmu_ok (mmu m)" and "have_code_block m" and "\<not> is_flag_set m PC_INITIALIZED"
    and "mmu_covers (mmu m) (code_base m) (of_nat (length bin))"
  shows "\<exists>mem. set_program_bin bin a m = (Inr True, set_flag PC_INITIALIZED (m\<lparr>initial_pc := a, mmu := mem\<rparr>))
    \<and> mmu_ok mem \<and> mmu_covers mem = mmu_covers (mmu m)
    \<and> mmu_byte mem = (\<lambda>x. if in_area (code_base m) (of_nat (length bin)) x then bin ! unat (x - code_base m)
          else mmu_byte (mmu m) x)"
proof -
  let ?n = "of_nat (length bin) :: u32"
  have n: "unat ?n \<le> length bin" by (simp add: unat_of_nat take_bit_nat_less_eq_self)
  from assms(4) obtain b where b: "b \<in> set (mmu m)" "covers b (code_base m) ?n" by (auto simp: mmu_covers_def)
  have f: "find_block (mmu m) (code_base m) ?n = Some b" by (rule find_block_covers [OF ok b])
  from mmu_store_covered [OF ok assms(4) n] obtain b' where
    st: "block_store b (code_base m) bin ?n = Inr (Some b')" and
    mem: "mmu_ok (put_block b' (mmu m))" "mmu_covers (put_block b' (mmu m)) = mmu_covers (mmu m)"
      "mmu_byte (put_block b' (mmu m)) = (\<lambda>x. if in_area (code_base m) ?n x then bin ! unat (x - code_base m)
          else mmu_byte (mmu m) x)"
    by (cases "block_store b (code_base m) bin ?n") (auto simp: mmu_store_def f)
  have "set_program_bin bin a m
      = (Inr True, set_flag PC_INITIALIZED (m\<lparr>initial_pc := a, mmu := put_block b' (mmu m)\<rparr>))"
    using assms(2,3) f st by (simp add: set_program_bin_def init_pc_def Let_def ret_def) (simp add: set_flag_def)
  with mem show ?thesis by blast
qed

lemma nth_program:
  "i < length ws \<Longrightarrow> k < 4 \<Longrightarrow> concat (map (le_bytes 4) ws) ! (4 * i + k) = le_bytes 4 (ws ! i) ! k"
proof (induction ws arbitrary: i)
  case (Cons w ws)
  then show ?case by (cases i) (auto simp: nth_append)
qed simp

lemma length_program [simp]: "length (concat (map (le_bytes 4) ws)) = 4 * length ws"
  by (induction ws) simp_all

text \<open>
  C16: Loading and fetching. A program of 32-bit instructions, written little-endian into an image that
  fits the code block, is loaded successfully; every instruction is then fetched as it was written, the
  entry point is the one given, and memory outside the image is unchanged.
\<close>

theorem program_roundtrip:
  assumes "vm_ok m" and "have_code_block m" and "\<not> is_flag_set m PC_INITIALIZED"
    and "4 * length ws < 2 ^ 32" and "mmu_covers (mmu m) (code_base m) (of_nat (4 * length ws))"
  shows "\<exists>m'. set_program_bin (concat (map (le_bytes 4) ws)) a m = (Inr True, m') \<and> vm_ok m'
    \<and> initial_pc m' = a \<and> is_flag_set m' PC_INITIALIZED
    \<and> (\<forall>i < length ws. arch_load (code_base m + 4 * of_nat i) 4 (abs_vm m') = ws ! i)
    \<and> (\<forall>x. \<not> in_area (code_base m) (of_nat (4 * length ws)) x \<longrightarrow> mmu_byte (mmu m') x = mmu_byte (mmu m) x)"
proof -
  let ?bin = "concat (map (le_bytes 4) ws)" and ?c = "code_base m" and ?n = "of_nat (4 * length ws) :: u32"
  have ok: "mmu_ok (mmu m)" using assms(1) by (simp add: vm_ok_def)
  from set_program_found [OF ok assms(2,3), of ?bin a] assms(4,5) obtain mem where
    r: "set_program_bin ?bin a m = (Inr True, set_flag PC_INITIALIZED (m\<lparr>initial_pc := a, mmu := mem\<rparr>))"
    and mem: "mmu_ok mem" and byte: "mmu_byte mem = (\<lambda>x. if in_area ?c ?n x then ?bin ! unat (x - ?c)
          else mmu_byte (mmu m) x)"
    by auto
  let ?m = "set_flag PC_INITIALIZED (m\<lparr>initial_pc := a, mmu := mem\<rparr>)"
  have n: "unat ?n = 4 * length ws" using assms(4) by (rule unat_of_nat_u32)
  have "arch_load (?c + 4 * of_nat i) 4 (abs_vm ?m) = ws ! i" if i: "i < length ws" for i
  proof -
    have "arch_mem (abs_vm ?m) (?c + 4 * of_nat i + of_nat k) = le_bytes 4 (ws ! i) ! k" if k: "k < 4" for k
    proof -
      have eq: "?c + 4 * of_nat i + of_nat k - ?c = (of_nat (4 * i + k) :: u32)" by simp
      have "4 * i + k < 4 * length ws" using i k by linarith
      then have u: "unat (of_nat (4 * i + k) :: u32) = 4 * i + k"
        using assms(4) by (intro unat_of_nat_u32) linarith
      with i k have "in_area ?c ?n (?c + 4 * of_nat i + of_nat k)"
        unfolding in_area_def eq u n by linarith
      then have "mmu_byte mem (?c + 4 * of_nat i + of_nat k) = ?bin ! (4 * i + k)"
        unfolding byte eq u by simp
      then show ?thesis by (simp add: abs_vm_def nth_program [OF i k])
    qed
    then have "arch_bytes (?c + 4 * of_nat i) 4 (abs_vm ?m) = le_bytes 4 (ws ! i)"
      unfolding arch_bytes_def by (intro nth_equalityI) simp_all
    then show ?thesis by (simp add: arch_load_def)
  qed
  with r byte assms(1) mem show ?thesis by (auto simp: vm_ok_def)
qed

text \<open>
  C33: A program that does not fit the memory is refused, but only after the entry point was recorded.
  The machine then counts as having a program: every later attempt, with an image that fits or with an
  Intel HEX file, is refused without looking at it. The image, of any size, would end inside the 32-bit address space.
\<close>

theorem failed_load_blocks_loading:
  assumes "have_code_block m" and "\<not> is_flag_set m PC_INITIALIZED" and "unat (code_base m) + length bin < 2 ^ 32"
    and "\<not> mmu_covers (mmu m) (code_base m) (of_nat (length bin))"
  shows "\<exists>m'. set_program_bin bin a m = (Inr False, m') \<and> mmu m' = mmu m \<and> is_flag_set m' PC_INITIALIZED
    \<and> (\<forall>bin' a'. set_program_bin bin' a' m' = (Inr False, m'))
    \<and> (\<forall>hex e. set_program_hex e hex m' = (Inr False, m'))"
proof -
  have "unat (of_nat (length bin) :: u32) = length bin" using assms(3) by (intro unat_of_nat_u32) simp
  with assms(3,4) have "find_block (mmu m) (code_base m) (of_nat (length bin)) = None"
    by (simp add: find_block_None_low)
  then have "set_program_bin bin a m = (Inr False, set_flag PC_INITIALIZED (m\<lparr>initial_pc := a\<rparr>))"
    using assms(1,2) by (simp add: set_program_bin_def init_pc_def Let_def ret_def)
  then show ?thesis
    by (auto simp: set_program_bin_def set_program_hex_def init_pc_def ret_def)
qed

lemma coded_vm:
  "vm_ok (snd (add_code_block 0 8 new_vm))" "have_code_block (snd (add_code_block 0 8 new_vm))"
  "\<not> is_flag_set (snd (add_code_block 0 8 new_vm)) PC_INITIALIZED"
  "code_base (snd (add_code_block 0 8 new_vm)) = 0" "initial_pc (snd (add_code_block 0 8 new_vm)) = 0"
  "mmu (snd (add_code_block 0 8 new_vm)) = [generic_memory 0 8]"
  by (simp_all add: add_code_block_new have_code_block_def)
    (simp_all add: new_vm_def vm_ok_def mmu_ok_def block_ok_def block_fits_def generic_memory_def hi_def
      is_flag_set_def def_code_base_def)

lemma covers_8: "mmu_covers [generic_memory 0 8] a n \<longleftrightarrow> unat a < 8 \<and> unat a + unat n \<le> 8"
  by (simp add: mmu_covers_def covers_def within_def in_range_at_iff generic_memory_def hi_def lo_def)

theorem start_result_witness:
  "\<exists>m'. start (snd (add_code_block 0 8 new_vm) :: unit basic_vm) = (Inr (), m') \<and> get_pc m' = 0 \<and> \<not> running m'"
proof -
  let ?m = "snd (add_code_block 0 8 new_vm) :: unit basic_vm"
  have "configured ?m" by (intro configured.intros)
  moreover have "list_all block_fits (mmu ?m)" by (simp add: coded_vm block_fits_def generic_memory_def hi_def)
  moreover have "mmu_covers (mmu ?m) (initial_pc ?m) 4" by (simp add: coded_vm covers_8)
  moreover have "\<not> is_initialized ?m" using coded_vm(3) initialized_flags by blast
  ultimately show ?thesis using start_result [of ?m] by (auto simp: coded_vm)
qed

theorem program_roundtrip_witness:
  "\<exists>m'. set_program_bin (concat (map (le_bytes 4) [0x00500093, 0x73])) 4 (snd (add_code_block 0 8 new_vm) :: unit basic_vm)
      = (Inr True, m') \<and> initial_pc m' = 4 \<and> arch_load 4 4 (abs_vm m') = 0x73"
proof -
  let ?m = "snd (add_code_block 0 8 new_vm) :: unit basic_vm" and ?ws = "[0x00500093, 0x73] :: u32 list"
  have "mmu_covers (mmu ?m) (code_base ?m) (of_nat (4 * length ?ws))" by (simp add: coded_vm covers_8)
  from program_roundtrip [OF coded_vm(1-3) _ this, of 4] obtain m' where
    "set_program_bin (concat (map (le_bytes 4) ?ws)) 4 ?m = (Inr True, m')" "initial_pc m' = 4"
    "\<forall>i < length ?ws. arch_load (code_base ?m + 4 * of_nat i) 4 (abs_vm m') = ?ws ! i"
    by auto
  then show ?thesis by (auto simp: coded_vm dest: spec [of _ 1])
qed

text \<open>The code block of 4 MiB that \<open>init_memory\<close> adds, and an image with one byte more.\<close>

theorem failed_load_blocks_loading_witness:
  "\<exists>bin m'. length bin = 0x400001
    \<and> set_program_bin bin 0 (snd (add_code_block def_code_base def_code_size new_vm) :: unit basic_vm) = (Inr False, m')
    \<and> set_program_bin [0x73, 0, 0, 0] 0 m' = (Inr False, m')"
proof -
  let ?m = "snd (add_code_block def_code_base def_code_size new_vm) :: unit basic_vm"
  have sz: "ucast def_code_size = (0x400000 :: u32)" by (simp add: def_code_size_def)
  have m: "?m = set_flag HAVE_CODE_BLOCK (new_vm\<lparr>mmu := [generic_memory def_code_base 0x400000]\<rparr>)"
    by (simp add: add_code_block_new sz)
  obtain bin :: "u8 list" where bin: "length bin = 0x400001" using Ex_list_of_length by blast
  have "have_code_block ?m" "\<not> is_flag_set ?m PC_INITIALIZED" "code_base ?m = 0"
    unfolding m by (simp_all add: have_code_block_def) (simp_all add: new_vm_def is_flag_set_def def_code_base_def)
  moreover have "\<not> mmu_covers (mmu ?m) 0 (of_nat (length bin))"
    unfolding m by (simp add: bin mmu_covers_def covers_def within_def)
      (simp add: generic_memory_def hi_def def_code_base_def)
  ultimately show ?thesis using failed_load_blocks_loading [of ?m bin 0] bin by auto
qed

end
