(* ===== verification/Hex_Format.thy ===== *)
theory Hex_Format
  imports Utility
begin

text \<open>
  The Intel HEX format as text, and what the parser of theory \<open>Utility\<close> makes of it: the inverse of
  writing a record, the meaning of the checksum, and the lines on which the parser leaves the buffer.
\<close>

section \<open>Writing records\<close>

definition hex_text :: "u8 list \<Rightarrow> string" where
  "hex_text bytes = concat (map (\<lambda>b. [''0123456789ABCDEF'' ! (unat b div 16), ''0123456789ABCDEF'' ! (unat b mod 16)]) bytes)"

definition record_bytes :: "u16 \<Rightarrow> u8 \<Rightarrow> u8 list \<Rightarrow> u8 list" where
  "record_bytes offs ty data = [of_nat (length data), ucast (drop_bit 8 offs), ucast offs, ty] @ data"

definition record_line :: "u16 \<Rightarrow> u8 \<Rightarrow> u8 list \<Rightarrow> string" where
  "record_line offs ty data =
     (let bytes = record_bytes offs ty data in CHR '':'' # hex_text (bytes @ [- sum_list bytes]))"

definition written_record :: "u16 \<Rightarrow> u8 \<Rightarrow> u8 list \<Rightarrow> hex_record" where
  "written_record offs ty data =
     (let sum = - sum_list (record_bytes offs ty data)
      in \<lparr>rec_count = of_nat (length data), rec_type = ty, sum_expected = sum, sum_actual = sum,
          rec_offset = offs, rec_data = data\<rparr>)"

section \<open>Digits and checksums\<close>

lemma hex_digit_value:
  assumes "n < 16"
  shows "from_hex_char (''0123456789ABCDEF'' ! n) = of_nat n"
proof -
  from assms have "n \<in> set [0..<16]" by simp
  then show ?thesis
    by (simp add: upt_rec from_hex_char_def char_in_range_def) auto
qed

lemma nibbles: "push_bit 4 (of_nat (unat b div 16)) OR of_nat (unat b mod 16) = (b :: u8)"
proof -
  have "of_nat (unat b div 16) = drop_bit 4 b" "of_nat (unat b mod 16) = take_bit 4 b"
    by (simp_all add: drop_bit_eq_div take_bit_eq_mod unat_div_distrib unat_mod_distrib word_arith_nat_div word_arith_nat_mod)
  then show ?thesis by (auto intro!: bit_eqI simp: bit_simps)
qed

lemma from_hex_text [simp]: "from_hex (hex_text bytes @ cs) = bytes @ from_hex cs"
proof (induction bytes)
  case Nil
  then show ?case by (simp add: hex_text_def)
next
  case (Cons b bytes)
  have "unat b < 256" using unsigned_less [of b] by simp
  then have "unat b div 16 < 16" "unat b mod 16 < 16" by simp_all
  with Cons show ?case by (simp add: hex_text_def hex_digit_value nibbles)
qed

lemma length_hex_text [simp]: "length (hex_text bytes) = 2 * length bytes"
  by (induction bytes) (simp_all add: hex_text_def)

lemma fold_sum: "fold (\<lambda>b sum. sum + b) bytes s = s + sum_list (bytes :: u8 list)"
  by (induction bytes arbitrary: s) (simp_all add: ac_simps)

lemma hex_checksum_eq: "hex_checksum bytes = - sum_list bytes"
  by (simp add: hex_checksum_def fold_sum not_eq_complement)


section \<open>Parsing what was written\<close>

definition parsed_record :: "u8 list \<Rightarrow> hex_record" where
  "parsed_record bytes =
     \<lparr>rec_count = bytes ! 0, rec_type = bytes ! 3, sum_expected = last bytes,
      sum_actual = - sum_list (butlast bytes),
      rec_offset = push_bit 8 (ucast (bytes ! 1)) OR ucast (bytes ! 2),
      rec_data = take (unat (bytes ! 0)) (drop 4 bytes)\<rparr>"

lemma parse_hex_record_text:
  "parse_hex_record (hex_text bytes) =
     (if length bytes < 4 \<or> length bytes < 4 + unat (bytes ! 0) then Inl (undefined Out_Of_Bounds)
      else Inr (parsed_record bytes))"
  using from_hex_text [of bytes "[]"] by (simp add: parse_hex_record_def parsed_record_def hex_checksum_eq)

lemma parsed_record_valid:
  assumes "4 + unat (bytes ! 0) \<le> length bytes"
  shows "is_valid (parsed_record bytes) \<longleftrightarrow> sum_list bytes = 0"
proof -
  have "bytes \<noteq> []" using assms by auto
  then have "sum_list bytes = sum_list (butlast bytes) + last bytes"
    by (metis append_butlast_last_id sum_list.append sum_list.Cons sum_list.Nil add.right_neutral)
  moreover have "length (rec_data (parsed_record bytes)) = unat (bytes ! 0)"
    using assms by (simp add: parsed_record_def)
  ultimately show ?thesis
    by (simp add: is_valid_def) (simp add: parsed_record_def neg_eq_iff_add_eq_0)
qed

lemma find_colon_first: "CHR '':'' \<notin> set pre \<Longrightarrow> find_colon (pre @ CHR '':'' # cs) = Some (length pre)"
  by (auto simp: find_colon_def find_Some_iff nth_append in_set_conv_nth intro!: exI [of _ "length pre"])

lemma hex_text_Cons: "hex_text (b # bytes) =
    ''0123456789ABCDEF'' ! (unat b div 16) # ''0123456789ABCDEF'' ! (unat b mod 16) # hex_text bytes"
  by (simp add: hex_text_def)

lemma count_digits:
  "unat (push_bit 4 (ucast (from_hex_char (''0123456789ABCDEF'' ! (unat (b :: u8) div 16))))
     OR ucast (from_hex_char (''0123456789ABCDEF'' ! (unat b mod 16))) :: u32) = unat b"
proof -
  have b: "unat b < 256" using unsigned_less [of b] by simp
  then have "unat b div 16 < 16" "unat b mod 16 < 16" by simp_all
  moreover have "(push_bit 4 (ucast (of_nat (unat b div 16) :: u8)) OR ucast (of_nat (unat b mod 16) :: u8) :: u32) = ucast b"
  proof -
    have "of_nat (unat b div 16) = drop_bit 4 b" "of_nat (unat b mod 16) = take_bit 4 b"
      by (simp_all add: drop_bit_eq_div take_bit_eq_mod word_arith_nat_div word_arith_nat_mod)
    then show ?thesis by (auto intro!: bit_word_eqI simp: bit_simps dest: bit_imp_le_length)
  qed
  ultimately show ?thesis by (simp add: hex_digit_value unsigned_ucast_eq take_bit_nat_eq_self b)
qed

text \<open>A line that holds whole bytes, after some text without a colon.\<close>

lemma parse_line_bytes:
  assumes "CHR '':'' \<notin> set pre" and "4 \<le> length bytes"
  shows "parse_line (pre @ CHR '':'' # hex_text (cnt # bytes)) =
    (if unat cnt > 2 * (length bytes - 4) then Inr Fail
     else if length bytes < 3 + unat cnt then Inl (undefined Out_Of_Bounds)
     else Inr (Parsed (parsed_record (cnt # bytes))))"
proof -
  obtain k where "length bytes = 4 + k" using assms(2) le_Suc_ex by blast
  then show ?thesis
    using assms(1) parse_hex_record_text [of "cnt # bytes"]
    by (simp add: parse_line_def find_colon_first min_record_size_def Let_def hex_text_Cons count_digits)
qed


lemma parse_record_line: "CHR '':'' \<notin> set pre \<Longrightarrow>
    parse_line (pre @ record_line offs ty data) = parse_line (pre @ CHR '':'' # hex_text (record_bytes offs ty data @ [- sum_list (record_bytes offs ty data)]))"
  by (simp add: record_line_def Let_def)

lemma offset_bytes: "push_bit 8 (ucast (ucast (drop_bit 8 offs) :: u8)) OR ucast (ucast offs :: u8) = (offs :: u16)"
  by (auto intro!: bit_word_eqI simp: bit_simps dest: bit_imp_le_length)

lemma parsed_written:
  assumes "length data \<le> 255"
  shows "parsed_record (record_bytes offs ty data @ [- sum_list (record_bytes offs ty data)]) = written_record offs ty data"
proof -
  have "unat (of_nat (length data) :: u8) = length data"
    using assms by (simp add: unat_of_nat take_bit_nat_eq_self)
  then show ?thesis
    by (simp add: parsed_record_def written_record_def Let_def record_bytes_def offset_bytes butlast_append)
qed

lemma parse_line_written:
  assumes "CHR '':'' \<notin> set pre" and "length data \<le> 255"
  shows "parse_line (pre @ record_line offs ty data) = Inr (Parsed (written_record offs ty data))"
proof -
  let ?bytes = "record_bytes offs ty data" and ?cnt = "of_nat (length data) :: u8"
  have cnt: "unat ?cnt = length data" using assms(2) by (simp add: unat_of_nat take_bit_nat_eq_self)
  have "?bytes @ [- sum_list ?bytes] = ?cnt # [ucast (drop_bit 8 offs), ucast offs, ty] @ data @ [- sum_list ?bytes]"
    by (simp add: record_bytes_def)
  with parse_line_bytes [OF assms(1), of "[ucast (drop_bit 8 offs), ucast offs, ty] @ data @ [- sum_list ?bytes]" ?cnt]
    parsed_written [OF assms(2), of offs ty]
  show ?thesis by (simp add: parse_record_line [OF assms(1)] cnt)
qed

lemma valid_written: "length data \<le> 255 \<Longrightarrow> is_valid (written_record offs ty data)"
  by (simp add: is_valid_def written_record_def Let_def unat_of_nat take_bit_nat_eq_self)

section \<open>Lines\<close>

lemma get_lines_line: "CHR 0x0A \<notin> set l \<Longrightarrow> get_lines acc (l @ CHR 0x0A # cs) = (acc @ l) # get_lines [] cs"
  by (induction l arbitrary: acc) auto

lemma hex_text_chars: "set (hex_text bytes) \<subseteq> set ''0123456789ABCDEF''"
proof (induction bytes)
  case Nil
  then show ?case by (simp add: hex_text_def)
next
  case (Cons b bytes)
  have "unat b < 256" using unsigned_less [of b] by simp
  then have "unat b div 16 < length ''0123456789ABCDEF''" "unat b mod 16 < length ''0123456789ABCDEF''" by simp_all
  with Cons show ?case unfolding hex_text_Cons by (metis list.set(2) insert_subset nth_mem)
qed

lemma record_line_newline: "CHR 0x0A \<notin> set (record_line offs ty data)"
  using hex_text_chars by (force simp: record_line_def Let_def)

definition file_text :: "(u16 \<times> u8 \<times> u8 list) list \<Rightarrow> string" where
  "file_text rs = concat (map (\<lambda>(offs, ty, data). record_line offs ty data @ [CHR 0x0A]) rs)"

lemma file_text_single: "file_text [(offs, ty, data)] = record_line offs ty data @ [CHR 0x0A]"
  by (simp add: file_text_def)

lemma sum_list_replace: "i < length bytes \<Longrightarrow> sum_list (bytes[i := x]) = sum_list bytes - bytes ! i + (x :: u8)"
  by (induction bytes arbitrary: i) (auto split: nat.split)

lemma known_type: "ty < 6 \<longleftrightarrow> ty \<in> {0, 1, 2, 3, 4, 5 :: u8}"
proof -
  have "ty < 6 \<longleftrightarrow> unat ty < 6" by (simp add: word_less_nat_alt)
  also have "\<dots> \<longleftrightarrow> unat ty \<in> {0, 1, 2, 3, 4, 5}" by auto
  finally show ?thesis by (simp add: word_unat_eq_iff)
qed

lemma get_type_eq: "get_type r = (if rec_type r = 0 then HEX_DATA else if rec_type r = 1 then HEX_EOF
    else if rec_type r = 2 then HEX_SEGMENT_EXTEND else if rec_type r = 3 then HEX_SEGMENT_START
    else if rec_type r = 4 then HEX_LINEAR_EXTEND else if rec_type r = 5 then HEX_LINEAR_START else HEX_UNKNOWN)"
  by (auto simp: get_type_def known_type)

lemma is_eof_written: "is_eof (written_record offs ty data) \<longleftrightarrow> ty = 1"
  by (simp add: is_eof_def get_type_eq written_record_def Let_def)

lemma parse_lines_written:
  assumes "\<forall>(offs, ty, data) \<in> set rs. ty \<noteq> 1 \<and> length data \<le> 255"
  shows "parse_lines (get_lines [] (file_text rs @ cs)) acc
    = parse_lines (get_lines [] cs) (acc @ map (\<lambda>(offs, ty, data). written_record offs ty data) rs)"
  using assms
proof (induction rs arbitrary: acc)
  case Nil
  then show ?case by (simp add: file_text_def)
next
  case (Cons r rs)
  obtain offs ty data where r: "r = (offs, ty, data)" by (cases r)
  then show ?case
    using Cons parse_line_written [of "[]" data offs ty]
    by (simp add: file_text_def get_lines_line record_line_newline is_eof_written)
qed


lemma parse_written_file:
  assumes "\<forall>(offs, ty, data) \<in> set rs. ty \<noteq> 1 \<and> length data \<le> 255" and "length eof \<le> 255"
  shows "parse_hex (file_text rs @ file_text [(offs, 1, eof)] @ cs)
    = Inr (Some (map (\<lambda>(offs, ty, data). written_record offs ty data) (rs @ [(offs, 1, eof)])))"
  using parse_line_written [of "[]" eof offs 1] assms(2)
  by (simp add: parse_hex_def parse_lines_written [OF assms(1)] file_text_single get_lines_line
    record_line_newline is_eof_written)

section \<open>Properties\<close>

text \<open>
  C27: The parser inverts writing. A file of lines, one for each record and the last one of type EOF,
  parses to exactly these records, each of them valid; whatever follows the EOF record is not looked at.
\<close>

theorem file_roundtrip:
  assumes "\<forall>(offs, ty, data) \<in> set rs. ty \<noteq> 1 \<and> length data \<le> 255" and "length eof \<le> 255"
  shows "\<exists>records. parse_hex (file_text rs @ file_text [(offs, 1, eof)] @ anything) = Inr (Some records)
    \<and> records = map (\<lambda>(offs, ty, data). written_record offs ty data) (rs @ [(offs, 1, eof)])
    \<and> (\<forall>r \<in> set records. is_valid r)"
proof -
  note parse_written_file [OF assms]
  moreover have "\<forall>r \<in> set (map (\<lambda>(offs, ty, data). written_record offs ty data) (rs @ [(offs, 1, eof)])). is_valid r"
    using assms by (auto simp: valid_written)
  ultimately show ?thesis by blast
qed

theorem file_roundtrip_witness:
  "\<exists>records. parse_hex (file_text [(0x10, 0, [0x93, 0x00])] @ file_text [(0, 1, [])] @ ''garbage'') = Inr (Some records)
    \<and> length records = 2"
  using file_roundtrip [of "[(0x10, 0, [0x93, 0x00])]" "[]" 0 "''garbage''"] by auto

text \<open>
  C28: What becomes of a valid record line in which any single byte is changed. A larger byte count can make the line
  too short for the parser, which then refuses it or, since it requires one character for each byte, reads past its
  end. In all other cases the line is parsed, and the record is not valid: all bytes of a valid line, trailing ones
  included, add up to 0, which the changed ones do not.
\<close>

theorem changed_byte:
  assumes "parse_line (CHR '':'' # hex_text bytes) = Inr (Parsed r)" and "is_valid r"
    and "i < length bytes" and "x \<noteq> bytes ! i"
  shows "sum_list bytes = 0
    \<and> (if i = 0 \<and> 2 * (length bytes - 5) < unat x then parse_line (CHR '':'' # hex_text (bytes[i := x])) = Inr Fail
       else if i = 0 \<and> length bytes < 4 + unat x
       then parse_line (CHR '':'' # hex_text (bytes[i := x])) = Inl (undefined Out_Of_Bounds)
       else \<exists>r'. parse_line (CHR '':'' # hex_text (bytes[i := x])) = Inr (Parsed r') \<and> \<not> is_valid r')"
proof -
  have five: "5 \<le> length bytes"
    using assms(1) find_colon_first [of "[]" "hex_text bytes"]
    by (auto simp: parse_line_def min_record_size_def split: if_splits)
  then obtain cnt rest where bytes: "bytes = cnt # rest" and rest: "4 \<le> length rest" by (cases bytes) auto
  have r: "r = parsed_record bytes" and cnt: "unat cnt \<le> 2 * (length rest - 4)" "3 + unat cnt \<le> length rest"
    using assms(1) parse_line_bytes [of "[]" rest cnt] rest by (auto simp: bytes split: if_splits)
  have sum: "sum_list bytes = 0" using assms(2) r cnt parsed_record_valid [of bytes] by (simp add: bytes)
  have "sum_list (bytes[i := x]) = sum_list bytes - bytes ! i + x"
    using assms(3) by (rule sum_list_replace)
  with sum assms(4) have bad: "sum_list (bytes[i := x]) \<noteq> 0" by simp
  have invalid: "\<not> is_valid (parsed_record (bytes[i := x]))" if "4 + unat (bytes[i := x] ! 0) \<le> length bytes"
    using parsed_record_valid [of "bytes[i := x]"] that bad by simp
  show ?thesis
  proof (cases i)
    case 0
    with parse_line_bytes [of "[]" rest x] rest sum invalid show ?thesis by (simp add: bytes)
  next
    case (Suc j)
    with parse_line_bytes [of "[]" "rest[j := x]" cnt] rest cnt sum invalid show ?thesis by (simp add: bytes)
  qed
qed

theorem changed_byte_witness:
  "\<exists>r. parse_line '':020000001020CE'' = Inr (Parsed r) \<and> is_valid r
     \<and> (\<exists>r'. parse_line '':020000001120CE'' = Inr (Parsed r') \<and> \<not> is_valid r')
     \<and> parse_line '':040000001020CE'' = Inl (undefined Out_Of_Bounds) \<and> parse_line '':050000001020CE'' = Inr Fail"
proof -
  let ?b = "[2, 0, 0, 0, 0x10, 0x20, 0xCE] :: u8 list"
  have p: "parse_line (CHR '':'' # hex_text ?b) = Inr (Parsed (parsed_record ?b))"
    using parse_line_bytes [of "[]" "tl ?b" 2] by simp
  moreover have v: "is_valid (parsed_record ?b)" by (simp add: parsed_record_valid)
  moreover have "CHR '':'' # hex_text ?b = '':020000001020CE''" "CHR '':'' # hex_text (?b[4 := 0x11]) = '':020000001120CE''"
    "CHR '':'' # hex_text (?b[0 := 4]) = '':040000001020CE''" "CHR '':'' # hex_text (?b[0 := 5]) = '':050000001020CE''"
    by (simp_all add: hex_text_def)
  ultimately show ?thesis
    using changed_byte [OF p v, of 4 "0x11"] changed_byte [OF p v, of 0 4] changed_byte [OF p v, of 0 5]
    by auto
qed

text \<open>
  C34: What the parser does with a line of whole bytes. The length check counts each data byte as one
  character instead of two: a line whose data is cut off is accepted and read past its end when at least
  half of the data is there; a line that lacks only the checksum takes the last data byte for it.
\<close>

theorem line_of_bytes:
  assumes "CHR '':'' \<notin> set pre" and "4 \<le> length bytes"
  shows "if unat cnt > 2 * (length bytes - 4) then parse_line (pre @ CHR '':'' # hex_text (cnt # bytes)) = Inr Fail
    else if length bytes < 3 + unat cnt
    then parse_line (pre @ CHR '':'' # hex_text (cnt # bytes)) = Inl (undefined Out_Of_Bounds)
    else \<exists>r. parse_line (pre @ CHR '':'' # hex_text (cnt # bytes)) = Inr (Parsed r) \<and> rec_count r = cnt
      \<and> rec_data r = take (unat cnt) (drop 3 bytes) \<and> sum_expected r = last bytes"
  using assms by (simp add: parse_line_bytes parsed_record_def)

theorem line_of_bytes_witness:
  "parse_line '':04000000AABBCC'' = Inl (undefined Out_Of_Bounds)"
proof -
  have "CHR '':'' # hex_text (4 # [0, 0, 0, 0xAA, 0xBB, 0xCC]) = '':04000000AABBCC''" by (simp add: hex_text_def)
  then show ?thesis using line_of_bytes [of "[]" "[0, 0, 0, 0xAA, 0xBB, 0xCC]" 4] by simp
qed

end
