(* ===== verification/Hex_Loading.thy ===== *)
theory Hex_Loading
  imports VM_Program Hex_Format
begin

text \<open>
  What \<open>set_program\<close> does with Intel HEX records: the memory image and the entry point that a list of records
  stands for, and from there the way of a program from the text of a file into the memory of the machine.
\<close>

section \<open>The image of a list of records\<close>

type_synonym segment = "address_t \<times> u8 list"

fun hex_image :: "hex_record list \<Rightarrow> address_t \<Rightarrow> address_t \<Rightarrow> (segment list \<times> address_t) option" where
  "hex_image [] offs entry = None"
| "hex_image (r # rs) offs entry =
     (if \<not> is_valid r then None
      else case get_type r of
             HEX_DATA \<Rightarrow> map_option (apfst (Cons (offs + ucast (rec_offset r), rec_data r))) (hex_image rs offs entry)
           | HEX_EOF \<Rightarrow> Some ([], entry)
           | HEX_SEGMENT_START \<Rightarrow> hex_image rs offs (get_start r)
           | HEX_LINEAR_START \<Rightarrow> hex_image rs offs (get_start r)
           | HEX_SEGMENT_EXTEND \<Rightarrow> hex_image rs (get_extend r) entry
           | HEX_LINEAR_EXTEND \<Rightarrow> hex_image rs (get_extend r) entry
           | HEX_UNKNOWN \<Rightarrow> None)"

definition put_segment :: "segment \<Rightarrow> (address_t \<Rightarrow> u8) \<Rightarrow> address_t \<Rightarrow> u8" where
  "put_segment s f x = (case s of (a, bytes) \<Rightarrow>
     if in_area a (of_nat (length bytes)) x then bytes ! unat (x - a) else f x)"

definition storable :: "bool \<Rightarrow> 'c basic_vm \<Rightarrow> segment \<Rightarrow> bool" where
  "storable empty_null m s \<longleftrightarrow> (case s of (a, bytes) \<Rightarrow>
     mmu_covers (mmu m) a (of_nat (length bytes)) \<and> \<not> (bytes = [] \<and> empty_null))"

section \<open>Loading is the image\<close>

lemma data_record_cases:
  assumes ok: "mmu_ok (mmu m)" and len: "length bytes \<le> 255"
  shows "if storable e m (a, bytes)
    then \<exists>mem. load_data_record e a bytes m = (Inr True, m\<lparr>mmu := mem\<rparr>) \<and> mmu_ok mem
      \<and> mmu_covers mem = mmu_covers (mmu m) \<and> mmu_byte mem = put_segment (a, bytes) (mmu_byte (mmu m))
    else load_data_record e a bytes m = (Inr False, m)"
proof -
  let ?n = "of_nat (length bytes) :: u32"
  have n: "unat ?n = length bytes" using len by (intro unat_of_nat_u32) simp
  show ?thesis
  proof (cases "find_block (mmu m) a ?n")
    case None
    then have "\<not> mmu_covers (mmu m) a ?n" using find_block_None_iff [OF ok, of ?n a] n len by simp
    then show ?thesis using None by (simp add: storable_def load_data_record_def ret_def)
  next
    case (Some b)
    then have cov: "mmu_covers (mmu m) a ?n" using find_block_None_iff [OF ok, of ?n a] n len by simp
    from find_block_store [OF ok Some, of bytes] n len obtain b' where
      st: "block_store b a bytes ?n = Inr (Some b')" and mem: "mmu_ok (put_block b' (mmu m))"
        "mmu_covers (put_block b' (mmu m)) = mmu_covers (mmu m)"
        "mmu_byte (put_block b' (mmu m)) = (\<lambda>x. if in_area a ?n x then bytes ! unat (x - a) else mmu_byte (mmu m) x)"
      by auto
    show ?thesis
    proof (cases "bytes = [] \<and> e")
      case True
      then show ?thesis using Some by (simp add: storable_def load_data_record_def ret_def)
    next
      case False
      then have "load_data_record e a bytes m = (Inr True, m\<lparr>mmu := put_block b' (mmu m)\<rparr>)"
        using Some st by (auto simp: load_data_record_def ret_def Let_def)
      with False cov mem show ?thesis by (auto simp: storable_def put_segment_def fun_eq_iff)
    qed
  qed
qed

text \<open>What a load of an image \<open>img\<close> into the machine \<open>m\<close> ends with, \<open>mem\<close> being the memory afterwards.\<close>

definition image_loaded ::
  "bool \<Rightarrow> 'c basic_vm \<Rightarrow> (segment list \<times> address_t) option \<Rightarrow> memory_management_unit \<Rightarrow> (exn + bool) \<times> 'c basic_vm \<Rightarrow> bool" where
  "image_loaded empty_null m img mem res \<longleftrightarrow>
     (case img of
        None \<Rightarrow> res = (Inr False, m\<lparr>mmu := mem\<rparr>)
      | Some (segs, start_pc) \<Rightarrow>
          if list_all (storable empty_null m) segs
          then res = (Inr True, set_flag PC_INITIALIZED (m\<lparr>initial_pc := start_pc, mmu := mem\<rparr>))
            \<and> mmu_byte mem = fold put_segment segs (mmu_byte (mmu m))
          else res = (Inr False, m\<lparr>mmu := mem\<rparr>))"

lemma image_loaded_step:
  assumes "storable e m s" and "mmu_byte mem = put_segment s (mmu_byte (mmu m))" and "mmu_covers mem = mmu_covers (mmu m)"
    and "image_loaded e (m\<lparr>mmu := mem\<rparr>) img mem' res"
  shows "image_loaded e m (map_option (apfst (Cons s)) img) mem' res"
proof -
  have "storable e (m\<lparr>mmu := mem\<rparr>) = storable e m" using assms(3) by (simp add: storable_def fun_eq_iff)
  moreover have "m\<lparr>mmu := mem, initial_pc := entry, mmu := mem'\<rparr> = m\<lparr>initial_pc := entry, mmu := mem'\<rparr>" for entry
    by simp
  ultimately show ?thesis using assms(1,2,4) by (auto simp: image_loaded_def split: option.splits if_splits)
qed

lemma load_records_image:
  assumes "mmu_ok (mmu m)" and "\<not> is_flag_set m PC_INITIALIZED"
  shows "\<exists>mem. mmu_ok mem \<and> mmu_covers mem = mmu_covers (mmu m)
    \<and> image_loaded e m (hex_image rs offs entry) mem (load_records e rs offs entry m)"
  using assms
proof (induction e rs offs entry m rule: load_records.induct)
  case (1 e offs entry m)
  then show ?case by (intro exI [of _ "mmu m"]) (simp add: ret_def image_loaded_def)
next
  case (2 e r rs offs entry m)
  consider (same) "\<not> is_valid r \<or> get_type r \<in> {HEX_EOF, HEX_UNKNOWN}"
    | (skip) "is_valid r" "get_type r \<notin> {HEX_EOF, HEX_UNKNOWN, HEX_DATA}"
    | (data) "is_valid r" "get_type r = HEX_DATA" by blast
  then show ?case
  proof cases
    case same
    with 2(6,7) show ?thesis by (intro exI [of _ "mmu m"]) (auto simp: ret_def init_pc_def image_loaded_def)
  next
    case skip
    with 2 show ?thesis by (cases "get_type r") simp_all
  next
    case data
    let ?a = "offs + ucast (rec_offset r)"
    have "unat (rec_count r) < 256" using unsigned_less [of "rec_count r"] by simp
    with data have len: "length (rec_data r) \<le> 255" by (simp add: is_valid_def)
    note step = data_record_cases [OF 2(6) len, of e ?a]
    show ?thesis
    proof (cases "storable e m (?a, rec_data r)")
      case False
      with data step show ?thesis
        by (intro exI [of _ "mmu m"]) (auto simp: ret_def 2 image_loaded_def split: option.splits)
    next
      case st: True
      with step obtain mem where mem: "load_data_record e ?a (rec_data r) m = (Inr True, m\<lparr>mmu := mem\<rparr>)" "mmu_ok mem"
        "mmu_covers mem = mmu_covers (mmu m)" "mmu_byte mem = put_segment (?a, rec_data r) (mmu_byte (mmu m))"
        by auto
      have "\<not> is_flag_set (m\<lparr>mmu := mem\<rparr>) PC_INITIALIZED" using 2(7) by (simp add: is_flag_set_def)
      with data mem 2(1) [of "Inr True" "m\<lparr>mmu := mem\<rparr>" True] obtain mem' where
        "mmu_ok mem'" "mmu_covers mem' = mmu_covers (mmu m)"
        "image_loaded e (m\<lparr>mmu := mem\<rparr>) (hex_image rs offs entry) mem' (load_records e rs offs entry (m\<lparr>mmu := mem\<rparr>))"
        by auto
      moreover from this(3) have "image_loaded e m (hex_image (r # rs) offs entry) mem' (load_records e (r # rs) offs entry m)"
        using data mem image_loaded_step [OF st mem(4,3)] by simp
      ultimately show ?thesis by blast
    qed
  qed
qed


section \<open>From the text to the memory\<close>

text \<open>The records of a program: the upper half of the addresses, the segments, and the entry point, all big-endian.\<close>

definition program_file :: "u16 \<Rightarrow> (u16 \<times> u8 list) list \<Rightarrow> u32 \<Rightarrow> (u16 \<times> u8 \<times> u8 list) list" where
  "program_file base segs entry =
     (0, 4, [ucast (drop_bit 8 base), ucast base])
     # map (\<lambda>(offs, data). (offs, 0, data)) segs
     @ [(0, 5, [ucast (drop_bit 24 entry), ucast (drop_bit 16 entry), ucast (drop_bit 8 entry), ucast entry])]"

definition placed :: "u16 \<Rightarrow> u16 \<times> u8 list \<Rightarrow> segment" where
  "placed base s = (push_bit 16 (ucast base) + ucast (fst s), snd s)"

lemma word_bytes:
  "push_bit 24 (ucast (ucast (drop_bit 24 w) :: u8)) OR push_bit 16 (ucast (ucast (drop_bit 16 w) :: u8))
    OR push_bit 8 (ucast (ucast (drop_bit 8 w) :: u8)) OR ucast (ucast w :: u8) = (w :: u32)"
proof (rule bit_word_eqI)
  fix n
  assume "n < LENGTH(32)"
  then consider "n < 8" | "8 \<le> n" "n < 16" | "16 \<le> n" "n < 24" | "24 \<le> n" "n < 32" by fastforce
  then show "bit (push_bit 24 (ucast (ucast (drop_bit 24 w) :: u8)) OR push_bit 16 (ucast (ucast (drop_bit 16 w) :: u8))
    OR push_bit 8 (ucast (ucast (drop_bit 8 w) :: u8)) OR ucast (ucast w :: u8) :: u32) n = bit w n"
    by cases (auto simp: bit_simps)
qed

lemma half_bytes:
  "push_bit 8 (ucast (ucast (drop_bit 8 h) :: u8)) OR ucast (ucast h :: u8) = (ucast (h :: u16) :: u32)"
proof (rule bit_word_eqI)
  fix n :: nat
  consider "n < 8" | "8 \<le> n" "n < 16" | "16 \<le> n" by fastforce
  then show "bit (push_bit 8 (ucast (ucast (drop_bit 8 h) :: u8)) OR ucast (ucast h :: u8) :: u32) n = bit (ucast h :: u32) n"
    by cases (auto simp: bit_simps dest: bit_imp_le_length)
qed

lemma written_fields: "rec_offset (written_record offs ty data) = offs" "rec_data (written_record offs ty data) = data"
  "rec_type (written_record offs ty data) = ty"
  by (simp_all add: written_record_def Let_def)

lemma written_extend: "get_extend (written_record offs 4 [ucast (drop_bit 8 base), ucast base]) = push_bit 16 (ucast (base :: u16))"
  by (simp add: get_extend_def written_fields Let_def is_extend_segment_def is_extend_linear_def half_bytes)

lemma start_value: "rec_data r = [a, b, c, d] \<Longrightarrow> rec_type r = 5 \<Longrightarrow>
    get_start r = push_bit 24 (ucast a) OR push_bit 16 (ucast b) OR push_bit 8 (ucast c) OR ucast d"
  by (simp add: get_start_def is_start_linear_def)

lemma written_start: "get_start (written_record offs 5 [ucast (drop_bit 24 entry), ucast (drop_bit 16 entry),
    ucast (drop_bit 8 entry), ucast entry]) = (entry :: u32)"
  by (subst start_value [OF written_fields(2,3)]) (rule word_bytes)

lemma written_type: "get_type (written_record offs ty data) = (if ty = 0 then HEX_DATA else if ty = 1 then HEX_EOF
    else if ty = 2 then HEX_SEGMENT_EXTEND else if ty = 3 then HEX_SEGMENT_START
    else if ty = 4 then HEX_LINEAR_EXTEND else if ty = 5 then HEX_LINEAR_START else HEX_UNKNOWN)"
  unfolding get_type_eq written_fields by (rule refl)

lemma image_of_segments:
  assumes "\<forall>(offs, data) \<in> set segs. length data \<le> 255"
  shows "hex_image (map (\<lambda>(offs, data). written_record offs 0 data) segs @ rs) (push_bit 16 (ucast base)) entry
    = map_option (apfst (append (map (placed base) segs))) (hex_image rs (push_bit 16 (ucast base)) entry)"
  using assms
proof (induction segs)
  case Nil
  then show ?case by (cases "hex_image rs (push_bit 16 (ucast base)) entry") (simp_all add: apfst_def map_prod_def)
next
  case (Cons s segs)
  then show ?case
    by (cases s) (simp add: valid_written written_type written_fields placed_def option.map_comp comp_def apfst_def map_prod_def
      split_beta)
qed

lemma image_of_program:
  assumes "\<forall>(offs, data) \<in> set segs. length data \<le> 255"
  shows "hex_image (map (\<lambda>(offs, ty, data). written_record offs ty data) (program_file base segs entry @ [(0, 1, [])])) 0 0
    = Some (map (placed base) segs, entry)"
proof -
  have "(\<lambda>(offs, ty, data). written_record offs ty data) \<circ> (\<lambda>(offs, data). (offs, 0, data))
      = (\<lambda>(offs, data). written_record offs 0 data)" by (simp add: fun_eq_iff)
  then show ?thesis
    using assms by (simp add: program_file_def valid_written written_type written_extend written_start image_of_segments)
qed

section \<open>Properties\<close>

text \<open>
  C18: Loading Intel HEX records. The program is accepted exactly when the records up to the first of type EOF are
  valid and of known types and every segment lies in one memory block. The memory then is the old one with the
  segments written over it in the order of the records, and the entry point is the last one given, or 0. A refused
  program leaves the entry point unset.
\<close>

theorem hex_loading:
  assumes "vm_ok m" and "have_code_block m" and "\<not> is_flag_set m PC_INITIALIZED"
  shows "\<exists>mem. mmu_ok mem \<and> mmu_covers mem = mmu_covers (mmu m)
    \<and> image_loaded empty_null m (hex_image hex 0 0) mem (set_program_hex empty_null hex m)"
  using load_records_image [of m empty_null hex 0 0] assms by (simp add: set_program_hex_def vm_ok_def)

text \<open>
  C17: From text to memory. The text of a file with an upper address, segments and an entry point parses, and the
  records load into a machine that has memory at the addresses: every segment is at its place in the order of the
  file, and the entry point is the one written.
\<close>

theorem hex_text_to_memory:
  assumes "vm_ok m" and "have_code_block m" and "\<not> is_flag_set m PC_INITIALIZED"
    and "\<forall>(offs, data) \<in> set segs. length data \<le> 255"
    and "list_all (storable empty_null m) (map (placed base) segs)"
  shows "\<exists>records m'. parse_hex (file_text (program_file base segs entry) @ file_text [(0, 1, [])]) = Inr (Some records)
    \<and> set_program_hex empty_null records m = (Inr True, m') \<and> vm_ok m' \<and> initial_pc m' = entry
    \<and> mmu_byte (mmu m') = fold put_segment (map (placed base) segs) (mmu_byte (mmu m))"
proof -
  let ?rs = "map (\<lambda>(offs, ty, data). written_record offs ty data) (program_file base segs entry @ [(0, 1, [])])"
  have "\<forall>(offs, ty, data) \<in> set (program_file base segs entry). ty \<noteq> 1 \<and> length data \<le> 255"
    using assms(4) by (auto simp: program_file_def)
  from parse_written_file [OF this, of "[]" 0 "[]"] have
    p: "parse_hex (file_text (program_file base segs entry) @ file_text [(0, 1, [])]) = Inr (Some ?rs)" by simp
  have img: "hex_image ?rs 0 0 = Some (map (placed base) segs, entry)" using assms(4) by (rule image_of_program)
  have "set_program_hex empty_null ?rs m = load_records empty_null ?rs 0 0 m"
    using assms(2,3) by (simp only: set_program_hex_def if_False not_True_eq_False not_False_eq_True)
  with load_records_image [of m empty_null ?rs 0 0] img assms(1,3,5) obtain mem where mem: "mmu_ok mem"
    "set_program_hex empty_null ?rs m = (Inr True, set_flag PC_INITIALIZED (m\<lparr>initial_pc := entry, mmu := mem\<rparr>))"
    "mmu_byte mem = fold put_segment (map (placed base) segs) (mmu_byte (mmu m))"
    by (auto simp: image_loaded_def vm_ok_def)
  show ?thesis
  proof (intro exI conjI)
    show "vm_ok (set_flag PC_INITIALIZED (m\<lparr>initial_pc := entry, mmu := mem\<rparr>))"
      using assms(1) mem(1) by (simp add: vm_ok_def)
  qed (rule p, rule mem(2), simp_all add: mem(3))
qed

theorem hex_loading_witness:
  "\<exists>mem. set_program_hex True [] (snd (add_code_block 0 8 new_vm) :: unit basic_vm)
     = (Inr False, (snd (add_code_block 0 8 new_vm))\<lparr>mmu := mem\<rparr>)"
  using hex_loading [OF coded_vm(1-3), of True "[]"] by (auto simp: image_loaded_def)

theorem hex_text_to_memory_witness:
  "\<exists>records m'. parse_hex (file_text (program_file 0 [(4, [0x73, 0, 0, 0])] 4) @ file_text [(0, 1, [])]) = Inr (Some records)
    \<and> set_program_hex True records (snd (add_code_block 0 8 new_vm) :: unit basic_vm) = (Inr True, m')
    \<and> initial_pc m' = 4 \<and> mmu_byte (mmu m') 4 = 0x73"
proof -
  let ?m = "snd (add_code_block 0 8 new_vm) :: unit basic_vm"
  have st: "list_all (storable True ?m) (map (placed 0) [(4, [0x73, 0, 0, 0])])"
    by (simp add: storable_def placed_def coded_vm covers_8)
  from hex_text_to_memory [OF coded_vm(1-3) _ st, of 4] show ?thesis
    by (auto simp: put_segment_def placed_def in_area_def)
qed

end
