(* ===== verification/VM_System.thy ===== *)
theory VM_System
  imports VM_Refinement
begin

text \<open>
  The system instructions on \<open>basic_vm\<close>: environment calls and the control and status registers, which
  the abstract machine of theory \<open>ISA_Spec\<close> leaves open.
\<close>

section \<open>Handlers without the decoder\<close>

definition csr_classes :: "HandlerClass set" where
  "csr_classes = {C_csrrw, C_csrrs, C_csrrc, C_csrrwi, C_csrrsi, C_csrrci}"

lemma csr_exec:
  assumes "c \<in> csr_classes" and "vm_ok m"
  shows "exec (vtable c) (basic_machine call) w m = (Inl (control_access_error ''not supported''), m)"
  using assms decoded_register(2) [of m w]
  by (auto simp: csr_classes_def handler_class_defs GenericHandler_def csr_def control_get_def control_set_def
    action_simps Let_def)

lemma env_exec: "exec (vtable C_env_call) (basic_machine call) w m =
    (if decode_i_u w = 0 then syscall call m else (Inr (), m))"
  by (simp add: handler_class_defs GenericHandler_def debug_def ret_def)

lemma syscall_eq:
  assumes "vm_ok m"
  shows "syscall call m = (case syscalls m (reg_value m (reg_no Reg_a7)) of
      Some h \<Rightarrow> call (callback h) m
    | None \<Rightarrow> (if syscall_throw_on_error m
        then Inl (unknown_syscall (''unknown syscall #'' @ to_hex (reg_value m (reg_no Reg_a7)))) else Inr (), m))"
  using assms get_register_small [OF assms, of "reg_no Reg_a7"]
  by (simp add: syscall_def action_simps find_syscall_def register_count_def split: option.splits)


lemma debug_off: "\<not> debugging m \<Longrightarrow> andThen (debug_print out) g m = g () m"
  by (simp add: debug_print_def is_debugging_enabled_def action_simps)

text \<open>A step whose handler fails without touching the machine.\<close>

lemma run_step_fails:
  assumes ok: "vm_ok (m :: 'c basic_vm)" and fetch: "arch_access (get_pc m) 4 (abs_vm m)"
    and decode: "find_handler (opcodes m) (arch_fetch (abs_vm m)) = Some c"
    and fails: "\<And>m1. vm_ok m1 \<Longrightarrow> exec (vtable c) (basic_machine call) (arch_fetch (abs_vm m)) m1 = (Inl e, m1)"
  shows "\<exists>m1. run_step call m = (Inl e, m1) \<and> vm_ok m1 \<and> abs_vm m1 = abs_vm m \<and> frame m1 = frame m"
proof -
  let ?tr = "debug_print (trace_before (vtable c) (arch_fetch (abs_vm m)))"
  obtain r m1 where tr: "?tr m = (r, m1)" by fastforce
  with realises_trace_before [OF ok, of c "arch_fetch (abs_vm m)"]
  have "r = Inr ()" and m1: "vm_ok m1" "abs_vm m1 = abs_vm m" "frame m1 = frame m"
    by (auto simp: realises_def elim: outcome.elims)
  with tr fails [OF m1(1)] show ?thesis
    by (simp add: run_step_found [OF assms(1-3)] andThen_def)
qed

section \<open>Properties\<close>

text \<open>
  The machine has no control and status registers. Each of the six instructions on them is decoded,
  and a step on it ends with \<open>control_access_error\<close>, the registers, memory and program counter unchanged,
  also where the instruction would skip the read or the write.
\<close>

theorem csr_unsupported:
  assumes "vm_ok m" and "arch_access (get_pc m) 4 (abs_vm m)"
    and "find_handler (opcodes m) (arch_fetch (abs_vm m)) = Some c" and "c \<in> csr_classes"
  shows "\<exists>m'. run_step call m = (Inl (control_access_error ''not supported''), m')
    \<and> vm_ok m' \<and> abs_vm m' = abs_vm m \<and> frame m' = frame m"
  using run_step_fails [OF assms(1-3) csr_exec [OF assms(4)]] by blast

text \<open>
  C30: On a machine that has control and status registers, the register forms read their operand after the
  old value went to \<open>rd\<close>. With different registers they do what the specification says; with the same
  one, \<open>csrrw\<close> and \<open>csrrs\<close> write back the old value and \<open>csrrc\<close> writes 0. The immediate forms are right.
\<close>

theorem csr_operations:
  assumes "vm_ok m" and "get_rd w \<noteq> 0" and "get_rs1 w \<noteq> 0" and "cg (decode_i_u w) m = (Inr old, m)"
    and "vm = (basic_machine call)\<lparr>mi_control_get := cg, mi_control_set := cs\<rparr>"
    and "m' = snd (set_register (get_rd w) old m)"
    and "src = (if get_rd w = get_rs1 w then old else reg_value m (get_rs1 w))"
  shows "exec csrrw vm w m = cs (decode_i_u w) src m'
    \<and> exec csrrs vm w m = cs (decode_i_u w) (old OR src) m'
    \<and> exec csrrc vm w m = cs (decode_i_u w) (old AND NOT src) m'
    \<and> exec csrrwi vm w m = cs (decode_i_u w) (ucast (get_rs1 w)) m'
    \<and> exec csrrsi vm w m = cs (decode_i_u w) (old OR ucast (get_rs1 w)) m'
    \<and> exec csrrci vm w m = cs (decode_i_u w) (old AND NOT (ucast (get_rs1 w))) m'"
proof -
  have small: "get_rd w < register_count" "get_rs1 w < register_count"
    using reg_field_small by (simp_all add: reg_fields register_count_def)
  have set: "set_register (get_rd w) old m = (Inr (), m')"
    using small(1) by (simp add: assms(6) set_register_small)
  have get: "get_register (get_rs1 w) m' = Inr src"
    using small assms(1-3) by (auto simp: assms(6,7) set_register_small get_register_def reg_value_def vm_ok_def
      nth_list_update word_unat_eq_iff word_gt_0 reg_less word_le_nat_alt)
  show ?thesis
    using assms(2-4) set get
    by (simp add: assms(5) csrrw_def csrrs_def csrrc_def csrrwi_def csrrsi_def csrrci_def csr_def GenericHandler_def
      action_simps Let_def)
qed

theorem csr_operations_witness:
  "exec csrrw ((basic_machine (\<lambda>_ :: unit. ret ()))\<lparr>mi_control_get := (\<lambda>_. ret 7), mi_control_set := (\<lambda>_ v. throw (domain_error (show_nat (unat v))))\<rparr>)
     0x000090F3 (new_vm\<lparr>registers := (replicate 33 0)[1 := 5]\<rparr>)
   = (Inl (domain_error ''7''), new_vm\<lparr>registers := (replicate 33 0)[1 := 7]\<rparr>)"
proof -
  let ?m = "new_vm\<lparr>registers := (replicate 33 0)[1 := 5]\<rparr> :: unit basic_vm" and ?w = "0x000090F3 :: u32"
  let ?cs = "\<lambda>_ v. throw (domain_error (show_nat (unat v))) :: (unit basic_vm, unit) action"
  have f: "get_rd ?w = 1" "get_rs1 ?w = 1" by (simp_all add: reg_fields rd_def rs1_def field_def)
  have ok: "vm_ok ?m" by (simp add: vm_ok_def new_vm_def mmu_ok_def)
  have "snd (set_register 1 7 ?m) = new_vm\<lparr>registers := (replicate 33 0)[1 := 7]\<rparr>"
    by (simp add: set_register_def action_simps register_count_def word_le_nat_alt)
  then show ?thesis
    using csr_operations [OF ok, of ?w "\<lambda>_. ret 7" 7 "(basic_machine (\<lambda>_. ret ()))\<lparr>mi_control_get := (\<lambda>_. ret 7), mi_control_set := ?cs\<rparr>"
      ?cs "\<lambda>_. ret ()" "snd (set_register 1 7 ?m)" 7]
    by (simp add: f ret_def throw_def show_nat.simps)
qed


text \<open>
  C29: Environment calls. \<open>ebreak\<close>, and a system call that is not registered when errors are ignored,
  do nothing but advance the program counter. An unknown system call otherwise ends the step with
  \<open>unknown_syscall\<close>, nothing changed. A registered one runs the callback registered under the number in
  \<open>a7\<close>; if that fails, the step fails with its error, and if it returns, the step advances the program
  counter of the machine the callback left.
\<close>

theorem env_call_step:
  assumes "vm_ok m" and "arch_access (get_pc m) 4 (abs_vm m)"
    and "find_handler (opcodes m) (arch_fetch (abs_vm m)) = Some C_env_call"
    and "\<not> debugging m" and "n = reg_value m (reg_no Reg_a7)"
  shows "if field 20 12 (arch_fetch (abs_vm m)) \<noteq> 0 \<or> syscalls m n = None \<and> \<not> syscall_throw_on_error m
    then realises (run_step call) m (arch_next (abs_vm m))
    else case syscalls m n of
      None \<Rightarrow> run_step call m = (Inl (unknown_syscall (''unknown syscall #'' @ to_hex n)), m)
    | Some h \<Rightarrow>
        (case call (callback h) m of
           (Inl e, m1) \<Rightarrow> run_step call m = (Inl e, m1)
         | (Inr _, m1) \<Rightarrow> debugging m1 \<or> run_step call m = inc_pc m1)"
proof -
  let ?w = "arch_fetch (abs_vm m)"
  have imm: "decode_i_u ?w = 0 \<longleftrightarrow> field 20 12 ?w = 0"
    by (simp add: bits32 bit_field decode_i_u_def)
  have sc: "syscall call m = (case syscalls m n of Some h \<Rightarrow> call (callback h) m
    | None \<Rightarrow> (if syscall_throw_on_error m then Inl (unknown_syscall (''unknown syscall #'' @ to_hex n)) else Inr (), m))"
    by (simp only: syscall_eq [OF assms(1)] assms(5))
  let ?res = "if field 20 12 ?w = 0 then syscall call m else (Inr (), m)"
  have step: "run_step call m = (case ?res of (Inl e, m1) \<Rightarrow> (Inl e, m1)
      | (Inr _, m1) \<Rightarrow> andThen (debug_print (trace_after (get_pc m))) (\<lambda>_. inc_pc) m1)"
    using assms(4) env_exec [of call ?w m] unfolding imm run_step_found [OF assms(1-3)]
    by (simp add: debug_off andThen_def [of "exec _ _ _"] whenever_def)
      (simp add: handler_class_defs GenericHandler_def)
  have adv: "realises inc_pc m (arch_next (abs_vm m))" using assms(1) by (rule realises_inc_pc)
  show ?thesis
  proof (cases "field 20 12 ?w = 0")
    case False
    then show ?thesis using adv assms(4) by (simp add: step debug_off realises_def)
  next
    case sys: True
    show ?thesis
    proof (cases "syscalls m n")
      case None
      then show ?thesis
        using adv assms(4) sys
        by (simp add: step sc debug_off realises_def)
    next
      case (Some h)
      obtain r m1 where "call (callback h) m = (r, m1)" by fastforce
      moreover from this Some sys have "run_step call m = (case (r, m1) of (Inl e, m1) \<Rightarrow> (Inl e, m1)
          | (Inr _, m1) \<Rightarrow> andThen (debug_print (trace_after (get_pc m))) (\<lambda>_. inc_pc) m1)"
        by (simp add: step sc)
      moreover have "debugging m1 \<or> andThen (debug_print (trace_after (get_pc m))) (\<lambda>_. inc_pc) m1 = inc_pc m1"
        using debug_off [of m1] by blast
      ultimately show ?thesis using Some sys by (cases r) auto
    qed
  qed
qed


text \<open>A machine that is about to execute one system instruction.\<close>

lemma system_samples:
  "find_handler isa_registry 0x300020F3 = Some C_csrrs" "find_handler isa_registry 0x73 = Some C_env_call"
  by (simp_all add: find_handler_isa class_entry_def class_id_simps get_code_def get_func3_def get_bits_def
    make_mask_def all_bits_mask_def mask_eq_exp_minus_1)

theorem csr_unsupported_witness:
  "\<exists>m'. run_step (\<lambda>_ :: unit. ret ()) (sample_vm [0xF3, 0x20, 0, 0x30]) = (Inl (control_access_error ''not supported''), m')"
proof -
  let ?m = "sample_vm [0xF3, 0x20, 0, 0x30] :: unit basic_vm"
  have w: "arch_fetch (abs_vm ?m) = 0x300020F3" and ok: "vm_ok ?m" and acc: "arch_access (get_pc ?m) 4 (abs_vm ?m)"
    by (simp_all add: sample_simps)
  have "find_handler (opcodes ?m) (arch_fetch (abs_vm ?m)) = Some C_csrrs"
    unfolding w by (simp add: sample_vm_def system_samples)
  from csr_unsupported [OF ok acc this] show ?thesis by (auto simp: csr_classes_def)
qed

theorem env_call_step_witness:
  "\<exists>msg. run_step (\<lambda>_ :: unit. ret ()) (sample_vm [0x73, 0, 0, 0]) = (Inl (unknown_syscall msg), sample_vm [0x73, 0, 0, 0])"
proof -
  let ?m = "sample_vm [0x73, 0, 0, 0] :: unit basic_vm"
  have w: "arch_fetch (abs_vm ?m) = 0x73" and ok: "vm_ok ?m" and acc: "arch_access (get_pc ?m) 4 (abs_vm ?m)"
    by (simp_all add: sample_simps)
  have "find_handler (opcodes ?m) (arch_fetch (abs_vm ?m)) = Some C_env_call"
    unfolding w by (simp add: sample_vm_def system_samples)
  moreover have "\<not> debugging ?m" "syscalls ?m = Map.empty" "syscall_throw_on_error ?m"
    by (simp_all add: sample_vm_def new_vm_def)
  ultimately show ?thesis
    using env_call_step [OF ok acc _ _ refl, of "\<lambda>_. ret ()"] by (simp add: w field_def)
qed

end
