(* ===== verification/VM_Execution.thy ===== *)
theory VM_Execution
  imports VM_System VM_Run
begin

text \<open>
  Runs of many instructions: the abstract machine executes a program, \<open>run\<close> follows it, and a program
  whose abstract execution reaches a system call that halts ends the emulation.
\<close>

section \<open>The abstract machine runs a program\<close>

text \<open>
  The effect of the instruction at the program counter; \<open>None\<close> where the word is no instruction, a system
  instruction, or one on whose operands the C++ arithmetic is undefined.
\<close>

definition arch_effect :: "arch \<Rightarrow> effect option" where
  "arch_effect a =
     (if \<not> arch_access (arch_pc a) 4 a then None
      else case find_handler isa_registry (arch_fetch a) of
             None \<Rightarrow> None
           | Some c \<Rightarrow>
               (let eff = isa_effect c (arch_fetch a) (arch_x a) (arch_pc a)
                in if eff = System \<or> \<not> cxx_defined c (arch_fetch a) (arch_x a) then None else Some eff))"

text \<open>\<open>n\<close> instructions in a row, none of which traps.\<close>

fun arch_run :: "nat \<Rightarrow> arch \<Rightarrow> arch option" where
  "arch_run 0 a = Some a"
| "arch_run (Suc n) a =
     (case arch_effect a of
        None \<Rightarrow> None
      | Some eff \<Rightarrow> (case arch_step eff a of (None, a') \<Rightarrow> arch_run n a' | (Some t, a') \<Rightarrow> None))"

lemma arch_run_add: "arch_run n a = Some a' \<Longrightarrow> arch_run (n + k) a = arch_run k a'"
  by (induction n arbitrary: a) (auto split: option.splits prod.splits)

lemma frame_fields:
  assumes "frame m' = frame m"
  shows "opcodes m' = opcodes m" and "running m' = running m" and "syscalls m' = syscalls m"
    and "debugging m' = debugging m" and "syscall_throw_on_error m' = syscall_throw_on_error m"
proof -
  have "opcodes (frame m') = opcodes (frame m)" "running (frame m') = running (frame m)"
    "syscalls (frame m') = syscalls (frame m)" "debugging (frame m') = debugging (frame m)"
    "syscall_throw_on_error (frame m') = syscall_throw_on_error (frame m)"
    using assms by simp_all
  then show "opcodes m' = opcodes m" and "running m' = running m" and "syscalls m' = syscalls m"
    and "debugging m' = debugging m" and "syscall_throw_on_error m' = syscall_throw_on_error m"
    by (simp_all add: frame_def)
qed

lemma run_step_effect:
  assumes "vm_ok m" and "opcodes m = isa_registry" and "arch_effect (abs_vm m) = Some eff"
  shows "realises (run_step call) m (arch_step eff (abs_vm m))"
  using assms(3) run_step_realises [OF assms(1), of _ eff call]
  by (auto simp: arch_effect_def assms(2) Let_def split: if_splits option.splits)

lemma run_follows:
  assumes "arch_run n (abs_vm m) = Some a" and "vm_ok m" and "opcodes m = isa_registry" and "running m"
  shows "\<exists>m'. run call m = run call m' \<and> vm_ok m' \<and> abs_vm m' = a \<and> frame m' = frame m"
  using assms
proof (induction n arbitrary: m)
  case 0
  then show ?case by auto
next
  case (Suc n)
  then obtain eff a1 where eff: "arch_effect (abs_vm m) = Some eff" and st: "arch_step eff (abs_vm m) = (None, a1)"
    and rest: "arch_run n a1 = Some a" by (auto split: option.splits prod.splits)
  obtain r m1 where m1: "run_step call m = (r, m1)" by fastforce
  with run_step_effect [OF Suc.prems(2,3) eff, of call] st have "r = Inr ()" and
    ok: "vm_ok m1" "abs_vm m1 = a1" and fr: "frame m1 = frame m"
    by (auto simp: realises_def elim: outcome.elims)
  then have "run call m = run call m1"
    using m1 Suc.prems(4) by (subst run_unfold) (simp add: is_running_def)
  moreover have "\<exists>m'. run call m1 = run call m' \<and> vm_ok m' \<and> abs_vm m' = a \<and> frame m' = frame m1"
    using Suc.IH [of m1] rest ok frame_fields [OF fr] Suc.prems(3,4) by simp
  ultimately show ?case using fr by metis
qed

section \<open>Programs that exit\<close>

text \<open>What happens at an \<open>ecall\<close> to a registered callback that halts.\<close>

lemma run_exits:
  assumes "vm_ok m" and "opcodes m = isa_registry" and "running m" and "\<not> debugging m"
    and "arch_access (get_pc m) 4 (abs_vm m)" and "arch_fetch (abs_vm m) = 0x73"
    and "syscalls m (reg_value m (reg_no Reg_a7)) = Some h" and "call (callback h) m = (Inr (), m1)"
    and "\<not> running m1" and "\<not> debugging m1" and "mmu_covers (mmu m1) (get_pc m1 + 4) 4" and "mmu_ok (mmu m1)"
  shows "run call m = Some (Inr (), snd (inc_pc m1))"
proof -
  have h: "find_handler (opcodes m) (arch_fetch (abs_vm m)) = Some C_env_call"
    by (simp add: assms(2,6) system_samples)
  have imm: "decode_i_u (0x73 :: u32) = 0" by (simp add: decode_i_u_def shift_bits_def make_mask_def all_bits_mask_def)
  have "exec (vtable C_env_call) (basic_machine call) 0x73 m = (Inr (), m1)"
    by (simp only: env_exec imm if_P syscall_eq [OF assms(1)] assms(7,8) option.simps refl if_True)
  then have "run_step call m = inc_pc m1"
    using assms(4,10) unfolding run_step_found [OF assms(1,5) h] assms(6)
    by (simp add: debug_off andThen_def [of "exec _ _ _"] whenever_def)
      (simp add: handler_class_defs GenericHandler_def)
  moreover obtain b where "find_block (mmu m1) (get_pc m1 + 4) 4 = Some b"
    using assms(11) find_block_None_iff [OF assms(12), of 4 "get_pc m1 + 4"] by auto
  then obtain m2 where "inc_pc m1 = (Inr (), m2)" and "running m2 = running m1"
    by (simp add: inc_pc_def set_pc_def action_simps)
  ultimately have step: "run_step call m = (Inr (), m2)" and stop: "\<not> running m2" and m2: "m2 = snd (inc_pc m1)"
    using assms(9) by simp_all
  have "run call m2 = Some (Inr (), m2)" using stop by (subst run_unfold) (simp add: is_running_def)
  then have "run call m = Some (Inr (), m2)" using assms(3) step by (subst run_unfold) (simp add: is_running_def)
  then show ?thesis by (simp only: m2)
qed

section \<open>Properties\<close>

text \<open>
  C3: The emulator runs programs. As long as the abstract machine executes instructions without a trap,
  \<open>run\<close> does the same ones: the result of the run is that of the machine which has the registers, program
  counter and memory of the abstract machine after any number of these instructions.
\<close>

theorem run_refines:
  assumes "vm_ok m" and "opcodes m = isa_registry" and "running m" and "arch_run n (abs_vm m) = Some a"
  shows "\<exists>m'. run call m = run call m' \<and> vm_ok m' \<and> abs_vm m' = a \<and> frame m' = frame m"
  by (rule run_follows [OF assms(4,1-3)])

section \<open>A loop that ends\<close>

text \<open>\<open>addi x1, x1, -1; bne x1, x0, -4; ecall\<close>\<close>

definition countdown :: "u32 list" where
  "countdown = [0xFFF08093, 0xFE009EE3, 0x00000073]"

definition has_code :: "u32 list \<Rightarrow> arch \<Rightarrow> bool" where
  "has_code ws a \<longleftrightarrow> (\<forall>i < length ws. arch_access (of_nat (4 * i)) 4 a \<and> arch_load (of_nat (4 * i)) 4 a = ws ! i)"

lemma countdown_decodes:
  "find_handler isa_registry 0xFFF08093 = Some C_addi" "find_handler isa_registry 0xFE009EE3 = Some C_bne"
  by (simp_all add: find_handler_isa class_entry_def class_id_simps get_code_def get_func3_def get_bits_def
    make_mask_def all_bits_mask_def mask_eq_exp_minus_1)

lemma countdown_fields:
  "rd 0xFFF08093 = 1" "rs1 0xFFF08093 = 1" "imm_I 0xFFF08093 = - 1"
  "rs1 0xFE009EE3 = 1" "rs2 0xFE009EE3 = 0" "imm_B 0xFE009EE3 = - 4"
  by (simp_all add: isa_fields field_def place_def mask_eq_exp_minus_1)


lemma arch_memory_only [simp]:
  "arch_load ad n (a\<lparr>arch_x := x\<rparr>) = arch_load ad n a" "arch_load ad n (a\<lparr>arch_pc := p\<rparr>) = arch_load ad n a"
  "arch_access ad n (a\<lparr>arch_x := x\<rparr>) = arch_access ad n a" "arch_access ad n (a\<lparr>arch_pc := p\<rparr>) = arch_access ad n a"
  by (simp_all add: arch_load_def arch_bytes_def arch_access_def)

lemma has_code_countdown:
  "has_code countdown a \<longleftrightarrow> arch_access 0 4 a \<and> arch_access 4 4 a \<and> arch_access 8 4 a
     \<and> arch_load 0 4 a = 0xFFF08093 \<and> arch_load 4 4 a = 0xFE009EE3 \<and> arch_load 8 4 a = 0x73"
  by (simp add: has_code_def countdown_def All_less_Suc) blast

text \<open>Two instructions are one turn of the loop.\<close>

lemma countdown_turn:
  assumes "has_code countdown a" and "arch_pc a = 0" and "arch_x a 0 = 0"
  shows "arch_run 2 a = Some (a\<lparr>arch_x := (arch_x a)(1 := arch_x a 1 - 1),
    arch_pc := (if arch_x a 1 = 1 then 8 else 0)\<rparr>)"
proof -
  note code = assms(1) [unfolded has_code_countdown]
  have mapped: "arch_mapped a 0 4" "arch_mapped a 4 4" "arch_mapped a 8 4"
    using code by (simp_all add: arch_access_def)
  let ?a1 = "a\<lparr>arch_x := (arch_x a)(1 := arch_x a 1 - 1), arch_pc := 4\<rparr>"
  have "arch_effect a = Some (Set_Reg 1 (arch_x a 1 - 1))"
    using code assms(2) by (simp add: arch_effect_def arch_fetch_def countdown_decodes countdown_fields cxx_defined_def)
  moreover have "arch_step (Set_Reg 1 (arch_x a 1 - 1)) a = (None, ?a1)"
    using mapped assms(2) by (simp add: arch_step_def arch_write_def arch_next_def arch_at_def)
  moreover have "arch_effect ?a1 = Some (Branch_If (arch_x a 1 \<noteq> 1) (- 4))"
    using code assms(2,3) by (simp add: arch_effect_def arch_fetch_def countdown_decodes countdown_fields cxx_defined_def)
  moreover have "arch_step (Branch_If (arch_x a 1 \<noteq> 1) (- 4)) ?a1 = (None, ?a1\<lparr>arch_pc := (if arch_x a 1 = 1 then 8 else 0)\<rparr>)"
    using mapped by (simp add: arch_step_def arch_next_def arch_goto_def arch_at_def)
  ultimately show ?thesis by (simp add: numeral_2_eq_2)
qed

lemma countdown_loop:
  assumes "has_code countdown a" and "arch_pc a = 0" and "arch_x a 0 = 0" and "unat (arch_x a 1) = Suc k"
  shows "arch_run (2 * Suc k) a = Some (a\<lparr>arch_x := (arch_x a)(1 := 0), arch_pc := 8\<rparr>)"
  using assms
proof (induction k arbitrary: a)
  case 0
  then have "arch_x a 1 = 1" by (metis One_nat_def unat_1 word_unat_eq_iff)
  then show ?case using countdown_turn [OF 0(1-3)] by (simp add: fun_upd_def)
next
  case (Suc k)
  let ?w = "arch_x a 1"
  let ?a1 = "a\<lparr>arch_x := (arch_x a)(1 := ?w - 1), arch_pc := 0\<rparr>"
  have w: "unat (?w - 1) = Suc k" using Suc.prems(4) by (simp add: unat_minus_one unat_eq_zero [symmetric])
  have "?w \<noteq> 1" using Suc.prems(4) by auto
  then have "arch_run 2 a = Some ?a1" using countdown_turn [OF Suc.prems(1-3)] by simp
  then have "arch_run (2 + 2 * Suc k) a = arch_run (2 * Suc k) ?a1" by (rule arch_run_add)
  also have "\<dots> = Some (?a1\<lparr>arch_x := (arch_x ?a1)(1 := 0), arch_pc := 8\<rparr>)"
    using Suc.prems w by (intro Suc.IH) (simp_all add: has_code_countdown)
  also have "?a1\<lparr>arch_x := (arch_x ?a1)(1 := 0), arch_pc := 8\<rparr> = a\<lparr>arch_x := (arch_x a)(1 := 0), arch_pc := 8\<rparr>" by simp
  also have "2 + 2 * Suc k = 2 * Suc (Suc k)" by simp
  finally show ?case .
qed

text \<open>Starting from 0, the register wraps and the loop is taken 2^32 times.\<close>

lemma countdown_run:
  assumes "has_code countdown a" and "arch_pc a = 0" and "arch_x a 0 = 0"
  shows "\<exists>n. arch_run n a = Some (a\<lparr>arch_x := (arch_x a)(1 := 0), arch_pc := 8\<rparr>)"
proof (cases "arch_x a 1 = 0")
  case False
  then obtain k where "unat (arch_x a 1) = Suc k" by (metis not0_implies_Suc unat_eq_zero)
  with countdown_loop [OF assms] show ?thesis by blast
next
  case True
  let ?a1 = "a\<lparr>arch_x := (arch_x a)(1 := - 1), arch_pc := 0\<rparr>"
  have turn: "arch_run 2 a = Some ?a1" using countdown_turn [OF assms] True by simp
  have "unat (- 1 :: u32) \<noteq> 0" by (simp add: unat_eq_zero)
  then obtain k where "unat (- 1 :: u32) = Suc k" using not0_implies_Suc by blast
  moreover have "arch_x ?a1 1 = - 1" by simp
  ultimately have "unat (arch_x ?a1 1) = Suc k" by (simp only:)
  then have run: "arch_run (2 * Suc k) ?a1 = Some (?a1\<lparr>arch_x := (arch_x ?a1)(1 := 0), arch_pc := 8\<rparr>)"
    using assms by (intro countdown_loop) (simp_all add: has_code_countdown)
  have "?a1\<lparr>arch_x := (arch_x ?a1)(1 := 0), arch_pc := 8\<rparr> = a\<lparr>arch_x := (arch_x a)(1 := 0), arch_pc := 8\<rparr>" by simp
  with arch_run_add [OF turn, of "2 * Suc k"] run
  have "arch_run (2 + 2 * Suc k) a = Some (a\<lparr>arch_x := (arch_x a)(1 := 0), arch_pc := 8\<rparr>)" by (simp only:)
  then show ?thesis by blast
qed


text \<open>
  A program whose loop counts a register down to 0 and then makes a system call that halts ends, from
  every value of the register: \<open>run\<close> returns, the register is 0 and the machine has halted after the call.
\<close>

theorem countdown_halts:
  assumes "vm_ok m" and "opcodes m = isa_registry" and "running m" and "\<not> debugging m"
    and "has_code countdown (abs_vm m)" and "get_pc m = 0" and "mmu_covers (mmu m) 12 4"
    and "syscalls m (reg_value m (reg_no Reg_a7)) = Some h" and "call (callback h) = halt"
  shows "\<exists>m'. run call m = Some (Inr (), m') \<and> \<not> running m' \<and> reg_value m' 1 = 0 \<and> get_pc m' = 12"
proof -
  have pc: "arch_pc (abs_vm m) = 0" and x0: "arch_x (abs_vm m) 0 = 0"
    using assms(1,6) by (simp_all add: abs_vm_def reg_value_def vm_ok_def)
  from countdown_run [OF assms(5) pc x0] obtain n where
    "arch_run n (abs_vm m) = Some (abs_vm m\<lparr>arch_x := (arch_x (abs_vm m))(1 := 0), arch_pc := 8\<rparr>)" by blast
  from run_follows [OF this assms(1-3)] obtain m1 where run: "run call m = run call m1" and ok: "vm_ok m1"
    and a: "abs_vm m1 = abs_vm m\<lparr>arch_x := (arch_x (abs_vm m))(1 := 0), arch_pc := 8\<rparr>" and fr: "frame m1 = frame m"
    by blast
  have v: "get_pc m1 = 8" "reg_value m1 = (reg_value m)(1 := 0)" "mmu_covers (mmu m1) = mmu_covers (mmu m)"
    using a by (simp_all add: abs_vm_def)
  have code: "arch_access 8 4 (abs_vm m1)" "arch_fetch (abs_vm m1) = 0x73"
    using assms(5) by (simp_all add: a arch_fetch_def has_code_countdown)
  have "reg_value m1 (reg_no Reg_a7) = reg_value m (reg_no Reg_a7)" by (simp add: v)
  then have h: "syscalls m1 (reg_value m1 (reg_no Reg_a7)) = Some h" using assms(8) frame_fields(3) [OF fr] by simp
  let ?m2 = "m1\<lparr>running := False\<rparr>"
  have call: "call (callback h) m1 = (Inr (), ?m2)" by (simp add: assms(9) halt_def action_simps)
  have mapped: "mmu_covers (mmu ?m2) (get_pc ?m2 + 4) 4" using assms(7) v by (simp add: get_pc_def)
  have "run call m1 = Some (Inr (), snd (inc_pc ?m2))"
    by (rule run_exits [where m = m1 and h = h and call = call and ?m1.0 = ?m2])
      (use frame_fields [OF fr] assms(2-4) code mapped ok v(1) h call in \<open>simp_all add: vm_ok_def\<close>)
  moreover have "reg_value ?m2 = reg_value m1" by (simp add: reg_value_def fun_eq_iff)
  with v(2) have x1: "reg_value ?m2 1 = 0" by simp
  have "vm_ok ?m2" using ok by (simp add: vm_ok_def)
  from realises_inc_pc [OF this] mapped have "arch_pc (abs_vm (snd (inc_pc ?m2))) = 12 \<and> arch_x (abs_vm (snd (inc_pc ?m2))) 1 = 0
      \<and> frame (snd (inc_pc ?m2)) = frame ?m2"
    using v x1 by (simp add: realises_def arch_next_def arch_at_def) (simp add: abs_vm_def get_pc_def)
  ultimately show ?thesis
    using run frame_fields(2) [of "snd (inc_pc ?m2)" ?m2] by (auto simp: abs_vm_def)
qed


definition countdown_vm :: "unit basic_vm" where
  "countdown_vm = (sample_vm [0x93, 0x80, 0xF0, 0xFF, 0xE3, 0x9E, 0, 0xFE, 0x73, 0, 0, 0, 0, 0, 0, 0])
     \<lparr>syscalls := [0 \<mapsto> create 0 ''exit'' ()], running := True, registers := (replicate 33 0)[1 := 3]\<rparr>"

lemma countdown_vm_ok:
  "vm_ok countdown_vm" "opcodes countdown_vm = isa_registry" "running countdown_vm" "\<not> debugging countdown_vm"
  "get_pc countdown_vm = 0" "mmu_covers (mmu countdown_vm) 12 4"
  "syscalls countdown_vm (reg_value countdown_vm (reg_no Reg_a7)) = Some (create 0 ''exit'' ())"
  by (simp_all add: countdown_vm_def sample_simps)

lemma countdown_vm_code: "has_code countdown (abs_vm countdown_vm)"
  by (simp add: has_code_countdown countdown_vm_def sample_simps)

theorem countdown_halts_witness: "\<exists>m'. run (\<lambda>_. halt) countdown_vm = Some (Inr (), m') \<and> reg_value m' 1 = 0"
  using countdown_halts [OF countdown_vm_ok(1-4) countdown_vm_code countdown_vm_ok(5-7) refl] by blast

theorem run_refines_witness:
  "\<exists>m'. run (\<lambda>_. halt) countdown_vm = run (\<lambda>_. halt) m' \<and> reg_value m' 1 = 2 \<and> get_pc m' = 0"
proof -
  have "arch_run 2 (abs_vm countdown_vm) = Some (abs_vm countdown_vm\<lparr>arch_x := (arch_x (abs_vm countdown_vm))(1 := 2), arch_pc := 0\<rparr>)"
    using countdown_turn [OF countdown_vm_code] by (simp add: countdown_vm_def sample_simps)
  from run_refines [OF countdown_vm_ok(1-3) this, of "\<lambda>_. halt"] show ?thesis by (auto simp: abs_vm_def)
qed

end
