(* ===== verification/VM_Dump.thy ===== *)
theory VM_Dump
  imports VM_Safety
begin

text \<open>
  \<open>basic_vm::dump_state\<close>: the report of a machine's state, as the text it writes to a stream that has the
  default flags.
\<close>

section \<open>The report\<close>

definition dump_instruction :: "HandlerClass option \<Rightarrow> opcode_t \<Rightarrow> exn + string" where
  "dump_instruction handler code =
     (let text =
        ''current: '' @ get_op_id (get_code code) @ endl
        @ tab @ ''code: '' @ hex_word code @ endl
        @ tab @ ''handler: '' @ (if handler \<noteq> None then ''found'' else ''not found'') @ endl
        @ tab @ ''rd  = '' @ setw 4 (get_register_alias (get_rd code)) @ endl
        @ tab @ ''rs1 = '' @ setw 4 (get_register_alias (get_rs1 code)) @ endl
        @ tab @ ''rs2 = '' @ setw 4 (get_register_alias (get_rs2 code)) @ endl
        @ tab @ ''i = '' @ setw 4 (hex_word (decode_i_u code)) @ endl
        @ tab @ ''b = '' @ setw 4 (hex_word (decode_b_u code)) @ endl
        @ tab @ ''j = '' @ setw 4 (hex_word (decode_j_u code)) @ endl
        @ tab @ ''s = '' @ setw 4 (hex_word (decode_s_u code)) @ endl
        @ tab @ ''u = '' @ setw 4 (hex_word (decode_u_u code)) @ endl
      in case handler of
           None \<Rightarrow> Inr text
         | Some c \<Rightarrow>
             map_sum id (\<lambda>args. text @ tab @ ''decoded: '' @ mnemonic (vtable c :: unit HandlerInterface) @ tab @ args @ endl)
               (disassemblyArgs (vtable c :: unit HandlerInterface) code))"

definition register_line :: "register_no \<Rightarrow> register_t \<Rightarrow> string" where
  "register_line i val = setw 2 (show_nat (unat i)) @ setw 4 (get_register_alias i) @ setw 10 (hex_word val) @ endl"

fun dump_registers :: "register_no list \<Rightarrow> 'c basic_vm \<Rightarrow> exn + string" where
  "dump_registers [] m = Inr []"
| "dump_registers (i # is) m =
     (case get_register i m of
        Inl e \<Rightarrow> Inl e
      | Inr val \<Rightarrow> map_sum id (\<lambda>text. register_line i val @ text) (dump_registers is m))"

text \<open>The report for a given result of \<open>get_current\<close>, which depends on the memory blocks.\<close>

definition dump_with :: "exn + opcode_t option \<Rightarrow> 'c basic_vm \<Rightarrow> exn + string" where
  "dump_with fetched m =
     (case fetched of
        Inl e \<Rightarrow> Inl e
      | Inr current \<Rightarrow>
          (case (case current of
                   None \<Rightarrow> Inr (''unable fetch instruction'' @ endl)
                 | Some code \<Rightarrow> dump_instruction (find_handler (opcodes m) code) code) of
             Inl e \<Rightarrow> Inl e
           | Inr text \<Rightarrow>
               map_sum id (\<lambda>regs. text @ ''REG dump:'' @ endl @ ''PC: '' @ setw 10 (hex_word (get_pc m)) @ endl @ regs)
                 (dump_registers (map of_nat [0..<unat register_count]) m)))"

definition dump_state :: "'c basic_vm \<Rightarrow> exn + string" where
  "dump_state m = dump_with (get_current m) m"

lemma dump_registers_eq:
  assumes "vm_ok m" and "\<forall>i \<in> set is. i < register_count"
  shows "dump_registers is m = Inr (concat (map (\<lambda>i. register_line i (reg_value m i)) is))"
  using assms(2) by (induction "is") (simp_all add: get_register_small [OF assms(1)])

lemma dump_instruction_total: "\<exists>text. dump_instruction handler code = Inr text"
proof (cases handler)
  case None
  then show ?thesis by (simp add: dump_instruction_def Let_def)
next
  case (Some c)
  then show ?thesis
    using disassembly_total [of c code, where 'm = unit] by (auto simp: dump_instruction_def Let_def)
qed

lemma dump_state_eq:
  assumes "vm_inv C m"
  shows "if get_pc m mod 4 = 0
    then \<exists>head. dump_state m = Inr (head @ ''REG dump:'' @ endl @ ''PC: '' @ setw 10 (hex_word (get_pc m)) @ endl
      @ concat (map (\<lambda>i. register_line (of_nat i) (reg_value m (of_nat i))) [0..<32]))
    else \<exists>msg. dump_state m = Inl (data_access_error msg)"
proof (cases "get_pc m mod 4 = 0")
  case True
  have ok: "vm_ok m" and acc: "arch_access (get_pc m) 4 (abs_vm m)"
    using assms True by (simp_all add: vm_inv_def arch_access_def abs_vm_def)
  have cur: "get_current m = Inr (Some (arch_fetch (abs_vm m)))" using get_current_eq [OF ok] acc by simp
  obtain t where t: "dump_instruction (find_handler (opcodes m) (arch_fetch (abs_vm m))) (arch_fetch (abs_vm m)) = Inr t"
    using dump_instruction_total by blast
  have "of_nat i < register_count" if "i < 32" for i
  proof -
    have "unat (of_nat i :: u8) = i" using that by (simp add: unat_of_nat take_bit_nat_eq_self)
    then show ?thesis using that by (simp add: reg_less)
  qed
  then have "\<forall>i \<in> set (map of_nat [0..<32]). i < register_count" by auto
  from dump_registers_eq [OF ok this] have "dump_registers (map of_nat [0..<32]) m
      = Inr (concat (map (\<lambda>i. register_line (of_nat i) (reg_value m (of_nat i))) [0..<32]))"
    by (simp only: map_map comp_def)
  then show ?thesis using True by (simp add: dump_state_def dump_with_def cur t)
next
  case False
  have ok: "vm_ok m" and acc: "\<not> arch_access (get_pc m) 4 (abs_vm m)"
    using assms False by (simp_all add: vm_inv_def arch_access_def)
  then obtain msg where "get_current m = Inl (data_access_error msg)"
    using get_current_eq [OF ok] False by auto
  then show ?thesis using False by (simp add: dump_state_def dump_with_def)
qed

lemma dump_with_error: "vm_ok m \<Longrightarrow> dump_with (Inr w) m \<noteq> Inl e"
proof -
  assume ok: "vm_ok m"
  have "of_nat i < register_count" if "i < 32" for i
  proof -
    have "unat (of_nat i :: u8) = i" using that by (simp add: unat_of_nat take_bit_nat_eq_self)
    then show ?thesis using that by (simp add: reg_less)
  qed
  then have "\<forall>i \<in> set (map of_nat [0..<32]). i < register_count" by auto
  note regs = dump_registers_eq [OF ok this]
  show ?thesis
  proof (cases w)
    case None
    with regs show ?thesis by (simp add: dump_with_def)
  next
    case (Some code)
    obtain t where "dump_instruction (find_handler (opcodes m) code) code = Inr t" using dump_instruction_total by blast
    with Some regs show ?thesis by (simp add: dump_with_def)
  qed
qed

section \<open>Properties\<close>

text \<open>
  C39: The report of a machine with its invariant always succeeds and lists the program counter and all 32
  registers, except when the program counter is not a multiple of 4, which an entry point can make it: then
  it throws \<open>data_access_error\<close> itself, also when it was called to report an exception.
\<close>

theorem dump_state_result:
  assumes "vm_inv C m"
  shows "if get_pc m mod 4 = 0
    then \<exists>head. dump_state m = Inr (head @ ''REG dump:'' @ endl @ ''PC: '' @ setw 10 (hex_word (get_pc m)) @ endl
      @ concat (map (\<lambda>i. register_line (of_nat i) (reg_value m (of_nat i))) [0..<32]))
    else \<exists>msg. dump_state m = Inl (data_access_error msg)"
  using assms by (rule dump_state_eq)

theorem dump_state_result_witness:
  "\<exists>msg. dump_state ((sample_vm (replicate 8 0) :: unit basic_vm)\<lparr>registers := (replicate 33 0)[32 := 2]\<rparr>)
     = Inl (data_access_error msg)"
proof -
  let ?m = "(sample_vm (replicate 8 0) :: unit basic_vm)\<lparr>registers := (replicate 33 0)[32 := 2]\<rparr>"
  have inv: "vm_inv (mmu_covers (mmu ?m)) ?m" and odd: "get_pc ?m mod 4 \<noteq> 0"
    by (simp_all add: vm_inv_def sample_simps)
  show ?thesis using dump_state_result [OF inv] unfolding if_not_P [OF odd] .
qed

end
