(* ===== verification/Yeti_Syscalls.thy ===== *)
theory Yeti_Syscalls
  imports VM_Memory VM_Run
begin

text \<open>
  tools/yeti_main.cxx: the six system calls of the command line front end. A callback acts on the machine
  through its interface and prints to \<open>std::cout\<close>.
\<close>

section \<open>System calls\<close>

datatype yeti_callback = Cb_open | Cb_read | Cb_close | Cb_put_char | Cb_put_int | Cb_exit

type_synonym yeti_vm = "yeti_callback basic_vm"

definition print_out :: "trace_event list \<Rightarrow> ('c basic_vm, unit) action" where
  "print_out es = modify (\<lambda>m. m\<lparr>trace := trace m @ es\<rparr>)"

definition open_call :: "'c basic_vm MachineInterface \<Rightarrow> ('c basic_vm, unit) action" where
  "open_call vm =
     andThen (get_reg vm (reg_no Reg_a0)) (\<lambda>name_ptr.
     andThen (get_reg vm (reg_no Reg_a1)) (\<lambda>flags.
     andThen (print_out [Print_Text ''open '', Print_Signed name_ptr, Print_Text '' '', Print_Unsigned flags, Print_Text [CHR 0x0A]]) (\<lambda>_.
     mi_set_register vm (reg_no Reg_a0) 0)))"

text \<open>The loop of \<open>read\<close>, writing through \<open>m->write_memory\<close>; \<open>None\<close> when it does not end.\<close>

partial_function (option) read_loop ::
  "(address_t \<Rightarrow> u8 \<Rightarrow> register_t \<Rightarrow> ('m, unit) action) \<Rightarrow> address_t \<Rightarrow> register_t \<Rightarrow> address_t
    \<Rightarrow> 'm \<Rightarrow> ((exn + unit) \<times> 'm) option" where
  "read_loop wr buff_ptr buff_sz i m =
     (if i < buff_sz
      then (case wr (buff_ptr + i) 4 (i * i) m of
              (Inl e, m') \<Rightarrow> Some (Inl e, m')
            | (Inr _, m') \<Rightarrow> read_loop wr buff_ptr buff_sz (i + 4) m')
      else Some (Inr (), m))"

definition read_call :: "'c basic_vm MachineInterface \<Rightarrow> ('c basic_vm, unit) action" where
  "read_call vm =
     andThen (get_reg vm (reg_no Reg_a0)) (\<lambda>file_id.
     andThen (get_reg vm (reg_no Reg_a1)) (\<lambda>buff_ptr.
     andThen (get_reg vm (reg_no Reg_a2)) (\<lambda>buff_sz.
     andThen (\<lambda>m. case read_loop (mi_write_memory vm) buff_ptr buff_sz 0 m of
                      Some res \<Rightarrow> res
                    | None \<Rightarrow> (Inl (undefined Endless_Loop), m)) (\<lambda>_.
     andThen (print_out [Print_Text ''read '', Print_Unsigned file_id, Print_Text '' '', Print_Signed buff_ptr, Print_Text '' '',
       Print_Unsigned buff_sz, Print_Text [CHR 0x0A]]) (\<lambda>_.
     mi_set_register vm (reg_no Reg_a0) 0)))))"

definition close_call :: "'c basic_vm MachineInterface \<Rightarrow> ('c basic_vm, unit) action" where
  "close_call vm =
     andThen (get_reg vm (reg_no Reg_a0)) (\<lambda>file_id.
     andThen (print_out [Print_Text ''close '', Print_Unsigned file_id, Print_Text [CHR 0x0A]]) (\<lambda>_.
     mi_set_register vm (reg_no Reg_a0) 0))"

definition put_char_call :: "'c basic_vm MachineInterface \<Rightarrow> ('c basic_vm, unit) action" where
  "put_char_call vm =
     andThen (get_reg vm (reg_no Reg_a0)) (\<lambda>val.
     andThen (print_out [Print_Char (le_bytes 4 val ! 0)]) (\<lambda>_.
     mi_set_register vm (reg_no Reg_a0) 0))"

definition put_int_call :: "'c basic_vm MachineInterface \<Rightarrow> ('c basic_vm, unit) action" where
  "put_int_call vm =
     andThen (get_reg vm (reg_no Reg_a0)) (\<lambda>val.
     andThen (print_out [Print_Signed val]) (\<lambda>_.
     mi_set_register vm (reg_no Reg_a0) 0))"

definition exit_call :: "'c basic_vm MachineInterface \<Rightarrow> ('c basic_vm, unit) action" where
  "exit_call vm =
     andThen (mi_halt vm) (\<lambda>_.
     andThen (print_out [Print_Text ''exit'', Print_Text [CHR 0x0A]]) (\<lambda>_.
     mi_set_register vm (reg_no Reg_a0) 0))"

fun run_callback :: "yeti_callback \<Rightarrow> 'c basic_vm MachineInterface \<Rightarrow> ('c basic_vm, unit) action" where
  "run_callback Cb_open vm = open_call vm"
| "run_callback Cb_read vm = read_call vm"
| "run_callback Cb_close vm = close_call vm"
| "run_callback Cb_put_char vm = put_char_call vm"
| "run_callback Cb_put_int vm = put_int_call vm"
| "run_callback Cb_exit vm = exit_call vm"

definition init_syscalls :: "(yeti_callback syscall_registry, unit) action" where
  "init_syscalls =
     andThen (register_syscall (create 1024 ''open'' Cb_open)) (\<lambda>_.
     andThen (register_syscall (create 63 ''read'' Cb_read)) (\<lambda>_.
     andThen (register_syscall (create 57 ''close'' Cb_close)) (\<lambda>_.
     andThen (register_syscall (create 11 ''put_char'' Cb_put_char)) (\<lambda>_.
     andThen (register_syscall (create 1 ''put_int'' Cb_put_int)) (\<lambda>_.
     andThen (register_syscall (create 10 ''exit'' Cb_exit)) (\<lambda>_. ret ()))))))"

text \<open>
  The callbacks are handed the machine they run on. The only one of its virtual functions that depends
  on the callbacks is \<open>syscall\<close>, and they do not call it; so any table of callbacks will do here.
\<close>

definition yeti_call :: "yeti_callback \<Rightarrow> (yeti_vm, unit) action" where
  "yeti_call c = run_callback c (basic_machine (\<lambda>_. ret ()))"

lemma run_callback_machine: "run_callback c (basic_machine f) = run_callback c (basic_machine g)"
  by (cases c) (simp_all add: open_call_def read_call_def close_call_def put_char_call_def put_int_call_def
    exit_call_def get_reg_def)

section \<open>The loop of \<open>read\<close>\<close>

text \<open>The memory after \<open>k\<close> iterations: word \<open>i\<close> bytes into the buffer holds \<open>i * i\<close>.\<close>

definition filled :: "address_t \<Rightarrow> nat \<Rightarrow> arch \<Rightarrow> arch" where
  "filled ptr k a = a\<lparr>arch_mem := (\<lambda>y.
     let d = unat (y - ptr); i = of_nat (4 * (d div 4)) in
     if d < 4 * k then le_bytes 4 (i * i) ! (d mod 4) else arch_mem a y)\<rparr>"

lemma filled_0 [simp]: "filled ptr 0 a = a"
  by (simp add: filled_def Let_def)

lemma arch_access_filled [simp]: "arch_access b n (filled ptr k a) = arch_access b n a"
  by (simp add: arch_access_def filled_def)

lemma unat_diff_u32: "unat (x - n) = (if unat n \<le> unat x then unat x - unat n else unat x + 2 ^ 32 - unat n)"
  for x n :: u32
  by (simp add: unat_sub_if')

lemma area_4:
  assumes "4 * k + 4 \<le> 2 ^ 32"
  shows "in_area (ptr + of_nat (4 * k)) 4 y \<longleftrightarrow> unat (y - ptr) div 4 = k"
    and "unat (y - ptr) div 4 = k \<Longrightarrow> unat (y - (ptr + of_nat (4 * k))) = unat (y - ptr) mod 4"
proof -
  let ?d = "unat (y - ptr)"
  have k: "unat (of_nat (4 * k) :: u32) = 4 * k" using assms by (intro unat_of_nat_u32) simp
  have e: "y - (ptr + of_nat (4 * k)) = (y - ptr) - of_nat (4 * k)" by simp
  have u: "unat (y - (ptr + of_nat (4 * k))) = (if 4 * k \<le> ?d then ?d - 4 * k else ?d + 2 ^ 32 - 4 * k)"
    unfolding e unat_diff_u32 [of "y - ptr"] k ..
  show "in_area (ptr + of_nat (4 * k)) 4 y \<longleftrightarrow> ?d div 4 = k"
    using assms unfolding in_area_def u by (auto split: if_splits)
  show "?d div 4 = k \<Longrightarrow> unat (y - (ptr + of_nat (4 * k))) = ?d mod 4"
    unfolding u by (auto simp: minus_mult_div_eq_mod)
qed

lemma filled_Suc:
  assumes "4 * k + 4 \<le> 2 ^ 32"
  shows "arch_store (ptr + of_nat (4 * k)) 4 (of_nat (4 * k) * of_nat (4 * k)) (filled ptr k a) = filled ptr (Suc k) a"
proof -
  let ?i = "of_nat (4 * k) :: u32"
  have "arch_mem (arch_store (ptr + ?i) 4 (?i * ?i) (filled ptr k a)) y = arch_mem (filled ptr (Suc k) a) y" for y
  proof (cases "unat (y - ptr) div 4 = k")
    case True
    then have "unat (y - ptr) < 4 * Suc k" by auto
    with True area_4(1) [OF assms, of ptr y] area_4(2) [OF assms True] show ?thesis by (simp add: arch_store_def filled_def Let_def del: of_nat_mult)
  next
    case False
    then have "unat (y - ptr) < 4 * Suc k \<longleftrightarrow> unat (y - ptr) < 4 * k" by auto
    with False area_4(1) [OF assms, of ptr y] show ?thesis
      by (simp add: arch_store_def filled_def Let_def del: of_nat_mult)
  qed
  then show ?thesis by (intro arch.equality) (simp_all add: arch_store_def filled_def fun_eq_iff)
qed

lemma read_loop_prefix:
  assumes ok: "vm_ok m" and n: "n \<le> 2 ^ 30"
    and more: "\<And>j. j < n \<Longrightarrow> of_nat (4 * j) < sz \<and> arch_access (ptr + of_nat (4 * j)) 4 (abs_vm m)"
  shows "\<exists>m'. read_loop write_memory ptr sz 0 m = read_loop write_memory ptr sz (of_nat (4 * n)) m'
    \<and> vm_ok m' \<and> abs_vm m' = filled ptr n (abs_vm m) \<and> frame m' = frame m"
  using n more
proof (induction n)
  case 0
  with ok show ?case by auto
next
  case (Suc k)
  then obtain m1 where m1: "read_loop write_memory ptr sz 0 m = read_loop write_memory ptr sz (of_nat (4 * k)) m1"
    "vm_ok m1" "abs_vm m1 = filled ptr k (abs_vm m)" "frame m1 = frame m" by auto
  let ?i = "of_nat (4 * k) :: u32"
  have i: "?i < sz" and acc: "arch_access (ptr + ?i) 4 (abs_vm m1)" using Suc.prems(2) [of k] m1(3) by auto
  have "realises (write_memory (ptr + ?i) 4 (?i * ?i)) m1 (None, arch_store (ptr + ?i) 4 (?i * ?i) (abs_vm m1))"
    using realises_write_memory [OF m1(2), of 4 "ptr + ?i" "?i * ?i"] acc by simp
  then obtain m2 where w: "write_memory (ptr + ?i) 4 (?i * ?i) m1 = (Inr (), m2)" and m2: "vm_ok m2"
    "abs_vm m2 = arch_store (ptr + ?i) 4 (?i * ?i) (abs_vm m1)" "frame m2 = frame m1"
    by (cases "write_memory (ptr + ?i) 4 (?i * ?i) m1") (auto simp: realises_def elim: outcome.elims)
  have "read_loop write_memory ptr sz ?i m1 = read_loop write_memory ptr sz (?i + 4) m2"
    using i w by (subst read_loop.simps) simp
  moreover have "?i + 4 = of_nat (4 * Suc k)" by simp
  moreover have "abs_vm m2 = filled ptr (Suc k) (abs_vm m)"
    using filled_Suc [of k] Suc.prems(1) by (simp only: m2(2) m1(3)) simp
  ultimately show ?case using m1 m2 by (metis (no_types))
qed


text \<open>The loop stops at the first word that is outside the buffer or cannot be written.\<close>

lemma read_loop_result:
  assumes ok: "vm_ok m" and j: "j < 2 ^ 30"
    and stop: "\<not> (of_nat (4 * j) < sz \<and> arch_access (ptr + of_nat (4 * j)) 4 (abs_vm m))"
  obtains n r m' where "read_loop write_memory ptr sz 0 m = Some (r, m')" and "n \<le> j"
    and "\<And>k. k < n \<Longrightarrow> of_nat (4 * k) < sz \<and> arch_access (ptr + of_nat (4 * k)) 4 (abs_vm m)"
    and "vm_ok m'" and "abs_vm m' = filled ptr n (abs_vm m)" and "frame m' = frame m"
    and "if of_nat (4 * n) < sz then \<not> arch_access (ptr + of_nat (4 * n)) 4 (abs_vm m) \<and> (\<exists>msg. r = Inl (data_access_error msg))
      else r = Inr ()"
proof -
  define P where "P k \<longleftrightarrow> of_nat (4 * k) < sz \<and> arch_access (ptr + of_nat (4 * k)) 4 (abs_vm m)" for k
  define n where "n = (LEAST k. \<not> P k)"
  have "\<not> P j" using stop by (simp only: P_def simp_thms)
  then have n: "n \<le> j" "\<not> P n" unfolding n_def by (rule Least_le, rule LeastI [of "\<lambda>k. \<not> P k"])
  have less: "P k" if "k < n" for k using not_less_Least [of k "\<lambda>k. \<not> P k"] that unfolding n_def by blast
  have "n \<le> 2 ^ 30" using n(1) j by simp
  from read_loop_prefix [OF ok this, of sz ptr] less obtain m1 where
    m1: "read_loop write_memory ptr sz 0 m = read_loop write_memory ptr sz (of_nat (4 * n)) m1" "vm_ok m1"
      "abs_vm m1 = filled ptr n (abs_vm m)" "frame m1 = frame m" unfolding P_def by blast
  let ?i = "of_nat (4 * n) :: u32"
  show ?thesis
  proof (cases "?i < sz")
    case True
    with n(2) have acc: "\<not> arch_access (ptr + ?i) 4 (abs_vm m)" by (simp add: P_def)
    then have "\<not> arch_access (ptr + ?i) 4 (abs_vm m1)" by (simp add: m1(3))
    from write_memory_refused [OF m1(2) _ this, of "?i * ?i"] obtain msg where
      "write_memory (ptr + ?i) 4 (?i * ?i) m1 = (Inl (data_access_error msg), m1)" by auto
    then have "read_loop write_memory ptr sz ?i m1 = Some (Inl (data_access_error msg), m1)"
      using True by (subst read_loop.simps) simp
    with that m1 n(1) less acc True show ?thesis unfolding P_def by metis
  next
    case False
    then have "read_loop write_memory ptr sz ?i m1 = Some (Inr (), m1)" by (subst read_loop.simps) simp
    with that m1 n(1) less False show ?thesis unfolding P_def by metis
  qed
qed

text \<open>The loop prints nothing.\<close>

lemma write_memory_trace: "trace (snd (write_memory a n v m)) = trace m"
  by (auto simp: write_memory_def action_simps split: option.split sum.split)

lemma read_loop_trace:
  assumes "read_loop write_memory ptr sz i m = Some (r, m')"
  shows "trace m' = trace (m :: 'a basic_vm)"
proof -
  have "wr = write_memory \<longrightarrow> trace (snd res) = trace m" if "read_loop wr ptr sz i m = Some res"
    for wr ptr sz i and m :: "'a basic_vm" and res
  proof (rule read_loop.raw_induct [where P = "\<lambda>wr ptr sz i m res. wr = write_memory \<longrightarrow> trace (snd res) = trace m", OF _ that])
    fix loop wr ptr sz i and m :: "'a basic_vm" and res
    assume "\<And>wr ptr sz i m res. loop wr ptr sz i m = Some res \<Longrightarrow> wr = write_memory \<longrightarrow> trace (snd res) = trace m"
      and "(if i < sz then (case wr (ptr + i) 4 (i * i) m of (Inl e, m') \<Rightarrow> Some (Inl e, m')
        | (Inr _, m') \<Rightarrow> loop wr ptr sz (i + 4) m') else Some (Inr (), m)) = Some res"
    then show "wr = write_memory \<longrightarrow> trace (snd res) = trace m"
      using write_memory_trace [of "ptr + i" 4 "i * i" m] by (auto split: if_splits prod.splits sum.splits)
  qed
  from this [OF assms] show ?thesis by simp
qed

lemma word_in_buffer: "k < 2 ^ 30 \<Longrightarrow> of_nat (4 * k) < (sz :: u32) \<longleftrightarrow> 4 * k < unat sz"
  by (simp add: word_less_nat_alt unat_of_nat_u32 del: of_nat_mult)

lemma buffer_ends:
  assumes "unat (sz :: u32) \<le> 2 ^ 32 - 4"
  shows "(unat sz + 3) div 4 < 2 ^ 30" and "\<not> of_nat (4 * ((unat sz + 3) div 4)) < sz"
proof -
  show b: "(unat sz + 3) div 4 < 2 ^ 30" using assms by auto
  show "\<not> of_nat (4 * ((unat sz + 3) div 4)) < sz" unfolding word_in_buffer [OF b] by linarith
qed

lemma filled_mem: "unat (y - ptr) = d \<Longrightarrow> d < 4 * n \<Longrightarrow>
    arch_mem (filled ptr n a) y = le_bytes 4 (of_nat (4 * (d div 4)) * of_nat (4 * (d div 4))) ! (d mod 4)"
  by (simp add: filled_def Let_def del: of_nat_mult)

lemma filled_outside: "4 * n \<le> unat (y - ptr) \<Longrightarrow> arch_mem (filled ptr n a) y = arch_mem a y"
  by (simp add: filled_def Let_def)

lemma arch_load_filled:
  assumes "k < n" and "4 * n \<le> 2 ^ 32"
  shows "arch_load (ptr + of_nat (4 * k)) 4 (filled ptr n a) = of_nat (4 * k) * of_nat (4 * k)"
proof -
  have "arch_mem (filled ptr n a) (ptr + of_nat (4 * k) + of_nat i) = le_bytes 4 (of_nat (4 * k) * of_nat (4 * k)) ! i"
    if i: "i < 4" for i
  proof -
    have "ptr + of_nat (4 * k) + of_nat i - ptr = (of_nat (4 * k + i) :: u32)" by simp
    moreover have "4 * k + i < 4 * n" using assms(1) i by linarith
    moreover from this assms(2) have "unat (of_nat (4 * k + i) :: u32) = 4 * k + i" by (intro unat_of_nat_u32) simp
    ultimately have d: "unat (ptr + of_nat (4 * k) + of_nat i - ptr) = 4 * k + i" "4 * k + i < 4 * n" by simp_all
    moreover have "(4 * k + i) div 4 = k" "(4 * k + i) mod 4 = i" using i by simp_all
    ultimately show ?thesis by (simp only: filled_mem [OF d])
  qed
  then have "arch_bytes (ptr + of_nat (4 * k)) 4 (filled ptr n a) = le_bytes 4 (of_nat (4 * k) * of_nat (4 * k))"
    unfolding arch_bytes_def by (intro nth_equalityI) (simp_all del: of_nat_mult)
  then show ?thesis by (simp add: arch_load_def del: of_nat_mult)
qed


text \<open>
  On any machine, whatever its blocks: the word at \<open>a\<close> is written when \<open>a\<close> is aligned and the block that is found
  there has the four bytes. This depends on the places of the blocks only.
\<close>

definition word_writable :: "memory_management_unit \<Rightarrow> address_t \<Rightarrow> bool" where
  "word_writable mem a \<longleftrightarrow> a mod 4 = 0 \<and> (case find_block mem a 4 of
     None \<Rightarrow> False
   | Some b \<Rightarrow> unat (offset (block_params b) a) + 4 \<le> unat (block_size (block_params b)))"

lemma word_writable_params:
  assumes "map block_params mem' = map block_params mem"
  shows "word_writable mem' = word_writable mem"
proof -
  have "map_option block_params (find_block ms a 4) = find (\<lambda>p. in_range p a 4) (map block_params ms)" for ms a
    by (induction ms) (simp_all add: find_block_def)
  with assms have "map_option block_params (find_block mem' a 4) = map_option block_params (find_block mem a 4)" for a by simp
  moreover have "word_writable ms a \<longleftrightarrow> a mod 4 = 0 \<and> (case map_option block_params (find_block ms a 4) of
      None \<Rightarrow> False | Some p \<Rightarrow> unat (offset p a) + 4 \<le> unat (block_size p))" for ms a
    by (simp add: word_writable_def split: option.split)
  ultimately show ?thesis by (intro ext) (simp only:)
qed

lemma write_word:
  assumes "blocks_ok (mmu m)"
  obtains r m' where "write_memory a 4 v m = (r, m')" and "r = Inr () \<longleftrightarrow> word_writable (mmu m) a" and "blocks_ok (mmu m')"
    and "map block_params (mmu m') = map block_params (mmu m)"
proof (cases "find_block (mmu m) a 4")
  case None
  with assms that show ?thesis
    by (cases "a mod 4 = 0") (auto simp: write_memory_def get_ptr_rw_def action_simps word_writable_def)
next
  case (Some b)
  note b = find_block_SomeD [OF Some]
  have ok: "block_ok b" using b(1) assms by (simp add: blocks_ok_def)
  show ?thesis
  proof (cases "block_store b a (le_bytes 4 v) 4")
    case (Inl e)
    with Some b ok assms that show ?thesis
      by (cases "a mod 4 = 0")
        (auto simp: write_memory_def get_ptr_rw_def action_simps word_writable_def block_store_def block_ok_def Let_def split: if_splits)
  next
    case (Inr s)
    then obtain b' where b': "s = Some b'" and len: "unat (offset (block_params b) a) + 4 \<le> unat (block_size (block_params b))"
      using b(2) ok by (auto simp: block_store_def block_ok_def Let_def split: if_splits)
    note put = put_block_inv [OF assms b(1) block_store_SomeD [OF ok Inr [unfolded b']]]
    from Some Inr b' len put assms that show ?thesis
      by (cases "a mod 4 = 0") (auto simp: write_memory_def get_ptr_rw_def action_simps word_writable_def)
  qed
qed

text \<open>Where the loop stops, and that nothing stops it if it can write every word and the size is more than the last offset.\<close>

lemma read_loop_stopped:
  fixes m :: "'a basic_vm"
  assumes "k \<le> j" and "j < 2 ^ 30" and "blocks_ok (mmu m)"
    and "\<not> (of_nat (4 * j) < sz \<and> word_writable (mmu m) (ptr + of_nat (4 * j)))"
  shows "read_loop write_memory ptr sz (of_nat (4 * k)) m \<noteq> None"
  using assms(1,3,4)
proof (induction arbitrary: m rule: inc_induct)
  case base
  let ?i = "of_nat (4 * j) :: u32"
  obtain r m' where w: "write_memory (ptr + ?i) 4 (?i * ?i) m = (r, m')" "r = Inr () \<longleftrightarrow> word_writable (mmu m) (ptr + ?i)"
    by (rule write_word [OF base(1)])
  show ?case
  proof (cases "?i < sz")
    case True
    with base(2) w(2) obtain e where "r = Inl e" by (cases r) auto
    with True w(1) show ?thesis by (subst read_loop.simps) simp
  next
    case False
    then show ?thesis by (subst read_loop.simps) simp
  qed
next
  case (step k)
  let ?i = "of_nat (4 * k) :: u32"
  obtain r m' where w: "write_memory (ptr + ?i) 4 (?i * ?i) m = (r, m')" "blocks_ok (mmu m')"
    "map block_params (mmu m') = map block_params (mmu m)"
    by (rule write_word [OF step.prems(1)])
  have next_i: "of_nat (4 * Suc k) = ?i + 4" by simp
  have "\<not> (of_nat (4 * j) < sz \<and> word_writable (mmu m') (ptr + of_nat (4 * j)))"
    unfolding word_writable_params [OF w(3)] by (rule step.prems(2))
  from step.IH [OF w(2) this] have "read_loop write_memory ptr sz (?i + 4) m' \<noteq> None" unfolding next_i .
  then show ?case using w(1) by (subst read_loop.simps) (cases r; simp)
qed

lemma read_loop_endless:
  assumes res: "read_loop write_memory ptr sz i (m :: 'a basic_vm) = Some res" and ok: "blocks_ok (mmu m)" and i: "i mod 4 = 0"
    and sz: "2 ^ 32 - 4 < unat sz" and all: "\<And>a. a mod 4 = ptr mod 4 \<Longrightarrow> word_writable (mmu m) a"
  shows False
proof -
  have big: "j < sz" if "j mod 4 = 0" for j :: u32
  proof -
    have "unat (j mod 4) = unat j mod 4" by (simp add: unat_mod_distrib)
    then have "unat j mod 4 = 0" using that by simp
    with unat_u32_less [of j] have "unat j \<le> 2 ^ 32 - 4" by (auto elim!: dvdE simp: mod_eq_0_iff_dvd)
    with sz show ?thesis by (simp add: word_less_nat_alt)
  qed
  define Q where "Q wr m \<longleftrightarrow> wr = (write_memory :: address_t \<Rightarrow> u8 \<Rightarrow> register_t \<Rightarrow> ('a basic_vm, unit) action)
      \<and> blocks_ok (mmu m) \<and> (\<forall>a. a mod 4 = ptr mod 4 \<longrightarrow> word_writable (mmu m) a)"
    for wr and m :: "'a basic_vm"
  have no: "\<not> (p = ptr \<and> s = sz \<and> i mod 4 = 0 \<and> Q wr m)" if "read_loop wr p s i m = Some res"
    for wr p s i and m :: "'a basic_vm" and res
  proof (rule read_loop.raw_induct [where P = "\<lambda>wr p s i m res. \<not> (p = ptr \<and> s = sz \<and> i mod 4 = 0 \<and> Q wr m)", OF _ that])
    fix loop wr p s i and m :: "'a basic_vm" and res
    assume IH: "\<And>wr p s i m res. loop wr p s i m = Some res \<Longrightarrow> \<not> (p = ptr \<and> s = sz \<and> i mod 4 = 0 \<and> Q wr m)"
      and body: "(if i < s then (case wr (p + i) 4 (i * i) m of (Inl e, m') \<Rightarrow> Some (Inl e, m')
        | (Inr _, m') \<Rightarrow> loop wr p s (i + 4) m') else Some (Inr (), m)) = Some res"
    show "\<not> (p = ptr \<and> s = sz \<and> i mod 4 = 0 \<and> Q wr m)"
    proof
      assume A: "p = ptr \<and> s = sz \<and> i mod 4 = 0 \<and> Q wr m"
      have "(ptr + i) mod 4 = ptr mod 4" using A by (simp add: mod_4_add)
      with A have acc: "word_writable (mmu m) (ptr + i)" and ok: "blocks_ok (mmu m)" and w: "wr = write_memory"
        by (auto simp: Q_def)
      obtain r m' where m': "write_memory (ptr + i) 4 (i * i) m = (r, m')" "r = Inr () \<longleftrightarrow> word_writable (mmu m) (ptr + i)"
          "blocks_ok (mmu m')" "map block_params (mmu m') = map block_params (mmu m)"
        by (rule write_word [OF ok])
      have "Q wr m'" using A m' word_writable_params [OF m'(4)] by (simp add: Q_def)
      moreover have "(i + 4) mod 4 = 0" using A mod_4_add [of 4 i] by simp
      moreover have "loop wr p s (i + 4) m' = Some res" using body A m' w acc big [of i] by simp
      ultimately show False using IH [of wr p s "i + 4" m' res] A by simp
    qed
  qed
  from no [OF res] ok i all show False by (simp add: Q_def)
qed


lemma word_offset:
  fixes a ptr :: u32
  assumes "a mod 4 = ptr mod 4"
  obtains j where "j < 2 ^ 30" and "a = ptr + of_nat (4 * j)"
proof -
  have m: "uint (x mod 4) = uint x mod 4" for x :: u32 by (simp add: uint_mod)
  have "uint (a - ptr) mod 4 = (uint a - uint ptr) mod 4" by (simp add: uint_word_ariths mod_mod_cancel)
  moreover have "uint a mod 4 = uint ptr mod 4" using assms m [of a] m [of ptr] by simp
  ultimately have "uint (a - ptr) mod 4 = 0" by presburger
  then have "(a - ptr) mod 4 = 0" by (simp only: word_uint_eq_iff m) simp
  moreover have "unat ((a - ptr) mod 4) = unat (a - ptr) mod 4" by (simp add: unat_mod_distrib)
  ultimately have "unat (a - ptr) mod 4 = 0" by simp
  then have j: "4 * (unat (a - ptr) div 4) = unat (a - ptr)" by auto
  then have "of_nat (4 * (unat (a - ptr) div 4)) = a - ptr" by simp
  then have "a = ptr + of_nat (4 * (unat (a - ptr) div 4))" by simp
  moreover have "unat (a - ptr) div 4 < 2 ^ 30" using j unat_u32_less [of "a - ptr"] by simp
  ultimately show ?thesis using that by blast
qed

lemma read_loop_stops:
  fixes sz ptr :: u32
  assumes "unat sz \<le> 2 ^ 32 - 4 \<or> (\<exists>a. a mod 4 = ptr mod 4 \<and> \<not> arch_access a 4 s)"
  obtains j where "j < 2 ^ 30" and "\<not> (of_nat (4 * j) < sz \<and> arch_access (ptr + of_nat (4 * j)) 4 s)"
  using assms
proof
  assume "unat sz \<le> 2 ^ 32 - 4"
  from buffer_ends [OF this] show thesis using that by blast
next
  assume "\<exists>a. a mod 4 = ptr mod 4 \<and> \<not> arch_access a 4 s"
  then obtain a where "a mod 4 = ptr mod 4" and acc: "\<not> arch_access a 4 s" by blast
  from this(1) obtain j where "j < 2 ^ 30" and "a = ptr + of_nat (4 * j)" by (rule word_offset)
  then show thesis using that acc by blast
qed

section \<open>Safety of the callbacks\<close>

lemma vm_inv_trace [simp]: "vm_inv C (m\<lparr>trace := t\<rparr>) = vm_inv C m"
  by (simp add: vm_inv_abs)

lemma pc_inv_trace [simp]: "pc_inv al C (m\<lparr>trace := t\<rparr>) = pc_inv al C m"
  by (simp add: pc_inv_def get_pc_def)

lemma safe_print [action_intros]: "safe E (pc_inv al C) (print_out es)"
  by (auto simp: print_out_def intro: action_intros)

lemma safe_read_loop:
  assumes "a mod 4 = 0" and "\<not> C a 4"
  shows "safe vm_errors (pc_inv al C) (\<lambda>m. case read_loop write_memory ptr sz 0 m of
      Some res \<Rightarrow> res | None \<Rightarrow> (Inl (undefined Endless_Loop), m))"
proof (rule safeI)
  fix m :: "'a basic_vm"
  let ?res = "case read_loop write_memory ptr sz 0 m of Some res \<Rightarrow> res | None \<Rightarrow> (Inl (undefined Endless_Loop), m)"
  assume inv: "pc_inv al C m"
  then have ok: "vm_ok m" and C: "arch_mapped (abs_vm m) = C" by (simp_all add: pc_inv_abs)
  have "\<exists>a. a mod 4 = ptr mod 4 \<and> \<not> arch_access a 4 (abs_vm m)"
  proof (cases "ptr mod 4 = 0")
    case True
    with assms C show ?thesis by (intro exI [of _ a]) (simp add: arch_access_def)
  next
    case False
    then show ?thesis by (intro exI [of _ ptr]) (simp add: arch_access_def)
  qed
  then obtain j where j: "j < 2 ^ 30" "\<not> (of_nat (4 * j) < sz \<and> arch_access (ptr + of_nat (4 * j)) 4 (abs_vm m))"
    using read_loop_stops [of sz ptr "abs_vm m"] by blast
  obtain n r m' where res: "read_loop write_memory ptr sz 0 m = Some (r, m')" and m': "vm_ok m'"
    "abs_vm m' = filled ptr n (abs_vm m)"
    and r: "(\<exists>msg. r = Inl (data_access_error msg)) \<or> r = Inr ()"
    using read_loop_result [OF ok j] by metis
  then show "pc_inv al C (snd ?res)" using inv by (simp add: pc_inv_abs filled_def)
  fix e
  assume "fst ?res = Inl e"
  with res r show "e \<in> vm_errors" by auto
qed

lemma safe_run_callback:
  assumes "a mod 4 = 0" and "\<not> C a 4"
  shows "safe vm_errors (pc_inv al C) (run_callback c (basic_machine call))"
proof -
  have halt: "safe vm_errors (pc_inv al C) halt"
    by (auto simp: halt_def pc_inv_def vm_inv_def vm_ok_def get_pc_def intro!: action_intros)
  show ?thesis
    by (cases c) (auto simp: open_call_def read_call_def close_call_def put_char_call_def put_int_call_def exit_call_def
      register_count_def
      intro!: action_intros safe_get_reg safe_set_register safe_read_loop [where C = C, OF assms] halt)
qed

section \<open>Properties\<close>

text \<open>
  C36: The loop of the \<open>read\<close> system call ends on every buffer of at most 2^32 - 4 bytes. It stores \<open>i * i\<close>
  in the word at each offset \<open>i\<close> of the buffer, and so up to three bytes after the end of a buffer whose
  size is not a multiple of 4, and nothing else; it fails with \<open>data_access_error\<close> exactly when one of these
  words is unaligned or outside the blocks.
\<close>

theorem read_loop_writes:
  assumes "vm_ok m" and "unat sz \<le> 2 ^ 32 - 4" and "n = (unat sz + 3) div 4"
  shows "\<exists>r m'. read_loop write_memory ptr sz 0 m = Some (r, m') \<and> vm_ok m' \<and> frame m' = frame m
    \<and> (\<forall>y. 4 * n \<le> unat (y - ptr) \<longrightarrow> mmu_byte (mmu m') y = mmu_byte (mmu m) y)
    \<and> (if \<forall>k < n. arch_access (ptr + of_nat (4 * k)) 4 (abs_vm m)
       then r = Inr () \<and> (\<forall>k < n. arch_load (ptr + of_nat (4 * k)) 4 (abs_vm m') = of_nat (4 * k) * of_nat (4 * k))
       else \<exists>msg. r = Inl (data_access_error msg))"
proof -
  note b = buffer_ends [OF assms(2), folded assms(3)]
  have "\<not> (of_nat (4 * n) < sz \<and> arch_access (ptr + of_nat (4 * n)) 4 (abs_vm m))" using b(2) by blast
  then obtain l r m' where res: "read_loop write_memory ptr sz 0 m = Some (r, m')" and l: "l \<le> n"
    and acc: "\<And>k. k < l \<Longrightarrow> of_nat (4 * k) < sz \<and> arch_access (ptr + of_nat (4 * k)) 4 (abs_vm m)"
    and m': "vm_ok m'" "abs_vm m' = filled ptr l (abs_vm m)" "frame m' = frame m"
    and r: "if of_nat (4 * l) < sz then \<not> arch_access (ptr + of_nat (4 * l)) 4 (abs_vm m) \<and> (\<exists>msg. r = Inl (data_access_error msg))
      else r = Inr ()"
    by (rule read_loop_result [OF assms(1) b(1)]) (rule that; assumption)
  have mem: "mmu_byte (mmu m') y = mmu_byte (mmu m) y" if "4 * n \<le> unat (y - ptr)" for y
  proof -
    have "mmu_byte (mmu m') y = arch_mem (abs_vm m') y" by (simp add: abs_vm_def)
    also have "\<dots> = arch_mem (filled ptr l (abs_vm m)) y" by (simp only: m'(2))
    also have "\<dots> = arch_mem (abs_vm m) y" using that l by (intro filled_outside) linarith
    finally show ?thesis by (simp add: abs_vm_def)
  qed
  have last: "of_nat (4 * l) < sz \<longleftrightarrow> l < n"
    using l b(1) assms(3) word_in_buffer [of l sz] by auto
  have small: "4 * n \<le> 2 ^ 32" using b(1) by simp
  show ?thesis
  proof (cases "l < n")
    case True
    with r last have "\<not> arch_access (ptr + of_nat (4 * l)) 4 (abs_vm m)" "\<exists>msg. r = Inl (data_access_error msg)" by auto
    with True res m' mem show ?thesis by (auto simp del: of_nat_mult)
  next
    case False
    with l have "l = n" by simp
    with r last have "r = Inr ()" by auto
    moreover have "arch_load (ptr + of_nat (4 * k)) 4 (abs_vm m') = of_nat (4 * k) * of_nat (4 * k)" if "k < n" for k
      unfolding m'(2) \<open>l = n\<close> by (rule arch_load_filled [OF that small])
    ultimately show ?thesis using res m' mem acc \<open>l = n\<close> by (auto simp del: of_nat_mult)
  qed
qed

text \<open>
  C37: A system call \<open>read\<close> with a size in the last three bytes of the 32-bit range counts past the end of
  that range and starts over: on any machine, it never returns exactly when every word it writes is aligned and
  in a block. In all other cases it returns. The whole address space can be mapped, by two blocks of 2 GiB added in
  the order of their addresses, and then it does not return; on a machine whose blocks keep away from the last 256
  bytes, such as the one of the front end, it returns.
\<close>

theorem read_loop_returns:
  assumes "blocks_ok (mmu m)"
  shows "read_loop write_memory ptr sz 0 m = None \<longleftrightarrow>
    2 ^ 32 - 4 < unat sz \<and> (\<forall>a. a mod 4 = ptr mod 4 \<longrightarrow> word_writable (mmu m) a)"
proof
  assume none: "read_loop write_memory ptr sz 0 m = None"
  have go: "of_nat (4 * j) < sz \<and> word_writable (mmu m) (ptr + of_nat (4 * j))" if "j < 2 ^ 30" for j
    using read_loop_stopped [of 0 j m sz ptr] that assms none by auto
  then have "\<not> unat sz \<le> 2 ^ 32 - 4" using buffer_ends [of sz] by blast
  moreover have "word_writable (mmu m) a" if "a mod 4 = ptr mod 4" for a
    using word_offset [OF that] go by metis
  ultimately show "2 ^ 32 - 4 < unat sz \<and> (\<forall>a. a mod 4 = ptr mod 4 \<longrightarrow> word_writable (mmu m) a)" by simp
next
  assume "2 ^ 32 - 4 < unat sz \<and> (\<forall>a. a mod 4 = ptr mod 4 \<longrightarrow> word_writable (mmu m) a)"
  then show "read_loop write_memory ptr sz 0 m = None"
    using read_loop_endless [of ptr sz 0 m _] assms by (metis (no_types, lifting) mod_0 not_None_eq)
qed

theorem read_loop_writes_witness:
  "\<exists>m'. read_loop write_memory 0 5 0 (sample_vm (replicate 8 1) :: unit basic_vm) = Some (Inr (), m')
     \<and> arch_load 4 4 (abs_vm m') = 16"
proof -
  let ?m = "sample_vm (replicate 8 1) :: unit basic_vm"
  have ok: "vm_ok ?m" and acc: "arch_access 0 4 (abs_vm ?m)" "arch_access 4 4 (abs_vm ?m)"
    by (simp_all add: sample_simps)
  have "k < 2 \<Longrightarrow> k = 0 \<or> k = Suc 0" for k by linarith
  then have all: "\<forall>k < 2. arch_access (0 + of_nat (4 * k)) 4 (abs_vm ?m)" using acc by fastforce
  have n: "unat (5 :: u32) \<le> 2 ^ 32 - 4" "2 = (unat (5 :: u32) + 3) div 4" by simp_all
  obtain r m' where "read_loop write_memory 0 5 0 ?m = Some (r, m')" and
    r: "if \<forall>k < 2. arch_access (0 + of_nat (4 * k)) 4 (abs_vm ?m)
      then r = Inr () \<and> (\<forall>k < 2. arch_load (0 + of_nat (4 * k)) 4 (abs_vm m') = of_nat (4 * k) * of_nat (4 * k))
      else \<exists>msg. r = Inl (data_access_error msg)"
    using read_loop_writes [OF ok n, of 0] by blast
  moreover from r have "r = Inr ()
      \<and> (\<forall>k < 2. arch_load (0 + of_nat (4 * k)) 4 (abs_vm m') = of_nat (4 * k) * of_nat (4 * k))"
    unfolding if_P [OF all] .
  then have "r = Inr () \<and> arch_load (0 + of_nat (4 * 1)) 4 (abs_vm m') = of_nat (4 * 1) * of_nat (4 * 1)"
    by (meson one_less_numeral_iff semiring_norm(76))
  ultimately show ?thesis by auto
qed

text \<open>A machine whose blocks are the whole address space, and one with a block of 8 bytes.\<close>

definition full_vm :: "unit basic_vm" where
  "full_vm = snd (add_memory 0x80000000 0x80000000 (snd (add_memory 0 0x80000000 new_vm)))"

lemma full_vm_mmu: "mmu full_vm = [generic_memory 0 0x80000000, generic_memory 0x80000000 0x80000000]"
  by (simp add: full_vm_def add_memory_def add_memory_block_def add_block_def new_vm_def generic_memory_def is_overlap_def
    is_overlap_at_def in_range_at_def less_params_ext_def params_less_def)

lemma full_vm_ok: "blocks_ok (mmu full_vm)"
  by (simp add: full_vm_mmu blocks_ok_def block_ok_def start_of_def generic_memory_def)

lemma full_vm_writable:
  assumes "a mod 4 = 0"
  shows "word_writable (mmu full_vm) a"
proof -
  have "unat (a mod 4) = unat a mod 4" by (simp add: unat_mod_distrib)
  then have u: "unat a mod 4 = 0" "unat a < 0x100000000" using assms unat_u32_less [of a] by simp_all
  have in_range: "in_range p a 4 \<longleftrightarrow> within p a 4" if "block_size p = 0x80000000" for p
    using that by (intro in_range_within) simp
  have half: "unat a + 4 \<le> 0x80000000" if "unat a < 0x80000000" using u(1) that by presburger
  have all: "unat a + 4 \<le> 0x100000000" using u by presburger
  show ?thesis
    using assms half all
    by (auto simp: word_writable_def full_vm_mmu find_block_def generic_memory_def in_range within_def in_range_at_iff lo_def hi_def
      unat_offset split: if_splits)
qed

theorem read_loop_returns_witness:
  "read_loop write_memory 0 0xFFFFFFFF 0 full_vm = None
    \<and> read_loop write_memory 0 0xFFFFFFFF 0 (sample_vm (replicate 8 1) :: unit basic_vm) \<noteq> None"
proof
  show "read_loop write_memory 0 0xFFFFFFFF 0 full_vm = None"
    using read_loop_returns [OF full_vm_ok, of 0 "0xFFFFFFFF"] full_vm_writable by simp
  let ?m = "sample_vm (replicate 8 1) :: unit basic_vm"
  have ok: "blocks_ok (mmu ?m)" and "\<not> word_writable (mmu ?m) 8"
    by (simp_all add: sample_simps blocks_ok_def word_writable_def find_block_def in_range_def in_range_at_def)
  then have "\<exists>a. a mod 4 = (0 :: u32) mod 4 \<and> \<not> word_writable (mmu ?m) a" by (intro exI [of _ 8]) simp
  then show "read_loop write_memory 0 0xFFFFFFFF 0 ?m \<noteq> None"
    using read_loop_returns [OF ok, of 0 "0xFFFFFFFF"] by blast
qed

end
