(* ===== verification/Yeti_Main.thy ===== *)
theory Yeti_Main
  imports VM_Program VM_Execution VM_Dump Yeti_Syscalls
begin

text \<open>
  tools/yeti_main.cxx: the command line front end. It loads a program, and disassembles it or runs it on a
  machine with the default memory and the six system calls. The file system is a parameter: \<open>fs\<close> gives the
  bytes of the regular files that can be read. \<open>empty_null\<close> is the choice left to the standard library in
  theory \<open>Basic_VM\<close>.
\<close>

section \<open>Loading a program\<close>

type_synonym file_system = "string \<Rightarrow> u8 list option"

definition load_program :: "file_system \<Rightarrow> string \<Rightarrow> program_code_t option" where
  "load_program fs programFile = fs programFile"

definition parse_hex_file :: "file_system \<Rightarrow> string \<Rightarrow> exn + hex_record list option" where
  "parse_hex_file fs hexFile =
     (case fs hexFile of None \<Rightarrow> Inr None | Some bytes \<Rightarrow> parse_hex (map (\<lambda>b. char_of (unat b)) bytes))"

text \<open>\<open>std::filesystem::path::extension\<close>: from the last period of the last component, unless that is its first character.\<close>

definition path_filename :: "string \<Rightarrow> string" where
  "path_filename p = rev (takeWhile (\<lambda>c. c \<noteq> CHR ''/'') (rev p))"

definition path_extension :: "string \<Rightarrow> string" where
  "path_extension p =
     (let name = path_filename p;
          stem = rev (dropWhile (\<lambda>c. c \<noteq> CHR ''.'') (rev name))
      in if name = ''.'' \<or> name = ''..'' \<or> length stem \<le> 1 then [] else drop (length stem - 1) name)"

datatype program_data = Bin program_code_t | Hex "hex_record list" | Null

definition load_file :: "file_system \<Rightarrow> string \<Rightarrow> exn + program_data" where
  "load_file fs fileName =
     (let ext = path_extension fileName in
      if ext = ''.bin'' then
        (case load_program fs fileName of None \<Rightarrow> Inr Null | Some code \<Rightarrow> Inr (Bin code))
      else if ext = ''.hex'' then
        map_sum id (\<lambda>code. case code of None \<Rightarrow> Null | Some records \<Rightarrow> Hex records) (parse_hex_file fs fileName)
      else Inr Null)"

fun as_bin :: "program_data \<Rightarrow> program_code_t option" where
  "as_bin (Bin code) = Some code"
| "as_bin _ = None"

fun as_hex :: "program_data \<Rightarrow> hex_record list option" where
  "as_hex (Hex records) = Some records"
| "as_hex _ = None"

fun is_bin :: "program_data \<Rightarrow> bool" where
  "is_bin (Bin code) = True"
| "is_bin _ = False"

fun is_hex :: "program_data \<Rightarrow> bool" where
  "is_hex (Hex records) = True"
| "is_hex _ = False"

fun is_null :: "program_data \<Rightarrow> bool" where
  "is_null Null = True"
| "is_null _ = False"

definition is_empty :: "program_data \<Rightarrow> bool" where
  "is_empty data \<longleftrightarrow> is_null data \<or> is_bin data \<and> as_bin data = Some [] \<or> is_hex data \<and> as_hex data = Some []"

lemma is_empty_simps [simp]: "is_empty Null" "is_empty (Bin code) \<longleftrightarrow> code = []" "is_empty (Hex records) \<longleftrightarrow> records = []"
  by (simp_all add: is_empty_def)

definition set_program :: "bool \<Rightarrow> program_data \<Rightarrow> address_t \<Rightarrow> ('c basic_vm, bool) action" where
  "set_program empty_null data pc_value =
     (if is_empty data then ret False
      else case data of
             Bin code \<Rightarrow> set_program_bin code pc_value
           | Hex records \<Rightarrow> set_program_hex empty_null records
           | Null \<Rightarrow> ret False)"

section \<open>Running\<close>

fun what :: "exn \<Rightarrow> string" where
  "what (unknown_instruction s) = s"
| "what (unknown_syscall s) = s"
| "what (code_access_error s) = s"
| "what (data_access_error s) = s"
| "what (control_access_error s) = s"
| "what (domain_error s) = s"
| "what (undefined u) = []"

text \<open>
  How \<open>run_vm\<close> ends: with the message about the two initialisations, or about the program; normally; or
  with an exception that leaves it, after writing to \<open>std::cerr\<close>.
\<close>

datatype run_outcome = Init_Failed bool bool | Load_Failed | Finished | Escaped exn string

text \<open>
  The handler \<open>catch (std::exception&)\<close>: the message, a dump and the exception again, unless \<open>dump_state\<close> throws.
  Undefined behaviour is no exception and is not caught.
\<close>

definition report_exception :: "exn \<Rightarrow> 'c basic_vm \<Rightarrow> run_outcome" where
  "report_exception e m =
     (case e of
        undefined u \<Rightarrow> Escaped (undefined u) []
      | _ \<Rightarrow>
          (let text = ''Exception'' @ what e @ endl in
           case dump_state m of
             Inl e' \<Rightarrow> Escaped e' text
           | Inr dump \<Rightarrow> Escaped e (text @ dump)))"

lemma report_exception_escaped: "\<exists>e' text. report_exception e m = Escaped e' text"
  by (cases e) (auto simp: report_exception_def Let_def split: sum.split)

lemma report_exception_caught:
  "(\<And>u. e \<noteq> undefined u) \<Longrightarrow> report_exception e m = (case dump_state m of
      Inl e' \<Rightarrow> Escaped e' (''Exception'' @ what e @ endl)
    | Inr dump \<Rightarrow> Escaped e (''Exception'' @ what e @ endl @ dump))"
  by (cases e) (auto simp: report_exception_def split: sum.split)

definition run_vm :: "bool \<Rightarrow> program_data \<Rightarrow> bool \<Rightarrow> (run_outcome \<times> yeti_vm) option" where
  "run_vm empty_null code dbg =
     (let m = enable_debugging dbg new_vm in
      case init_syscalls (syscalls m) of
        (Inl e, s) \<Rightarrow> Some (Escaped e [], m\<lparr>syscalls := s\<rparr>)
      | (Inr _, s) \<Rightarrow>
          (let m = m\<lparr>syscalls := s\<rparr>;
               (isa_ok, m) = init_isa m;
               (mem_ok, m) = init_memory m
           in if \<not> (isa_ok \<and> mem_ok) then Some (Init_Failed isa_ok mem_ok, m)
              else case set_program empty_null code 0 m of
                     (Inl e, m) \<Rightarrow> Some (Escaped e [], m)
                   | (Inr False, m) \<Rightarrow> Some (Load_Failed, m)
                   | (Inr True, m) \<Rightarrow>
                       (case start m of
                          (Inl e, m) \<Rightarrow> Some (Escaped e [], m)
                        | (Inr _, m) \<Rightarrow>
                            (case run yeti_call m of
                               None \<Rightarrow> None
                             | Some (Inr _, m) \<Rightarrow> Some (Finished, m)
                             | Some (Inl e, m) \<Rightarrow> Some (report_exception e m, m)))))"

section \<open>Disassembly\<close>

text \<open>A line of the listing: offset, code, group, mnemonic and arguments.\<close>

type_synonym listing = "nat \<times> opcode_t \<times> string \<times> string \<times> string"

fun disasm_lines :: "HandlerClass HandlerRegistry \<Rightarrow> nat \<Rightarrow> program_code_t \<Rightarrow> exn + listing list" where
  "disasm_lines registry i [] = Inr []"
| "disasm_lines registry i (b0 # b1 # b2 # b3 # rest) =
     (let op = le_word [b0, b1, b2, b3];
          handler = find_handler registry op;
          name = (case handler of Some c \<Rightarrow> mnemonic (vtable c :: unit HandlerInterface) | None \<Rightarrow> ''UNKNOWN'')
      in case (case handler of Some c \<Rightarrow> disassemblyArgs (vtable c :: unit HandlerInterface) op | None \<Rightarrow> Inr ''UNKNOWN'') of
           Inl e \<Rightarrow> Inl e
         | Inr args \<Rightarrow> map_sum id (Cons (i, op, get_op_id (get_code op), name, args)) (disasm_lines registry (i + 4) rest))"
| "disasm_lines registry i _ = Inl (undefined Out_Of_Bounds)"

definition disasm :: "program_code_t \<Rightarrow> exn + (bool \<times> bool) \<times> listing list" where
  "disasm code =
     (let (rv32i_ok, registry) = register_rv32i_set empty_registry;
          (rv32m_ok, registry) = register_rv32m_set registry
      in map_sum id (Pair (rv32i_ok, rv32m_ok)) (disasm_lines registry 0 code))"

text \<open>What \<open>disasm\<close> writes to \<open>std::cout\<close>.\<close>

definition listing_header :: string where
  "listing_header = setw_left 10 ''addr'' @ setw_left 10 ''hex'' @ setw_left 10 ''group'' @ setw_left 10 ''instr''
     @ setw_left 10 ''args'' @ endl"

fun listing_line :: "listing \<Rightarrow> string" where
  "listing_line (i, op, grp, name, args) =
     setw_zero 8 (show_hex i) @ ''  '' @ setw_zero 8 (hex_word op) @ ''  ''
     @ setw_left 10 grp @ setw_left 10 name @ setw_left 10 args @ endl"

fun disasm_text :: "(bool \<times> bool) \<times> listing list \<Rightarrow> string" where
  "disasm_text ((rv32i_ok, rv32m_ok), rows) =
     ''rv32i_ok = '' @ show_bool rv32i_ok @ endl @ ''rv32m_ok = '' @ show_bool rv32m_ok @ endl
     @ listing_header @ concat (map listing_line rows)"

section \<open>The program\<close>

text \<open>How the process ends, with the text it writes; a program that was run has its output in the machine.\<close>

datatype exit_status =
    Usage string
  | Exit_Failure string
  | Disassembled string
  | Ran run_outcome yeti_vm
  | Terminated exn

definition usage_text :: string where
  "usage_text = ''Usage:'' @ endl
     @ tab @ ''exe d <path/to/file.bin> - disasm bin file'' @ endl
     @ tab @ ''exe <v|V> <path/to/program> - run 'bin' or 'hex' file.'' @ endl
     @ tab @ tab @ ''v - no debug output'' @ endl
     @ tab @ tab @ ''V - enable debug output'' @ endl"

definition main :: "bool \<Rightarrow> file_system \<Rightarrow> string list \<Rightarrow> exit_status option" where
  "main empty_null fs argv =
     (if length argv < 3 then Some (Usage usage_text)
      else let program_file = argv ! 2 in
        case load_file fs program_file of
          Inl e \<Rightarrow> Some (Terminated e)
        | Inr helper \<Rightarrow>
            if \<not> (is_bin helper \<or> is_hex helper) then Some (Exit_Failure (''Unable load program from '' @ quoted program_file))
            else if is_empty helper then Some (Exit_Failure (''Empty program file '' @ quoted program_file))
            else (let run = (\<lambda>dbg. map_option (\<lambda>(out, m). case out of Escaped e text \<Rightarrow> Terminated e | _ \<Rightarrow> Ran out m)
                               (run_vm empty_null helper dbg)) in
                  case argv ! 1 of
                    [] \<Rightarrow> Some (Exit_Failure (''Unknown option: '' @ argv ! 1 @ endl))
                  | c # _ \<Rightarrow>
                      if c = CHR ''d'' then
                        (case helper of
                           Bin code \<Rightarrow>
                             (case disasm code of Inl e \<Rightarrow> Some (Terminated e) | Inr out \<Rightarrow> Some (Disassembled (disasm_text out)))
                         | _ \<Rightarrow> Some (Exit_Failure (''unable disasm not '.bin' file'' @ endl)))
                      else if c = CHR ''v'' then run False
                      else if c = CHR ''V'' then run True
                      else Some (Exit_Failure (''Unknown option: '' @ argv ! 1 @ endl))))"


section \<open>The machine is set up\<close>

definition ready_vm :: "bool \<Rightarrow> yeti_vm" where
  "ready_vm dbg = new_vm\<lparr>debugging := dbg, syscalls := snd (init_syscalls Map.empty), opcodes := isa_registry,
     initFlags := 7, mmu := [generic_memory 0 0x400000, generic_memory 0x400000 0x400000]\<rparr>"

lemma init_syscalls_empty:
  "init_syscalls Map.empty = (Inr (), [1024 \<mapsto> create 1024 ''open'' Cb_open, 63 \<mapsto> create 63 ''read'' Cb_read,
    57 \<mapsto> create 57 ''close'' Cb_close, 11 \<mapsto> create 11 ''put_char'' Cb_put_char, 1 \<mapsto> create 1 ''put_int'' Cb_put_int,
    10 \<mapsto> create 10 ''exit'' Cb_exit])"
  by (simp add: init_syscalls_def register_syscall_def create_def ensure_def action_simps)

lemma default_blocks:
  "add_block (generic_memory 0 0x400000) [] = (True, [generic_memory 0 0x400000])"
  "add_block (generic_memory 0x400000 0x400000) [generic_memory 0 0x400000]
    = (True, [generic_memory 0 0x400000, generic_memory 0x400000 0x400000])"
  by (simp_all add: add_block_def generic_memory_def is_overlap_def is_overlap_at_def in_range_at_def less_params_ext_def params_less_def)


lemma init_memory_new:
  "init_memory (set_flag ISA_INITIALIZED (new_vm\<lparr>debugging := dbg, syscalls := snd (init_syscalls Map.empty), opcodes := isa_registry\<rparr>))
   = (True, ready_vm dbg)"
  by (simp add: init_memory_def init_memory_sizes_def set_ro_size_def set_rw_size_def add_code_block_def add_data_block_def
    add_memory_def add_memory_block_def default_blocks new_vm_def have_code_block_def have_data_block_def ready_vm_def
    is_flag_set_def set_flag_def def_code_size_def def_data_size_def def_code_base_def def_data_base_def)

lemma ready_memory: "mmu_ok [generic_memory 0 0x400000, generic_memory 0x400000 0x400000]"
  by (simp add: mmu_ok_def block_ok_def block_fits_def before_def generic_memory_def lo_def hi_def)

lemma ready_ok: "config_ok (ready_vm dbg)"
  using ready_memory
  by (simp add: config_ok_def ready_vm_def new_vm_def vm_ok_def is_flag_set_def have_code_block_def have_data_block_def)

lemma ready_flags: "have_code_block (ready_vm dbg)" "\<not> is_flag_set (ready_vm dbg) PC_INITIALIZED"
  "code_base (ready_vm dbg) = 0" "initial_pc (ready_vm dbg) = 0"
  by (simp_all add: ready_vm_def new_vm_def have_code_block_def is_flag_set_def def_code_base_def)

lemma ready_covers: "mmu_covers (mmu (ready_vm dbg)) a n \<longleftrightarrow>
    unat a < 0x400000 \<and> unat a + unat n \<le> 0x400000 \<or> 0x400000 \<le> unat a \<and> unat a < 0x800000 \<and> unat a + unat n \<le> 0x800000"
  by (auto simp: mmu_covers_def ready_vm_def covers_def within_def generic_memory_def lo_def hi_def in_range_at_iff)

lemma run_vm_ready:
  "run_vm empty_null code dbg =
     (case set_program empty_null code 0 (ready_vm dbg) of
        (Inl e, m) \<Rightarrow> Some (Escaped e [], m)
      | (Inr False, m) \<Rightarrow> Some (Load_Failed, m)
      | (Inr True, m) \<Rightarrow>
          (case start m of
             (Inl e, m) \<Rightarrow> Some (Escaped e [], m)
           | (Inr _, m) \<Rightarrow>
               (case run yeti_call m of
                  None \<Rightarrow> None
                | Some (Inr _, m) \<Rightarrow> Some (Finished, m)
                | Some (Inl e, m) \<Rightarrow> Some (report_exception e m, m))))"
proof -
  let ?m = "new_vm\<lparr>debugging := dbg, syscalls := snd (init_syscalls Map.empty)\<rparr> :: yeti_vm"
  have "config_ok ?m" "\<not> is_flag_set ?m ISA_INITIALIZED"
    by (simp_all add: new_vm_def config_ok_def vm_ok_def mmu_ok_def is_flag_set_def have_code_block_def have_data_block_def)
  then have isa: "init_isa ?m = (True, set_flag ISA_INITIALIZED (?m\<lparr>opcodes := isa_registry\<rparr>))"
    by (simp add: init_isa_eq config_ok_iff)
  have new: "enable_debugging dbg new_vm = (new_vm\<lparr>debugging := dbg\<rparr> :: yeti_vm)" "syscalls (new_vm\<lparr>debugging := dbg\<rparr> :: yeti_vm) = Map.empty"
    by (simp_all add: enable_debugging_def new_vm_def)
  obtain s where s: "init_syscalls Map.empty = (Inr (), s)" using init_syscalls_empty by blast
  then show ?thesis
    using isa init_memory_new [of dbg] by (simp add: run_vm_def new Let_def)
qed

section \<open>Text in a file\<close>

lemma char_bytes: "map (\<lambda>b. char_of (unat b)) (map (\<lambda>c. of_char c) s :: u8 list) = s"
proof (induction s)
  case (Cons c s)
  have "unat (of_nat (of_char c) :: u8) = of_char c"
    using nat_of_char_less_256 [of c] by (simp add: unat_of_nat take_bit_nat_eq_self)
  then have "unat (of_char c :: u8) = of_char c" by (simp only: of_nat_of_char)
  with Cons.IH show ?case by simp
qed simp

section \<open>Loading never leaves the memory\<close>

definition loaded :: "(address_t \<Rightarrow> u32 \<Rightarrow> bool) \<Rightarrow> 'c syscall_registry \<Rightarrow> 'c basic_vm \<Rightarrow> bool" where
  "loaded C s m \<longleftrightarrow> config_ok m \<and> mmu_covers (mmu m) = C \<and> syscalls m = s"

lemma loaded_init_pc: "loaded C s m \<Longrightarrow> loaded C s (snd (init_pc a m))"
  by (simp add: loaded_def config_ok_init_pc) (simp add: init_pc_def set_flag_def)

lemma loaded_data_record:
  assumes "loaded C s m" and "length bytes \<le> 255"
  shows "\<exists>b m'. load_data_record empty_null a bytes m = (Inr b, m') \<and> loaded C s m'"
proof (cases "find_block (mmu m) a (of_nat (length bytes))")
  case None
  with assms have "load_data_record empty_null a bytes m = (Inr False, m)" by (simp add: load_data_record_def ret_def)
  with assms show ?thesis by blast
next
  case (Some b)
  have n: "unat (of_nat (length bytes) :: u32) = length bytes" using assms(2) by (intro unat_of_nat_u32) simp
  have "mmu_ok (mmu m)" using assms(1) by (simp add: loaded_def config_ok_def vm_ok_def)
  from find_block_store [OF this Some, of bytes] n assms(2) obtain b' where
    st: "block_store b a bytes (of_nat (length bytes)) = Inr (Some b')"
    and cov: "mmu_covers (put_block b' (mmu m)) = mmu_covers (mmu m)" by auto
  have "config_ok (m\<lparr>mmu := put_block b' (mmu m)\<rparr>)"
    using assms(1) config_ok_stored [OF _ Some st] by (simp add: loaded_def)
  with assms(1) cov have "loaded C s (m\<lparr>mmu := put_block b' (mmu m)\<rparr>)" by (simp add: loaded_def)
  with Some st assms(1) have "\<exists>b m'. load_data_record empty_null a bytes m = (Inr b, m') \<and> loaded C s m'"
    by (cases "bytes = [] \<and> empty_null") (auto simp: load_data_record_def ret_def Let_def)
  then show ?thesis .
qed

lemma loaded_records:
  "loaded C s m \<Longrightarrow> \<exists>b m'. load_records empty_null rs offs pc m = (Inr b, m') \<and> loaded C s m'"
proof (induction empty_null rs offs pc m rule: load_records.induct)
  case (1 empty_null offs pc m)
  then show ?case by (auto simp: ret_def)
next
  case (2 empty_null r rs offs pc m)
  show ?case
  proof (cases "is_valid r")
    case False
    with 2 show ?thesis by (auto simp: ret_def)
  next
    case True
    have "unat (rec_count r) < 256" using unsigned_less [of "rec_count r"] by simp
    with True have "length (rec_data r) \<le> 255" by (simp add: is_valid_def)
    from loaded_data_record [OF 2(6) this, of empty_null "offs + ucast (rec_offset r)"] obtain b m1 where
      "load_data_record empty_null (offs + ucast (rec_offset r)) (rec_data r) m = (Inr b, m1)" "loaded C s m1" by blast
    with 2 True loaded_init_pc [OF 2(6), of pc] show ?thesis
      by (auto simp: ret_def split: record_type.splits prod.splits bool.splits)
  qed
qed


lemma set_program_ready:
  "\<exists>b m. set_program empty_null code 0 (ready_vm dbg) = (Inr b, m)
    \<and> loaded (mmu_covers (mmu (ready_vm dbg))) (syscalls (ready_vm dbg)) m"
proof -
  let ?m = "ready_vm dbg" and ?C = "mmu_covers (mmu (ready_vm dbg))" and ?s = "syscalls (ready_vm dbg)"
  have ok: "loaded ?C ?s ?m" by (simp add: loaded_def ready_ok)
  show ?thesis
  proof (cases "is_empty code")
    case True
    then have "set_program empty_null code 0 ?m = (Inr False, ?m)" by (simp add: set_program_def ret_def)
    with ok show ?thesis by blast
  next
    case False
    show ?thesis
    proof (cases code)
      case (Bin bin)
      let ?n = "of_nat (length bin) :: u32"
      have sp: "set_program empty_null code 0 ?m = set_program_bin bin 0 ?m" using False Bin by (simp add: set_program_def)
      show ?thesis
      proof (cases "?C 0 ?n")
        case True
        have "mmu_ok (mmu ?m)" using ready_memory by (simp add: ready_vm_def)
        from set_program_found [OF this ready_flags(1,2), of bin 0] True obtain mem where
          r: "set_program_bin bin 0 ?m = (Inr True, set_flag PC_INITIALIZED (?m\<lparr>initial_pc := 0, mmu := mem\<rparr>))"
          and c: "mmu_covers mem = ?C" by (auto simp: ready_flags)
        with config_ok_program_bin [OF ready_ok, of bin 0 dbg] have
          "loaded ?C ?s (set_flag PC_INITIALIZED (?m\<lparr>initial_pc := 0, mmu := mem\<rparr>))"
          by (simp add: loaded_def r) (simp add: set_flag_def)
        with sp r show ?thesis by auto
      next
        case False
        then have "find_block (mmu ?m) 0 ?n = None"
          by (simp add: ready_covers) (simp add: ready_vm_def find_block_def in_range_def in_range_at_def generic_memory_def
            offset_def word_le_nat_alt)
        then have "set_program_bin bin 0 ?m = (Inr False, snd (init_pc 0 ?m))"
          using ready_flags [of dbg] by (simp add: set_program_bin_def init_pc_def ret_def Let_def set_flag_def)
        with sp loaded_init_pc [OF ok] show ?thesis by auto
      qed
    next
      case (Hex rs)
      have "set_program empty_null code 0 ?m = load_records empty_null rs 0 0 ?m"
        using False Hex ready_flags [of dbg] by (simp add: set_program_def set_program_hex_def)
      with loaded_records [OF ok] show ?thesis by simp
    qed (use False in simp)
  qed
qed

text \<open>The entry point cannot be mapped with the four bytes at the end of the memory: no 4 bytes are there.\<close>

lemma ready_unmapped: "\<not> mmu_covers (mmu (ready_vm dbg)) 0x800000 4"
  by (simp add: ready_covers)

text \<open>
  How \<open>run_vm\<close> ends: without memory for the program or its entry point, or with what \<open>run\<close> ended with. The
  memory is mapped as it was, and the program counter is a multiple of 4 if the entry point is one.
\<close>

lemma run_vm_cases:
  assumes "run_vm empty_null code dbg = Some (out, m)"
  obtains (refused) "out = Load_Failed" and "\<not> running m"
  | (entry) m1 msg where "set_program empty_null code 0 (ready_vm dbg) = (Inr True, m1)"
      and "\<not> mmu_covers (mmu (ready_vm dbg)) (initial_pc m1) 4" and "out = Escaped (code_access_error msg) []"
  | (ran) m1 and r :: "exn + unit" where "set_program empty_null code 0 (ready_vm dbg) = (Inr True, m1)"
      and "pc_inv (initial_pc m1 mod 4 = 0) (mmu_covers (mmu (ready_vm dbg))) m"
      and "case r of Inr _ \<Rightarrow> out = Finished \<and> \<not> running m
        | Inl e \<Rightarrow> e \<notin> {undefined Out_Of_Bounds, undefined Null_Dereference, undefined Division_By_Zero, undefined Endless_Loop}
          \<and> out = report_exception e m"
proof -
  let ?C = "mmu_covers (mmu (ready_vm dbg))"
  from set_program_ready [of empty_null code dbg] obtain b m1 where
    sp: "set_program empty_null code 0 (ready_vm dbg) = (Inr b, m1)" and l: "loaded ?C (syscalls (ready_vm dbg)) m1" by blast
  have ok: "config_ok m1" and C: "mmu_covers (mmu m1) = ?C" using l by (simp_all add: loaded_def)
  show ?thesis
  proof (cases b)
    case False
    with assms sp ok show ?thesis by (intro refused) (auto simp: run_vm_ready config_ok_def)
  next
    case True
    show ?thesis
    proof (cases "?C (initial_pc m1) 4")
      case False
      with start_eq [OF ok] obtain msg m2 where "start m1 = (Inl (code_access_error msg), m2)" by (auto simp: C)
      with assms sp True False show ?thesis by (intro entry) (auto simp: run_vm_ready)
    next
      case cov: True
      let ?m2 = "m1\<lparr>registers := (replicate 33 0)[32 := initial_pc m1], running := is_initialized m1\<rparr>"
      let ?al = "initial_pc m1 mod 4 = 0"
      have st: "start m1 = (Inr (), ?m2)" using start_eq [OF ok] cov by (simp add: C)
      have "vm_inv ?C ?m2" using started_inv [OF ok, of "is_initialized m1"] cov by (simp add: C)
      then have inv: "pc_inv ?al ?C ?m2" by (simp add: pc_inv_def get_pc_def)
      have calls: "safe vm_errors (pc_inv ?al ?C) (yeti_call c)" for c
        unfolding yeti_call_def
        by (rule safe_run_callback [where a = "0x800000" and C = "mmu_covers (mmu (ready_vm dbg))"])
          (simp_all only: ready_unmapped, simp_all)
      from assms sp True st obtain r m3 where r: "run yeti_call ?m2 = Some (r, m3)"
        by (auto simp: run_vm_ready split: option.splits)
      from assms sp True st r have "m3 = m" by (auto simp: run_vm_ready Let_def split: sum.splits)
      with run_keeps_inv [OF inv calls r] assms sp True st r show ?thesis
        by (intro ran [of m1 r]) (auto simp: run_vm_ready Let_def is_running_def split: sum.splits)
    qed
  qed
qed

lemma run_vm_outcome:
  assumes "run_vm empty_null code dbg = Some (out, m)"
  shows "case out of
      Init_Failed _ _ \<Rightarrow> False
    | Load_Failed \<Rightarrow> \<not> running m
    | Finished \<Rightarrow> vm_inv (mmu_covers (mmu (ready_vm dbg))) m \<and> \<not> running m
    | Escaped e _ \<Rightarrow> e \<notin> {undefined Out_Of_Bounds, undefined Null_Dereference, undefined Division_By_Zero, undefined Endless_Loop}"
  using assms
proof (cases rule: run_vm_cases)
  case (ran m1 r)
  note inv = pc_invD [OF ran(2)]
  show ?thesis
  proof (cases r)
    case Inr
    with ran inv show ?thesis by simp
  next
    case (Inl e)
    have dump: "dump_state m = Inl e' \<Longrightarrow> \<exists>msg. e' = data_access_error msg" for e'
      using dump_state_eq [OF inv] by (auto split: if_splits)
    show ?thesis
    proof (cases "\<exists>u. e = undefined u")
      case True
      with ran(3) Inl show ?thesis by (auto simp: report_exception_def)
    next
      case False
      then have "report_exception e m = (case dump_state m of Inl e' \<Rightarrow> Escaped e' (''Exception'' @ what e @ endl)
          | Inr dump \<Rightarrow> Escaped e (''Exception'' @ what e @ endl @ dump))" by (intro report_exception_caught) blast
      with ran(3) Inl dump show ?thesis by (cases "dump_state m") auto
    qed
  qed
qed simp_all

lemma bin_entry:
  assumes "set_program empty_null (Bin bin) 0 (ready_vm dbg) = (Inr b, m)"
  shows "initial_pc m = 0"
  using assms
  by (auto simp: set_program_def set_program_bin_def init_pc_def ret_def throw_def set_flag_def Let_def ready_flags
    split: if_splits option.splits sum.splits)

section \<open>The listing\<close>

lemma induct_list4 [case_names 0 1 2 3 4]:
  assumes "P []" and "\<And>a. P [a]" and "\<And>a b. P [a, b]" and "\<And>a b c. P [a, b, c]"
    and "\<And>a b c d xs. P xs \<Longrightarrow> P (a # b # c # d # xs)"
  shows "P xs"
proof (induction xs rule: length_induct)
  case (1 xs)
  show ?case
  proof (cases "4 \<le> length xs")
    case True
    then obtain a b c d ys where "xs = a # b # c # d # ys"
      by (auto simp: numeral_eq_Suc Suc_le_length_iff)
    with 1 assms(5) show ?thesis by simp
  next
    case False
    then have "length xs = 0 \<or> length xs = 1 \<or> length xs = 2 \<or> length xs = 3" by linarith
    with assms(1-4) show ?thesis by (auto simp: length_Suc_conv numeral_eq_Suc)
  qed
qed

definition isa_name :: "opcode_t \<Rightarrow> string" where
  "isa_name code = (case find (\<lambda>e. entry_matches e code) isa_table of None \<Rightarrow> ''UNKNOWN'' | Some e \<Rightarrow> fst e)"

definition code_word :: "program_code_t \<Rightarrow> nat \<Rightarrow> opcode_t" where
  "code_word code k = le_word (take 4 (drop (4 * k) code))"

lemma listed_name:
  "(case find_handler isa_registry code of Some c \<Rightarrow> mnemonic (vtable c :: unit HandlerInterface) | None \<Rightarrow> ''UNKNOWN'') = isa_name code"
  using find_handler_table [where 'm = unit, of code] unfolding isa_name_def
  by (cases "find_handler isa_registry code"; cases "find (\<lambda>e. entry_matches e code) isa_table") simp_all

lemma listed_args:
  "\<exists>s. (case find_handler isa_registry code of
      Some c \<Rightarrow> disassemblyArgs (vtable c :: unit HandlerInterface) code | None \<Rightarrow> Inr ''UNKNOWN'') = Inr s"
  using disassembly_total [where 'm = unit] by (auto split: option.split)

lemma disasm_step:
  "\<exists>g args. disasm_lines isa_registry i (b0 # b1 # b2 # b3 # rest)
    = map_sum id (Cons (i, le_word [b0, b1, b2, b3], g, isa_name (le_word [b0, b1, b2, b3]), args))
        (disasm_lines isa_registry (i + 4) rest)"
proof -
  from listed_args [of "le_word [b0, b1, b2, b3]"] obtain s where
    s: "(case find_handler isa_registry (le_word [b0, b1, b2, b3]) of
        Some c \<Rightarrow> disassemblyArgs (vtable c :: unit HandlerInterface) (le_word [b0, b1, b2, b3])
      | None \<Rightarrow> Inr ''UNKNOWN'') = Inr s" by blast
  show ?thesis unfolding disasm_lines.simps(2) Let_def listed_name s sum.case by blast
qed

lemma code_word_Cons:
  "code_word (b0 # b1 # b2 # b3 # rest) 0 = le_word [b0, b1, b2, b3]"
  "code_word (b0 # b1 # b2 # b3 # rest) (Suc k) = code_word rest k"
  by (simp_all add: code_word_def eval_nat_numeral)

definition listed :: "program_code_t \<Rightarrow> nat \<Rightarrow> nat \<Rightarrow> nat \<times> opcode_t \<times> string" where
  "listed code i k = (i + 4 * k, code_word code k, isa_name (code_word code k))"

definition shown :: "listing \<Rightarrow> nat \<times> opcode_t \<times> string" where
  "shown row = (case row of (i, w, grp, name, args) \<Rightarrow> (i, w, name))"

lemma disasm_lines_eq:
  "if length code mod 4 = 0
   then \<exists>rows. disasm_lines isa_registry i code = Inr rows \<and> map shown rows = map (listed code i) [0..<length code div 4]
   else disasm_lines isa_registry i code = Inl (undefined Out_Of_Bounds)"
proof (induction code arbitrary: i rule: induct_list4)
  case (4 b0 b1 b2 b3 rest)
  let ?w = "le_word [b0, b1, b2, b3]" and ?code = "b0 # b1 # b2 # b3 # rest"
  obtain g args where step: "disasm_lines isa_registry i ?code
    = map_sum id (Cons (i, ?w, g, isa_name ?w, args)) (disasm_lines isa_registry (i + 4) rest)"
    using disasm_step by blast
  have len: "length ?code mod 4 = length rest mod 4" by simp
  show ?case
  proof (cases "length rest mod 4 = 0")
    case True
    with 4 [of "i + 4"] obtain rows where rows: "disasm_lines isa_registry (i + 4) rest = Inr rows"
      "map shown rows = map (listed rest (i + 4)) [0..<length rest div 4]" by auto
    have up: "[0..<length ?code div 4] = 0 # map Suc [0..<length rest div 4]"
    proof -
      have "length ?code div 4 = Suc (length rest div 4)" by simp
      then show ?thesis by (simp only: upt_conv_Cons map_Suc_upt zero_less_Suc)
    qed
    have "shown (i, ?w, g, isa_name ?w, args) = listed ?code i 0"
      unfolding shown_def listed_def code_word_Cons by simp
    moreover have "listed rest (i + 4) = listed ?code i \<circ> Suc"
      by (intro ext) (simp add: listed_def code_word_Cons)
    ultimately have "map shown ((i, ?w, g, isa_name ?w, args) # rows) = map (listed ?code i) [0..<length ?code div 4]"
      unfolding up by (simp only: list.map rows(2) map_map)
    then show ?thesis using True unfolding step rows(1) len by simp
  next
    case False
    with 4 [of "i + 4"] show ?thesis unfolding step len by simp
  qed
qed simp_all

lemma disasm_eq: "disasm code = map_sum id (Pair (True, True)) (disasm_lines isa_registry 0 code)"
proof -
  obtain R where "register_rv32i_set empty_registry = (True, R)" "register_rv32m_set R = (True, isa_registry)"
    using register_empty(1,2) by metis
  then show ?thesis by (simp add: disasm_def)
qed


lemma map_sum_Inl_iff: "map_sum id f x = Inl e \<longleftrightarrow> x = Inl e"
  by (cases x) simp_all

lemma hex_not_bin: "map_sum id (case_option Null Hex) x \<noteq> Inr (Bin code)"
  by (cases x) (auto split: option.splits)

lemma ended_iff: "(case out of Escaped e text \<Rightarrow> Terminated e | _ \<Rightarrow> Ran out m) = Terminated ex \<longleftrightarrow> (\<exists>t. out = Escaped ex t)"
  by (cases out) auto

section \<open>Properties\<close>

text \<open>
  C6: The front end runs a program safely, whatever its bytes or records: the two initialisations never
  fail, so it ends with a program that was not loaded, with a halted machine, or with an exception; and an
  exception that leaves it is never an access outside a block, a null block pointer, a division by zero or a
  system call that hangs.
\<close>

theorem front_end_safe:
  assumes "run_vm empty_null code dbg = Some (out, m)"
  shows "case out of
      Init_Failed _ _ \<Rightarrow> False
    | Load_Failed \<Rightarrow> \<not> running m
    | Finished \<Rightarrow> vm_inv (mmu_covers (mmu (ready_vm dbg))) m \<and> \<not> running m
    | Escaped e _ \<Rightarrow> e \<notin> {undefined Out_Of_Bounds, undefined Null_Dereference, undefined Division_By_Zero, undefined Endless_Loop}"
  using assms by (rule run_vm_outcome)

theorem front_end_safe_witness: "\<exists>m. run_vm True (Hex []) False = Some (Load_Failed, m) \<and> \<not> running m"
proof -
  have r: "run_vm True (Hex []) False = Some (Load_Failed, ready_vm False)"
    by (simp add: run_vm_ready set_program_def ret_def)
  from front_end_safe [OF r] r show ?thesis by simp
qed

text \<open>
  C38: An exception that a binary program ends with is always reported in full: the text that \<open>run_vm\<close> writes is the
  message of that exception, followed by a dump with the program counter and the 32 registers at the time, and it is
  this exception that leaves \<open>run_vm\<close>. Undefined behaviour, of which the theorem on the safety of the front end leaves
  a shift by too much and the overflow of a product, is no exception.
\<close>

theorem exceptions_reported:
  assumes "run_vm empty_null (Bin bin) dbg = Some (Escaped e report, m)" and "\<And>u. e \<noteq> undefined u"
  shows "\<exists>head. report = ''Exception'' @ what e @ endl @ head @ ''REG dump:'' @ endl @ ''PC: '' @ setw 10 (hex_word (get_pc m)) @ endl
    @ concat (map (\<lambda>i. register_line (of_nat i) (reg_value m (of_nat i))) [0..<32])"
  using assms(1)
proof (cases rule: run_vm_cases)
  case (entry m1 msg)
  then show ?thesis using bin_entry [OF entry(1)] by (simp add: ready_covers)
next
  case (ran m1 r)
  from ran(2) bin_entry [OF ran(1)] have inv: "vm_inv (mmu_covers (mmu (ready_vm dbg))) m" and al: "get_pc m mod 4 = 0"
    by (simp_all add: pc_inv_def)
  from dump_state_eq [OF inv] al obtain head where
    d: "dump_state m = Inr (head @ ''REG dump:'' @ endl @ ''PC: '' @ setw 10 (hex_word (get_pc m)) @ endl
      @ concat (map (\<lambda>i. register_line (of_nat i) (reg_value m (of_nat i))) [0..<32]))" by auto
  from ran(3) obtain e' where out: "report_exception e' m = Escaped e report" by (cases r) auto
  have "e' \<noteq> undefined u" for u using out assms(2) [of u] by (auto simp: report_exception_def)
  from report_exception_caught [OF this, of m] out d show ?thesis by simp
qed simp

text \<open>
  C31: A listing has one line per 32-bit word of the image, in order, with its offset, its word and the name
  the RISC-V listing gives it. An image whose length is not a multiple of 4 is read past its end.
\<close>

theorem disasm_listing:
  "if length code mod 4 = 0
   then \<exists>rows. disasm code = Inr ((True, True), rows) \<and> map shown rows = map (listed code 0) [0..<length code div 4]
   else disasm code = Inl (undefined Out_Of_Bounds)"
  using disasm_lines_eq [of code 0] by (auto simp: disasm_eq split: if_splits)

text \<open>
  C32: The whole program reads outside an object in two ways only: listing a binary image whose length is not
  a multiple of 4, and parsing an Intel HEX file that the parser itself reads past the end of a line.
\<close>

theorem main_out_of_bounds:
  assumes "main empty_null fs argv = Some (Terminated (undefined Out_Of_Bounds))"
  shows "\<exists>bytes. fs (argv ! 2) = Some bytes
    \<and> (path_extension (argv ! 2) = ''.bin'' \<and> take 1 (argv ! 1) = ''d'' \<and> length bytes mod 4 \<noteq> 0
      \<or> path_extension (argv ! 2) = ''.hex''
        \<and> parse_hex (map (\<lambda>b. char_of (unat b)) bytes) = Inl (undefined Out_Of_Bounds))"
proof -
  have run: "run_vm empty_null h dbg \<noteq> Some (Escaped (undefined Out_Of_Bounds) t, m)" for h dbg t m
    using run_vm_outcome [of empty_null h dbg] by fastforce
  show ?thesis
  proof (cases "load_file fs (argv ! 2)")
    case (Inl e)
    with assms show ?thesis
      by (auto simp: main_def load_file_def parse_hex_file_def load_program_def Let_def map_sum_Inl_iff
        split: if_splits option.splits sum.splits)
  next
    case (Inr h)
    have d: "h = Bin code \<and> take 1 (argv ! 1) = ''d'' \<and> length code mod 4 \<noteq> 0" if "disasm code = Inl (undefined Out_Of_Bounds)"
        "h = Bin code" "argv ! 1 = CHR ''d'' # cs" for code cs
      using that disasm_lines_eq [of code 0] by (auto simp: disasm_eq split: if_splits)
    from assms Inr run obtain code cs where c: "disasm code = Inl (undefined Out_Of_Bounds)"
        "h = Bin code" "argv ! 1 = CHR ''d'' # cs"
      by (auto simp: main_def Let_def ended_iff split: if_splits list.splits program_data.splits sum.splits)
    from Inr c(2) have "path_extension (argv ! 2) = ''.bin'' \<and> fs (argv ! 2) = Some code"
      by (auto simp: load_file_def load_program_def parse_hex_file_def Let_def hex_not_bin split: if_splits option.splits sum.splits)
    with d [OF c] show ?thesis by blast
  qed
qed

theorem main_out_of_bounds_witness:
  "main True [''p.bin'' \<mapsto> [0x13, 0, 0]] [''yeti'', ''d'', ''p.bin''] = Some (Terminated (undefined Out_Of_Bounds))
    \<and> length [0x13 :: u8, 0, 0] mod 4 \<noteq> 0"
proof -
  let ?fs = "[''p.bin'' \<mapsto> [0x13, 0, 0]] :: file_system"
  have "main True ?fs [''yeti'', ''d'', ''p.bin''] = Some (Terminated (undefined Out_Of_Bounds))"
    using disasm_lines_eq [of "[0x13, 0, 0]" 0]
    by (simp add: main_def load_file_def load_program_def path_extension_def path_filename_def disasm_eq Let_def)
  with main_out_of_bounds [OF this] show ?thesis
    by (auto simp: path_extension_def path_filename_def Let_def)
qed

end
