(* ===== verification/Yeti_Execution.thy ===== *)
theory Yeti_Execution
  imports Yeti_Main
begin

text \<open>
  The emulator from end to end: a program image, run by the front end, does what the RISC-V machine does with
  it. The abstract machine starts with the image at address 0 of 8 MiB of zeros.
\<close>

section \<open>The machine of an image\<close>

definition image_arch :: "program_code_t \<Rightarrow> arch" where
  "image_arch bin =
     \<lparr>arch_x = (\<lambda>_. 0), arch_pc = 0, arch_mem = (\<lambda>x. if unat x < length bin then bin ! unat x else 0),
      arch_mapped = (\<lambda>a n. unat a < 0x400000 \<and> unat a + unat n \<le> 0x400000
        \<or> 0x400000 \<le> unat a \<and> unat a < 0x800000 \<and> unat a + unat n \<le> 0x800000)\<rparr>"

lemma ready_byte: "mmu_byte (mmu (ready_vm dbg)) = (\<lambda>_. 0)"
proof
  fix x
  have z: "block_byte (generic_memory a n) x = 0" for a n by (simp add: block_byte_def generic_memory_def Let_def)
  show "mmu_byte (mmu (ready_vm dbg)) x = 0"
    by (simp add: mmu_byte_def ready_vm_def z)
qed

lemma image_started:
  assumes "bin \<noteq> []" and "length bin \<le> 0x400000"
  shows "\<exists>m. vm_ok m \<and> abs_vm m = image_arch bin \<and> opcodes m = isa_registry \<and> running m \<and> debugging m = dbg
    \<and> syscalls m 10 = Some (create 10 ''exit'' Cb_exit)
    \<and> (\<forall>m'. run yeti_call m = Some (Inr (), m') \<longrightarrow> run_vm empty_null (Bin bin) dbg = Some (Finished, m'))
    \<and> (run yeti_call m = None \<longrightarrow> run_vm empty_null (Bin bin) dbg = None)
    \<and> (\<forall>e m'. run yeti_call m = Some (Inl e, m') \<longrightarrow> run_vm empty_null (Bin bin) dbg = Some (report_exception e m', m'))"
proof -
  let ?r = "ready_vm dbg" and ?n = "of_nat (length bin) :: u32"
  have n: "unat ?n = length bin" using assms(2) by (intro unat_of_nat_u32) simp
  have ok: "mmu_ok (mmu ?r)" using ready_memory by (simp add: ready_vm_def)
  have "mmu_covers (mmu ?r) (code_base ?r) ?n" using assms(2) n by (simp add: ready_covers ready_flags)
  from set_program_found [OF ok ready_flags(1,2) this, of 0] obtain mem where
    sp: "set_program_bin bin 0 ?r = (Inr True, set_flag PC_INITIALIZED (?r\<lparr>initial_pc := 0, mmu := mem\<rparr>))"
    and mem: "mmu_ok mem" "mmu_covers mem = mmu_covers (mmu ?r)"
      "mmu_byte mem = (\<lambda>x. if unat x < length bin then bin ! unat x else 0)"
    by (auto simp: ready_flags ready_byte in_area_def n cong: if_cong)
  let ?m1 = "set_flag PC_INITIALIZED (?r\<lparr>initial_pc := 0, mmu := mem\<rparr>)"
  let ?m = "?m1\<lparr>registers := (replicate 33 0)[32 := 0], running := True\<rparr>"
  have c1: "config_ok ?m1" using config_ok_program_bin [OF ready_ok, of bin 0 dbg] by (simp add: sp)
  have fields: "initial_pc ?m1 = 0" "mmu ?m1 = mem" "opcodes ?m1 = isa_registry" "syscalls ?m1 = syscalls ?r"
    "debugging ?m1 = dbg" "is_initialized ?m1"
    by (simp_all add: set_flag_def ready_vm_def is_initialized_def ALL_FLAGS_MASK_def)
  have cov: "mmu_covers (mmu ?m1) (initial_pc ?m1) 4" by (simp add: fields mem(2) ready_covers)
  have st: "start ?m1 = (Inr (), ?m)" using start_eq [OF c1] cov fields by simp
  have "vm_ok ?m" using started_inv [OF c1 cov, of True] fields(1) by (simp add: vm_inv_def)
  moreover have "abs_vm ?m = image_arch bin"
    using mem(2) by (auto simp: abs_vm_def image_arch_def reg_value_def get_pc_def fields mem(3) ready_covers fun_eq_iff reg_less nth_list_update)
  moreover have "run_vm empty_null (Bin bin) dbg = (case run yeti_call ?m of
        None \<Rightarrow> None
      | Some (Inr _, m) \<Rightarrow> Some (Finished, m)
      | Some (Inl e, m) \<Rightarrow> Some (report_exception e m, m))"
    using assms(1) sp st by (simp add: run_vm_ready set_program_def)
  moreover have "syscalls ?m 10 = Some (create 10 ''exit'' Cb_exit)"
    by (simp add: fields) (simp add: ready_vm_def init_syscalls_empty)
  ultimately show ?thesis using fields by (intro exI [of _ ?m]) (auto simp: Let_def split: sum.split)
qed

section \<open>Programs that do not end\<close>

lemma endless_fuel:
  assumes "arch_run n (abs_vm m) = Some a" and "vm_ok m" and "opcodes m = isa_registry" and "running m"
  shows "run_fuel n call m = None"
  using assms
proof (induction n arbitrary: m)
  case (Suc n)
  then obtain eff a1 where eff: "arch_effect (abs_vm m) = Some eff" and st: "arch_step eff (abs_vm m) = (None, a1)"
    and rest: "arch_run n a1 = Some a" by (auto split: option.splits prod.splits)
  obtain r m1 where m1: "run_step call m = (r, m1)" by fastforce
  with run_step_effect [OF Suc.prems(2,3) eff, of call] st have r: "r = Inr ()" and
    ok: "vm_ok m1" "abs_vm m1 = a1" and fr: "frame m1 = frame m"
    by (auto simp: realises_def elim: outcome.elims)
  have "run_fuel n call m1 = None"
    using Suc.IH [of m1] rest ok frame_fields [OF fr] Suc.prems(3,4) by simp
  then show ?case using m1 r Suc.prems(4) by (simp add: is_running_def)
qed (simp add: is_running_def)


section \<open>The exit call\<close>

lemma exit_returns:
  assumes "vm_ok m"
  shows "\<exists>t. yeti_call Cb_exit m
    = (Inr (), m\<lparr>running := False, trace := t, registers := (registers m)[10 := 0]\<rparr>)"
  by (simp add: yeti_call_def exit_call_def halt_def print_out_def action_simps set_register_def register_count_def) (rule exI, rule refl)

section \<open>Properties\<close>

text \<open>
  C5: The emulator from end to end. If the RISC-V machine, started on an image, executes instructions up to an
  environment call with 10 in \<open>a7\<close>, the front end runs the image and finishes, with the registers, the program
  counter after the call and the memory of the RISC-V machine; the call itself only clears \<open>a0\<close>.
\<close>

theorem program_finishes:
  assumes "bin \<noteq> []" and "length bin \<le> 0x400000" and "arch_run n (image_arch bin) = Some a"
    and "arch_access (arch_pc a) 4 a" and "arch_fetch a = 0x73" and "arch_x a (reg_no Reg_a7) = 10"
    and "arch_mapped a (arch_pc a + 4) 4"
  shows "\<exists>m. run_vm empty_null (Bin bin) False = Some (Finished, m) \<and> \<not> running m
    \<and> abs_vm m = a\<lparr>arch_x := (arch_x a)(reg_no Reg_a0 := 0), arch_pc := arch_pc a + 4\<rparr>"
proof -
  from image_started [OF assms(1,2), of False empty_null] obtain m where
    ok: "vm_ok m" and m: "abs_vm m = image_arch bin" "opcodes m = isa_registry" "running m" "\<not> debugging m"
      "syscalls m 10 = Some (create 10 ''exit'' Cb_exit)"
    and fin: "\<And>m'. run yeti_call m = Some (Inr (), m') \<Longrightarrow> run_vm empty_null (Bin bin) False = Some (Finished, m')"
    by blast
  from assms(3) m(1) have "arch_run n (abs_vm m) = Some a" by simp
  from run_follows [OF this ok m(2,3), of yeti_call] obtain m1 where r: "run yeti_call m = run yeti_call m1"
    and ok1: "vm_ok m1" and a: "abs_vm m1 = a" and fr: "frame m1 = frame m" by blast
  note same = frame_fields [OF fr]
  obtain t where call: "yeti_call Cb_exit m1
      = (Inr (), m1\<lparr>running := False, trace := t, registers := (registers m1)[10 := 0]\<rparr>)"
    using exit_returns [OF ok1] by blast
  let ?m2 = "m1\<lparr>running := False, trace := t, registers := (registers m1)[10 := 0]\<rparr>"
  have ok2: "vm_ok ?m2" using ok1 by (simp add: vm_ok_def)
  have abs2: "abs_vm ?m2 = a\<lparr>arch_x := (arch_x a)(reg_no Reg_a0 := 0)\<rparr>"
    using ok1 by (auto simp: abs_vm_def a [symmetric] reg_value_def get_pc_def vm_ok_def reg_less nth_list_update
      fun_eq_iff word_unat_eq_iff)
  have fields: "get_pc m1 = arch_pc a" "reg_value m1 = arch_x a" "mmu_covers (mmu m1) = arch_mapped a" "get_pc ?m2 = arch_pc a"
    using a abs2 by (auto simp: abs_vm_def)
  have exits: "run yeti_call m1 = Some (Inr (), snd (inc_pc ?m2))"
    by (rule run_exits [where m = m1 and h = "create 10 ''exit'' Cb_exit" and call = yeti_call and ?m1.0 = ?m2])
      (use ok1 same m assms(4-7) a fields call in \<open>simp_all add: create_def vm_ok_def\<close>)
  have "mmu_covers (mmu ?m2) (get_pc ?m2 + 4) 4" using assms(7) fields by simp
  with realises_inc_pc [OF ok2] have
    "abs_vm (snd (inc_pc ?m2)) = a\<lparr>arch_x := (arch_x a)(reg_no Reg_a0 := 0), arch_pc := arch_pc a + 4\<rparr>
      \<and> frame (snd (inc_pc ?m2)) = frame ?m2"
    using assms(7) by (auto simp: realises_def arch_next_def arch_at_def abs2 fields)
  with fin [OF trans [OF r exits]] frame_fields(2) [of "snd (inc_pc ?m2)" ?m2] show ?thesis by auto
qed

text \<open>
  C24: If the RISC-V machine can execute any number of instructions of an image without a trap or a system
  instruction, the front end does not return.
\<close>

theorem program_runs_forever:
  assumes "bin \<noteq> []" and "length bin \<le> 0x400000" and "\<And>n. arch_run n (image_arch bin) \<noteq> None"
  shows "run_vm empty_null (Bin bin) dbg = None"
proof -
  from image_started [OF assms(1,2), of dbg empty_null] obtain m where
    m: "vm_ok m" "abs_vm m = image_arch bin" "opcodes m = isa_registry" "running m"
    and none: "run yeti_call m = None \<longrightarrow> run_vm empty_null (Bin bin) dbg = None" by (elim exE conjE) (rule that)
  have "run_fuel n yeti_call m = None" for n
  proof -
    obtain a where "arch_run n (abs_vm m) = Some a" using assms(3) [of n] m(2) by auto
    then show ?thesis using m(1,3,4) by (rule endless_fuel)
  qed
  then have "run yeti_call m = None" using run_fuel_iff by (metis not_None_eq)
  with none show ?thesis by blast
qed

section \<open>Two images\<close>

text \<open>\<open>addi a7, x0, 10; ecall\<close> and \<open>jal x0, 0\<close>.\<close>

definition exit_image :: program_code_t where
  "exit_image = [0x93, 0x08, 0xA0, 0x00, 0x73, 0x00, 0x00, 0x00]"

definition loop_image :: program_code_t where
  "loop_image = [0x6F, 0x00, 0x00, 0x00]"

lemma image_decodes:
  "find_handler isa_registry 0x00A00893 = Some C_addi" "find_handler isa_registry 0x6F = Some C_jal"
  by (simp_all add: find_handler_isa class_entry_def class_id_simps get_code_def get_func3_def get_bits_def
    make_mask_def all_bits_mask_def mask_eq_exp_minus_1)

lemma image_fields:
  "rd 0x00A00893 = 17" "rs1 0x00A00893 = 0" "imm_I 0x00A00893 = 10" "rd 0x6F = 0" "imm_J 0x6F = 0"
  by (simp_all add: isa_fields field_def place_def mask_eq_exp_minus_1)

lemma exit_run:
  "arch_run 1 (image_arch exit_image) = Some ((image_arch exit_image)\<lparr>arch_x := (\<lambda>_. 0)(17 := 10), arch_pc := 4\<rparr>)"
proof -
  have "arch_fetch (image_arch exit_image) = 0x00A00893"
    by (simp add: arch_fetch_def arch_load_def arch_bytes_def image_arch_def exit_image_def upt_rec)
  then have "arch_effect (image_arch exit_image) = Some (Set_Reg 17 10)"
    by (simp add: arch_effect_def image_decodes image_fields cxx_defined_def arch_access_def) (simp add: image_arch_def)
  then show ?thesis
    by (simp add: arch_step_def arch_write_def arch_next_def arch_at_def) (simp add: image_arch_def)
qed

theorem program_finishes_witness:
  "\<exists>m. run_vm True (Bin exit_image) False = Some (Finished, m) \<and> get_pc m = 8 \<and> reg_value m 17 = 10"
proof -
  let ?a = "(image_arch exit_image)\<lparr>arch_x := (\<lambda>_. 0)(17 := 10), arch_pc := 4\<rparr>"
  have "arch_access 4 4 ?a" "arch_mapped ?a 8 4" by (simp_all add: arch_access_def image_arch_def)
  moreover have "arch_fetch ?a = 0x73"
    by (simp add: arch_fetch_def arch_load_def arch_bytes_def image_arch_def exit_image_def upt_rec)
  ultimately obtain m where m: "run_vm True (Bin exit_image) False = Some (Finished, m)"
    "abs_vm m = ?a\<lparr>arch_x := (arch_x ?a)(10 := 0), arch_pc := 8\<rparr>"
    using program_finishes [OF _ _ exit_run, of True] by (auto simp: exit_image_def)
  have "arch_pc (abs_vm m) = 8" "arch_x (abs_vm m) 17 = 10" unfolding m(2) by simp_all
  with m(1) show ?thesis by (auto simp: abs_vm_def)
qed

theorem program_runs_forever_witness: "run_vm True (Bin loop_image) False = None"
proof -
  let ?a = "image_arch loop_image"
  have "arch_fetch ?a = 0x6F"
    by (simp add: arch_fetch_def arch_load_def arch_bytes_def image_arch_def loop_image_def upt_rec)
  then have "\<exists>eff. arch_effect ?a = Some eff \<and> arch_step eff ?a = (None, ?a)"
    by (simp add: arch_effect_def image_decodes image_fields cxx_defined_def arch_access_def)
      (simp add: image_arch_def arch_step_def arch_goto_def arch_at_def arch_write_def)
  then have "arch_run n ?a \<noteq> None" for n by (induction n) auto
  with program_runs_forever [of loop_image] show ?thesis by (simp add: loop_image_def)
qed

text \<open>The word 0 is no instruction.\<close>

theorem exceptions_reported_witness:
  "\<exists>e report m. run_vm True (Bin [0, 0, 0, 0]) False = Some (Escaped e report, m) \<and> take 9 report = ''Exception''"
proof -
  let ?bin = "[0, 0, 0, 0] :: program_code_t"
  from image_started [of ?bin False True] obtain m where ok: "vm_ok m" and m: "abs_vm m = image_arch ?bin"
      "opcodes m = isa_registry" "running m"
    and esc: "\<forall>e m'. run yeti_call m = Some (Inl e, m') \<longrightarrow> run_vm True (Bin ?bin) False = Some (report_exception e m', m')"
    by auto
  have "get_pc m = 0" "arch_access 0 4 (abs_vm m)" "arch_fetch (abs_vm m) = 0"
    using m(1) by (auto simp: abs_vm_def image_arch_def arch_access_def arch_fetch_def arch_load_def arch_bytes_def upt_rec)
  with get_current_eq [OF ok] have cur: "get_current m = Inr (Some 0)" by simp
  have "find_handler isa_registry 0 = None"
    using find_handler_table [of 0, where 'm = unit]
    by (simp add: isa_table_def get_code_def get_bits_def make_mask_def all_bits_mask_def)
  then obtain msg where "run_step yeti_call m = (Inl (unknown_instruction msg), m)"
    using cur m(2) by (auto simp: run_step_def andThen_def query_def throw_def)
  then have "run yeti_call m = Some (Inl (unknown_instruction msg), m)"
    using m(3) by (subst run_unfold) (simp add: is_running_def)
  moreover obtain dump where "dump_state m = Inr dump"
    using dump_with_error [OF ok, of "Some 0"] cur by (cases "dump_state m") (auto simp: dump_state_def)
  ultimately have r: "run_vm True (Bin ?bin) False
      = Some (Escaped (unknown_instruction msg) (''Exception'' @ what (unknown_instruction msg) @ endl @ dump), m)"
    using esc by (simp add: report_exception_caught)
  from exceptions_reported [OF r] r show ?thesis by auto
qed

end
