(* ===== verification/Yeti_Tools.thy ===== *)
theory Yeti_Tools
  imports Yeti_Main Hex_Format
begin

text \<open>
  The two small tools: tools/view_hex.cxx prints the records of an Intel HEX file as a table, and
  tools/make_dummy.cxx writes a source file with one function. A tool is a function from its arguments to its
  exit status and its output; \<open>argv\<close> has at least the name of the program.
\<close>

section \<open>view_hex\<close>

definition format_02X :: "u8 \<Rightarrow> string" where
  "format_02X b = [''0123456789ABCDEF'' ! (unat b div 16), ''0123456789ABCDEF'' ! (unat b mod 16)]"

definition view_to_hex :: "hex_record \<Rightarrow> string" where
  "view_to_hex r = fold (\<lambda>b result. result @ format_02X b) (rec_data r) []"

definition view_header :: string where
  "view_header = setw_left 5 ''no'' @ setw_left 20 ''type'' @ setw 10 ''count'' @ setw 10 ''offset ''
     @ setw_left 10 ''is valid'' @ setw_left 10 ''r.data'' @ endl"

definition view_line :: "nat \<Rightarrow> hex_record \<Rightarrow> string" where
  "view_line idx r = setw_left 5 (show_nat idx) @ setw_left 20 (get_type_name r) @ setw 10 (show_nat (unat (rec_count r)))
     @ setw 10 (show_hex (unat (rec_offset r))) @ '' '' @ setw_left 10 (show_bool (is_valid r))
     @ setw_left 10 (view_to_hex r) @ endl"

fun view_lines :: "nat \<Rightarrow> hex_record list \<Rightarrow> string" where
  "view_lines idx [] = []"
| "view_lines idx (r # rs) = view_line idx r @ view_lines (idx + 1) rs"

datatype exit_code = EXIT_SUCCESS | EXIT_FAILURE

definition view_hex_main :: "file_system \<Rightarrow> string list \<Rightarrow> exn + exit_code \<times> string" where
  "view_hex_main fs argv =
     (if length argv < 2 then Inr (EXIT_FAILURE, ''Usage: '' @ argv ! 0 @ '' <hex file>'' @ endl)
      else case parse_hex_file fs (argv ! 1) of
             Inl e \<Rightarrow> Inl e
           | Inr None \<Rightarrow> Inr (EXIT_FAILURE, ''unable load '' @ argv ! 1 @ endl)
           | Inr (Some records) \<Rightarrow> Inr (EXIT_SUCCESS, view_header @ view_lines 1 records))"

section \<open>make_dummy\<close>

definition generate :: "string \<Rightarrow> string" where
  "generate name = ''// generated file'' @ endl @ ''// do not edit'' @ endl @ ''// see: '' @ name @ endl
     @ ''int _generated() '' @ ''{ return 42; }'' @ endl"

text \<open>
  \<open>writable path\<close> says whether the file can be opened. The result is the exit status, what was printed, and
  the file that was written.
\<close>

definition make_dummy_main :: "(string \<Rightarrow> bool) \<Rightarrow> string list \<Rightarrow> exit_code \<times> string \<times> (string \<times> string) option" where
  "make_dummy_main writable argv =
     (if length argv < 3 then (EXIT_FAILURE, ''Usage: '' @ argv ! 0 @ '' <path> <name>'' @ endl, None)
      else let out_name = argv ! 1 in
        if \<not> writable out_name then (EXIT_FAILURE, ''Unable open '' @ argv ! 1 @ endl, None)
        else (EXIT_SUCCESS, [], Some (out_name, generate (argv ! 2))))"

section \<open>The data column\<close>

lemma fold_append: "fold (\<lambda>b result. result @ f b) xs acc = acc @ concat (map f xs)"
  by (induction xs arbitrary: acc) simp_all

lemma view_to_hex_eq: "view_to_hex r = hex_text (rec_data r)"
  by (simp add: view_to_hex_def fold_append hex_text_def format_02X_def)

lemma view_to_hex_inverse: "from_hex (view_to_hex r) = rec_data r"
  using from_hex_text [of "rec_data r" "[]"] by (simp add: view_to_hex_eq)

section \<open>Properties\<close>

text \<open>
  The viewer lists a written file. For the text of any list of records that ends with one of type EOF, it
  succeeds and prints one line for each record, all of them marked as valid; the data column of a line reads
  back as the data of the record.
\<close>

theorem viewer_lists_file:
  assumes "\<forall>(offs, ty, data) \<in> set rs. ty \<noteq> 1 \<and> length data \<le> 255" and "length eof \<le> 255"
    and "fs path = Some (map of_char (file_text rs @ file_text [(offs, 1, eof)] @ rest))"
  shows "\<exists>records. view_hex_main fs [prog, path] = Inr (EXIT_SUCCESS, view_header @ view_lines 1 records)
    \<and> map rec_data records = map (\<lambda>(offs, ty, data). data) rs @ [eof]
    \<and> (\<forall>r \<in> set records. is_valid r \<and> from_hex (view_to_hex r) = rec_data r)"
proof -
  let ?rs = "map (\<lambda>(offs, ty, data). written_record offs ty data) (rs @ [(offs, 1, eof)])"
  have "parse_hex_file fs path = Inr (Some ?rs)"
    by (simp only: parse_hex_file_def assms(3) option.case char_bytes parse_written_file [OF assms(1,2)])
  then have "view_hex_main fs [prog, path] = Inr (EXIT_SUCCESS, view_header @ view_lines 1 ?rs)"
    by (simp add: view_hex_main_def)
  moreover have "map rec_data ?rs = map (\<lambda>(offs, ty, data). data) rs @ [eof]"
    by (simp add: split_beta written_record_def Let_def)
  moreover have "\<forall>r \<in> set ?rs. is_valid r \<and> from_hex (view_to_hex r) = rec_data r"
    using assms(1,2) by (auto simp: valid_written view_to_hex_inverse)
  ultimately show ?thesis by blast
qed

theorem viewer_lists_file_witness:
  "\<exists>fs records. view_hex_main fs [''view'', ''a.hex''] = Inr (EXIT_SUCCESS, view_header @ view_lines 1 records)
     \<and> map rec_data records = [[0x13], []]"
proof -
  let ?rs = "[(0, 0, [0x13])] :: (u16 \<times> u8 \<times> u8 list) list"
  have "\<forall>(offs, ty, data) \<in> set ?rs. ty \<noteq> 1 \<and> length data \<le> 255" by simp
  moreover obtain fs :: file_system where "fs ''a.hex'' = Some (map of_char (file_text ?rs @ file_text [(0, 1, [])] @ []))"
    by (rule that [of "[''a.hex'' \<mapsto> map of_char (file_text ?rs @ file_text [(0, 1, [])] @ [])]"]) (rule fun_upd_same)
  ultimately obtain records where "view_hex_main fs [''view'', ''a.hex''] = Inr (EXIT_SUCCESS, view_header @ view_lines 1 records)"
    "map rec_data records = map (\<lambda>(offs, ty, data). data) ?rs @ [[]]"
    using viewer_lists_file [of ?rs "[]" fs "''a.hex''" 0 "[]" "''view''"] by (metis le0 list.size(3))
  then show ?thesis by (simp only: list.map prod.case append.simps) (intro exI conjI)
qed

end
