(* ===== verification/Bit_Checks.thy ===== *)
theory Bit_Checks
  imports Opcode
begin

text \<open>
  The checks that the compiler makes: the \<open>static_assert\<close>s of vm_bit_tools.cxx and vm_opcode.hxx, on the model.
  The instances of \<open>bits\<close> for signed types are needed for some of them: a value of a signed type is the word
  of its bits, and \<open>>>\<close> on it is the arithmetic shift.
\<close>

section \<open>Signed instances\<close>

definition signed_get_bits :: "nat \<Rightarrow> nat \<Rightarrow> 'a::len word \<Rightarrow> 'a word" where
  "signed_get_bits start len code = (let msk = make_mask 0 len in signed_shr code start AND msk)"

lemma bit_signed_get_bits:
  "bit (signed_get_bits start len code :: 'a::len word) n \<longleftrightarrow>
     n < LENGTH('a) \<and> n < len \<and> bit code (min (start + n) (LENGTH('a) - 1))"
  by (auto simp: signed_get_bits_def Let_def signed_shr_eq bit_simps field_simps_bits min_def)

text \<open>Where the field is inside the word, the signed instance reads the same bits.\<close>

lemma signed_get_bits_eq: "start + len \<le> LENGTH('a) \<Longrightarrow> signed_get_bits start len (code :: 'a::len word) = get_bits start len code"
  by (rule bit_word_eqI) (auto simp: bit_signed_get_bits field_simps_bits min_def)

section \<open>The assertions\<close>

definition test_sra :: "'a::len word \<Rightarrow> 'a word \<Rightarrow> nat \<Rightarrow> bool" where
  "test_sra arg expected shift \<longleftrightarrow> arithmetic_shift arg shift = expected"

definition expected_bit :: "nat \<Rightarrow> u8" where
  "expected_bit pos = push_bit pos 1"

definition bit_tools_asserts :: "bool list" where
  "bit_tools_asserts =
     [(make_mask 0 8 :: u32) = 0b011111111, (make_mask 1 8 :: u32) = 0b111111110,
      (make_mask 0 8 :: u32) = 0b011111111, (make_mask 1 8 :: u32) = 0b111111110,
      shift_bits 0 1 1 (0b1 :: u32) = 0b10, shift_bits 0 1 2 (0b11 :: u32) = 0b110,
      shift_bits 0 2 1 (0b1 :: u32) = 0b100, shift_bits 0 2 2 (0b11 :: u32) = 0b1100,
      signed_get_bits 0 1 (- 1) = expected_bit 0, signed_get_bits 1 1 (- 1) = expected_bit 0,
      test_sra (0 :: u8) 0 5, test_sra (0 :: u8) 0 5,
      test_sra (- 1 :: u8) (- 1) 5, test_sra (- 1 :: u8) (- 1) 5,
      test_sra (0b00100000 :: u8) 1 5, test_sra (0b00100000 :: u8) 1 5,
      test_sra (0b10100000 :: u8) 0b11101000 2,
      test_sra (0b10110000 :: u8) 0b11110110 3,
      get_bits 0 1 (0b1 :: u32) = 0b1, get_bits 0 2 (0b11 :: u32) = 0b11, get_bits 1 1 (0b10 :: u32) = 0b1,
      get_bits 0 7 (0x02c58533 :: u32) = 0b110011, get_bits 12 3 (0x02c58533 :: u32) = 0b000,
      get_bits 12 3 (0x02c5c533 :: u32) = 0b100, get_bits 12 3 (0x02c5f533 :: u32) = 0b111,
      to_signed (all_bits :: u32) = - 1, to_unsigned (- 1) = (all_bits :: u32),
      extend_sign_from 3 (0 :: u32) = 0, extend_sign_from 3 (1 :: u32) = 1,
      extend_sign_from 3 (0b01000 :: u16) = NOT 0b0111, extend_sign_from 2 (0b00100 :: u32) = NOT 0b0011,
      countl_zero (0 :: u8) = 8, countl_zero (0b00010000 :: u8) = 3,
      extend_sign (0b01000 :: u8) = NOT 0b0111, extend_sign (0b00100 :: u8) = NOT 0b0011,
      extend_sign (0 :: u8) = 0, extend_sign (sign_mask :: u8) = sign_mask, extend_sign (NOT 0 :: u8) = NOT 0]"

definition opcode_asserts :: "bool list" where
  "opcode_asserts =
     [opcode_make_mask 0 8 = 0b011111111, opcode_make_mask 1 8 = 0b111111110,
      make_opcode 0b11 0b111 = 0b01111111, make_opcode 0b11 0b110 = 0b01111011,
      make_opcode 0b10 0b111 = 0b01011111, make_opcode 0b10 0b110 = 0b01011011]"

lemma mask_ones: "make_mask 0 n = (mask n :: 'a::len word)"
  by (rule bit_word_eqI) (auto simp: field_simps_bits bit_simps)

lemma asserts_hold: "list_all id bit_tools_asserts"
  by (simp add: bit_tools_asserts_def test_sra_def expected_bit_def signed_get_bits_def get_bits_def shift_bits_def
    make_mask_def all_bits_mask_def arithmetic_shift_def signed_shr_def extend_sign_def extend_sign_from_def
    to_signed_def to_unsigned_def all_bits_def sign_mask_def sign_pos_def msb_pos_def bit_count_def countl_zero_def upt_rec Let_def mask_eq_exp_minus_1)

lemma opcode_asserts_hold: "list_all id opcode_asserts"
  by (simp add: opcode_asserts_def opcode_make_mask_def make_mask_def all_bits_mask_def make_opcode_def mask_eq_exp_minus_1)

end
