(* ===== verification/VM_Debug.thy ===== *)
theory VM_Debug
  imports VM_Run
begin

text \<open>
  The debug output does not influence the machine. Two machines are alike if they differ at most in the debug
  flag and in the lines that it causes; every operation takes machines that are alike to machines that are.
\<close>

section \<open>Machines that differ in the debug output\<close>

definition printed :: "'c basic_vm \<Rightarrow> trace_event list" where
  "printed m = filter is_output (trace m)"

definition alike :: "'c basic_vm \<Rightarrow> 'c basic_vm \<Rightarrow> bool" where
  "alike m n \<longleftrightarrow> n = m\<lparr>debugging := debugging n, trace := trace n\<rparr> \<and> printed m = printed n"

lemma alike_refl [simp]: "alike m m"
  by (simp add: alike_def)

lemma alike_sym: "alike m n \<Longrightarrow> alike n m"
  unfolding alike_def by (metis (no_types, lifting) basic_vm.surjective basic_vm.update_convs(12,14))

lemma alikeE:
  assumes "alike m n"
  obtains d t where "n = m\<lparr>debugging := d, trace := t\<rparr>" and "filter is_output t = printed m"
  using assms by (auto simp: alike_def printed_def)

lemma alikeI: "filter is_output t = printed m \<Longrightarrow> alike m (m\<lparr>debugging := d, trace := t\<rparr>)"
  by (simp add: alike_def printed_def)

lemma alike_append:
  assumes "alike m n" and "filter is_output es = filter is_output es'"
  shows "alike (m\<lparr>trace := trace m @ es\<rparr>) (n\<lparr>trace := trace n @ es'\<rparr>)"
proof -
  from assms(1) obtain d t where n: "n = m\<lparr>debugging := d, trace := t\<rparr>" and t: "filter is_output t = printed m"
    by (rule alikeE)
  have "n\<lparr>trace := trace n @ es'\<rparr> = (m\<lparr>trace := trace m @ es\<rparr>)\<lparr>debugging := d, trace := t @ es'\<rparr>" by (simp add: n)
  moreover have "filter is_output (t @ es') = printed (m\<lparr>trace := trace m @ es\<rparr>)"
    using t assms(2) by (simp add: printed_def)
  ultimately show ?thesis by (simp only: alikeI)
qed

text \<open>An operation that does not see the difference, from states with \<open>P\<close>, which it keeps.\<close>

named_theorems blind_intros \<open>operations that do not see the debug output\<close>

definition blind :: "('c basic_vm \<Rightarrow> bool) \<Rightarrow> ('c basic_vm, 'a) action \<Rightarrow> bool" where
  "blind P f \<longleftrightarrow> (\<forall>m n. P m \<and> alike m n \<longrightarrow>
     P (snd (f m)) \<and> fst (f n) = fst (f m) \<and> alike (snd (f m)) (snd (f n)))"

lemma blindD:
  assumes "blind P f" and "P m" and "alike m n"
  shows "P (snd (f m))" and "fst (f n) = fst (f m)" and "alike (snd (f m)) (snd (f n))"
  using assms by (auto simp: blind_def)

text \<open>Operations that do not touch the flag and the trace at all.\<close>

definition quiet :: "('c basic_vm, 'a) action \<Rightarrow> bool" where
  "quiet f \<longleftrightarrow> (\<forall>m d t. f (m\<lparr>debugging := d, trace := t\<rparr>) = (fst (f m), (snd (f m))\<lparr>debugging := d, trace := t\<rparr>)
     \<and> trace (snd (f m)) = trace m)"

lemma quietI:
  assumes "\<And>m d t. f (m\<lparr>debugging := d, trace := t\<rparr>) = (fst (f m), (snd (f m))\<lparr>debugging := d, trace := t\<rparr>)"
    and "\<And>m. trace (snd (f m)) = trace m"
  shows "quiet f"
  using assms by (simp add: quiet_def)

lemma quiet_blind:
  assumes "quiet f" and "safe E P f"
  shows "blind P f"
  using assms unfolding blind_def
  by (auto elim!: alikeE simp: quiet_def safe_def printed_def intro!: alikeI)

lemma blind_ret [simp, blind_intros]: "blind P (ret x)"
  by (simp add: blind_def ret_def)

lemma blind_throw [simp, blind_intros]: "blind P (throw e)"
  by (simp add: blind_def throw_def)

lemma blind_checked [simp, blind_intros]: "blind P (checked r)"
  by (simp add: blind_def checked_def)

lemma blind_query [blind_intros]: "(\<And>m n. P m \<Longrightarrow> alike m n \<Longrightarrow> f n = f m) \<Longrightarrow> blind P (query f)"
  by (simp add: blind_def query_def)

lemma blind_andThen [blind_intros]:
  assumes "blind P f" and "\<And>x. blind P (g x)"
  shows "blind P (andThen f g)"
  unfolding blind_def
proof (intro allI impI)
  fix m n
  assume A: "P m \<and> alike m n"
  obtain r m1 n1 where f: "f m = (r, m1)" "f n = (r, n1)"
    using blindD(2) [OF assms(1), of m n] A by (metis prod.collapse)
  have "P m1" "alike m1 n1" using blindD [OF assms(1), of m n] A f by simp_all
  then show "P (snd (andThen f g m)) \<and> fst (andThen f g n) = fst (andThen f g m)
      \<and> alike (snd (andThen f g m)) (snd (andThen f g n))"
    using blindD [OF assms(2), of m1 n1] by (cases r) (simp_all add: andThen_def f)
qed

lemma blind_whenever [blind_intros]: "blind P f \<Longrightarrow> blind P (whenever b f)"
  by (simp add: whenever_def)

lemma blind_if [blind_intros]: "blind P f \<Longrightarrow> blind P g \<Longrightarrow> blind P (if b then f else g)"
  by simp

section \<open>The operations of \<open>basic_vm\<close>\<close>

lemma debug_pc [simp]: "get_pc (m\<lparr>debugging := d, trace := t\<rparr>) = get_pc m"
  by (simp add: get_pc_def)

lemma debug_fields [simp]:
  "get_register r (m\<lparr>debugging := d, trace := t\<rparr>) = get_register r m"
  "get_ptr_ro a k (m\<lparr>debugging := d, trace := t\<rparr>) = get_ptr_ro a k m"
  "get_ptr_rw a k (m\<lparr>debugging := d, trace := t\<rparr>) = get_ptr_rw a k m"
  "get_current (m\<lparr>debugging := d, trace := t\<rparr>) = get_current m"
  "code_at a (m\<lparr>debugging := d, trace := t\<rparr>) = code_at a m"
  by (simp_all add: get_register_def get_ptr_ro_def get_ptr_rw_def get_current_def current_ptr_def code_at_def split: option.split)

lemma quiet_set_register: "quiet (set_register r v)"
  by (rule quietI) (auto simp: set_register_def action_simps)

lemma quiet_set_pc: "quiet (set_pc v)"
  by (rule quietI) (auto simp: set_pc_def action_simps)

lemma quiet_jumps: "quiet inc_pc" "quiet (jump_abs a)" "quiet (jump_to d)" "quiet (jump_if b d)"
  using quiet_set_pc unfolding quiet_def
  by (auto simp: inc_pc_def jump_abs_def jump_to_def jump_if_def throw_def Let_def)

lemma quiet_memory: "quiet (read_memory a k v)" "quiet (write_memory a k v)"
  by (rule quietI; auto simp: read_memory_def write_memory_def action_simps split: option.splits sum.splits)+

lemma quiet_system: "quiet debug" "quiet barrier" "quiet halt" "quiet (control_get i)" "quiet (control_set i v)"
  by (rule quietI; simp add: debug_def barrier_def halt_def control_get_def control_set_def action_simps)+

section \<open>Handlers\<close>

definition machine_blind :: "('c basic_vm \<Rightarrow> bool) \<Rightarrow> 'c basic_vm MachineInterface \<Rightarrow> bool" where
  "machine_blind P vm \<longleftrightarrow>
     blind P (mi_syscall vm) \<and> blind P (mi_debug vm) \<and> blind P (mi_barrier vm)
     \<and> (\<forall>d. blind P (mi_jump_abs vm d)) \<and> (\<forall>d. blind P (mi_jump_to vm d))
     \<and> (\<forall>b d. blind P (mi_jump_if vm b d))
     \<and> (\<forall>i. blind P (mi_control_get vm i)) \<and> (\<forall>i v. blind P (mi_control_set vm i v))
     \<and> (\<forall>a n. n \<in> access_sizes \<longrightarrow> blind P (mi_read_memory vm a n 0))
     \<and> (\<forall>a n v. n \<in> access_sizes \<longrightarrow> blind P (mi_write_memory vm a n v))
     \<and> (\<forall>r v. r < register_count \<longrightarrow> blind P (mi_set_register vm r v))
     \<and> (\<forall>r. blind P (get_reg vm r)) \<and> blind P (get_pc_value vm)"

lemma machine_blindD:
  assumes "machine_blind P vm"
  shows "blind P (mi_syscall vm)" "blind P (mi_debug vm)" "blind P (mi_barrier vm)"
    "blind P (mi_jump_abs vm d)" "blind P (mi_jump_to vm d)" "blind P (mi_jump_if vm b d)"
    "blind P (mi_control_get vm i)" "blind P (mi_control_set vm i v)"
    "n \<in> access_sizes \<Longrightarrow> blind P (mi_read_memory vm a n 0)"
    "n \<in> access_sizes \<Longrightarrow> blind P (mi_write_memory vm a n v)"
    "r < register_count \<Longrightarrow> blind P (mi_set_register vm r v)"
    "blind P (get_reg vm r)" "blind P (get_pc_value vm)"
  using assms unfolding machine_blind_def by blast+

lemma exec_blind:
  assumes "machine_blind P vm"
  shows "blind P (exec (vtable c) vm code)"
  using machine_blindD [OF assms] decoded_small [of code]
  by (cases c; auto simp: handler_class_defs GenericHandler_def Let_def intro!: blind_intros)

lemma blind_get_reg: "blind P (get_reg (basic_machine call) r)" "blind P (get_pc_value (basic_machine call))"
  by (auto simp: get_reg_def get_pc_value_def elim!: alikeE intro!: blind_intros)

lemma blind_syscall:
  assumes "\<And>c. blind P (call c)"
  shows "blind P (syscall call)"
  using assms by (auto simp: syscall_def elim!: alikeE intro!: blind_intros split: option.split)

lemma basic_machine_blind:
  assumes "\<And>c. blind (vm_inv C) (call c)"
  shows "machine_blind (vm_inv C) (basic_machine call)"
proof -
  have "machine_safe vm_errors (vm_inv C) (basic_machine (\<lambda>_ :: 'a. ret ()))"
    using basic_machine_safe [where al = False and C = C and call = "\<lambda>_. ret ()"] by simp
  from machine_safeD [OF this] show ?thesis
    using blind_syscall [where call = call, OF assms] blind_get_reg [where P = "vm_inv C" and call = call]
    by (auto simp: machine_blind_def intro!: quiet_blind quiet_set_register quiet_jumps quiet_memory quiet_system)
qed

section \<open>A step and the loop\<close>

text \<open>A debug line is printed or not, but in both cases it only adds to the trace.\<close>

lemma blind_debug_print:
  assumes out: "\<And>m. P m \<Longrightarrow> \<exists>e. out m = (Inr (), m\<lparr>trace := trace m @ [e]\<rparr>) \<and> \<not> is_output e"
    and P: "\<And>m t. P (m\<lparr>trace := t\<rparr>) = P m" "\<And>m d t. P (m\<lparr>debugging := d, trace := t\<rparr>) = P m"
  shows "blind P (debug_print out)"
  unfolding blind_def
proof (intro allI impI)
  fix m n
  assume A: "P m \<and> alike m n"
  have dbg: "\<exists>es. debug_print out s = (Inr (), s\<lparr>trace := trace s @ es\<rparr>) \<and> filter is_output es = []" if "P s" for s
  proof (cases "debugging s")
    case True
    from out [OF that] obtain e where "out s = (Inr (), s\<lparr>trace := trace s @ [e]\<rparr>)" "\<not> is_output e" by blast
    with True show ?thesis
      by (intro exI [of _ "[e]"]) (simp add: debug_print_def is_debugging_enabled_def whenever_def)
  next
    case False
    then show ?thesis
      by (intro exI [of _ "[]"]) (simp add: debug_print_def is_debugging_enabled_def whenever_def ret_def)
  qed
  have "P n" using A P(2) by (auto elim!: alikeE)
  with A dbg [of m] dbg [of n] obtain es es' where
    d: "debug_print out m = (Inr (), m\<lparr>trace := trace m @ es\<rparr>)" "debug_print out n = (Inr (), n\<lparr>trace := trace n @ es'\<rparr>)"
    and "filter is_output es = filter is_output es'" by auto
  with A P(1) alike_append [of m n es es'] show "P (snd (debug_print out m)) \<and> fst (debug_print out n) = fst (debug_print out m)
      \<and> alike (snd (debug_print out m)) (snd (debug_print out n))"
    by (simp add: d)
qed

lemma vm_inv_debug [simp]: "vm_inv C (m\<lparr>debugging := d\<rparr>) = vm_inv C m" "vm_inv C (m\<lparr>trace := t\<rparr>) = vm_inv C m"
  by (simp_all add: vm_inv_def vm_ok_def get_pc_def)

lemma blind_trace_before: "blind (vm_inv C) (debug_print (trace_before (vtable c) code))"
proof (rule blind_debug_print)
  fix m :: "'a basic_vm"
  assume "vm_inv C m"
  then have ok: "vm_ok m" by (simp add: vm_inv_def)
  obtain s where "disassemblyArgs (vtable c :: 'a basic_vm HandlerInterface) code = Inr s"
    using disassembly_total by blast
  then show "\<exists>e. trace_before (vtable c) code m = (Inr (), m\<lparr>trace := trace m @ [e]\<rparr>) \<and> \<not> is_output e"
    using decoded_register [OF ok, of code] by (auto simp: trace_before_def action_simps)
qed simp_all

lemma blind_trace_after:
  assumes "C pc 4"
  shows "blind (vm_inv C) (debug_print (trace_after pc))"
proof (rule blind_debug_print)
  fix m :: "'a basic_vm"
  assume "vm_inv C m"
  then have ok: "vm_ok m" and "mmu_covers (mmu m) pc 4" using assms by (auto simp: vm_inv_def)
  then obtain code where "code_at pc m = Inr code" using code_at_eq by blast
  then show "\<exists>e. trace_after pc m = (Inr (), m\<lparr>trace := trace m @ [e]\<rparr>) \<and> \<not> is_output e"
    using decoded_register [OF ok, of code] by (auto simp: trace_after_def action_simps)
qed simp_all

lemma run_step_blind:
  assumes "\<And>c. blind (vm_inv C) (call c)"
  shows "blind (vm_inv C) (run_step call)"
proof -
  have inst: "blind (vm_inv C) (andThen (debug_print (trace_before (vtable c) code)) (\<lambda>_.
     andThen (exec (vtable c) (basic_machine call) code) (\<lambda>_.
     andThen (debug_print (trace_after pc)) (\<lambda>_. whenever b inc_pc))))" if "C pc 4" for c code pc b
    using quiet_blind [OF quiet_jumps(1), of vm_errors "vm_inv C"] safe_inc_pc [of False C]
    by (auto intro!: blind_intros blind_trace_before blind_trace_after that
      exec_blind [OF basic_machine_blind [OF assms]])
  show ?thesis
    unfolding blind_def
  proof (intro allI impI)
    fix m n :: "'a basic_vm"
    assume A: "vm_inv C m \<and> alike m n"
    then have C: "C (get_pc m) 4" by (simp add: vm_inv_def)
    show "vm_inv C (snd (run_step call m)) \<and> fst (run_step call n) = fst (run_step call m)
      \<and> alike (snd (run_step call m)) (snd (run_step call n))"
      using blindD [OF inst [OF C], of m n] A
      by (auto elim!: alikeE simp: run_step_def andThen_def [of "query _"] query_def throw_def split: sum.split option.split)
  qed
qed

lemma run_fuel_blind:
  assumes "\<And>c. blind (vm_inv C) (call c)" and "vm_inv C m" and "alike m n" and "run_fuel k call m = Some (r, m')"
  shows "\<exists>n'. run_fuel k call n = Some (r, n') \<and> alike m' n'"
  using assms(2-4)
proof (induction k arbitrary: m n)
  case 0
  then show ?case by (auto elim!: alikeE simp: is_running_def split: if_splits intro: alikeI)
next
  case (Suc k)
  have "blind (vm_inv C) (run_step call)" by (rule run_step_blind) (rule assms(1))
  note b = blindD [OF this Suc.prems(1,2)]
  have run: "is_running n = is_running m" using Suc.prems(2) by (auto elim!: alikeE simp: is_running_def)
  show ?case
  proof (cases "is_running m")
    case False
    with Suc.prems run show ?thesis by simp
  next
    case True
    obtain x m1 n1 where "run_step call m = (x, m1)" "run_step call n = (x, n1)"
      using b(2) by (cases "run_step call m"; cases "run_step call n") simp
    with Suc.IH [of m1 n1] Suc.prems(3) True run b show ?thesis by (cases x) auto
  qed
qed

lemma run_blind:
  assumes "\<And>c. blind (vm_inv C) (call c)" and "vm_inv C m" and "alike m n" and "run call m = Some (r, m')"
  shows "\<exists>n'. run call n = Some (r, n') \<and> alike m' n'"
proof -
  obtain k where "run_fuel k call m = Some (r, m')" using run_run_fuel [OF assms(4)] by blast
  from run_fuel_blind [where call = call, OF assms(1-3) this] show ?thesis using run_fuel_run by blast
qed

end
