(* ===== verification/Yeti_Debug.thy ===== *)
theory Yeti_Debug
  imports Yeti_Main VM_Debug
begin

text \<open>
  The option \<open>V\<close> of the front end: debugging adds the lines of the debug output, and changes the number base of the
  output that follows them.
\<close>

section \<open>The system calls\<close>

lemma read_loop_debug:
  assumes "read_loop write_memory ptr sz i m = Some (r, m')"
  shows "read_loop write_memory ptr sz i (m\<lparr>debugging := d, trace := t\<rparr>) = Some (r, m'\<lparr>debugging := d, trace := t\<rparr>)"
proof -
  have "wr = write_memory \<longrightarrow> read_loop wr ptr sz i (m\<lparr>debugging := d, trace := t\<rparr>)
      = Some (fst res, (snd res)\<lparr>debugging := d, trace := t\<rparr>)"
    if "read_loop wr ptr sz i m = Some res" for wr ptr sz i and m :: "'a basic_vm" and res
  proof (rule read_loop.raw_induct [where P = "\<lambda>wr ptr sz i m res. wr = write_memory \<longrightarrow>
      read_loop wr ptr sz i (m\<lparr>debugging := d, trace := t\<rparr>) = Some (fst res, (snd res)\<lparr>debugging := d, trace := t\<rparr>)", OF _ that])
    fix loop wr ptr sz i and m :: "'a basic_vm" and res
    assume IH: "\<And>wr ptr sz i m res. loop wr ptr sz i m = Some res \<Longrightarrow> wr = write_memory \<longrightarrow>
        read_loop wr ptr sz i (m\<lparr>debugging := d, trace := t\<rparr>) = Some (fst res, (snd res)\<lparr>debugging := d, trace := t\<rparr>)"
      and body: "(if i < sz then (case wr (ptr + i) 4 (i * i) m of (Inl e, m') \<Rightarrow> Some (Inl e, m')
        | (Inr _, m') \<Rightarrow> loop wr ptr sz (i + 4) m') else Some (Inr (), m)) = Some res"
    obtain x m1 where w: "write_memory (ptr + i) 4 (i * i) m = (x, m1)" by fastforce
    have "quiet (write_memory (ptr + i) 4 (i * i) :: ('a basic_vm, unit) action)" by (rule quiet_memory)
    then have w': "write_memory (ptr + i) 4 (i * i) (m\<lparr>debugging := d, trace := t\<rparr>) = (x, m1\<lparr>debugging := d, trace := t\<rparr>)"
      by (simp add: quiet_def w)
    show "wr = write_memory \<longrightarrow>
        read_loop wr ptr sz i (m\<lparr>debugging := d, trace := t\<rparr>) = Some (fst res, (snd res)\<lparr>debugging := d, trace := t\<rparr>)"
    proof
      assume wr: "wr = write_memory"
      have "(if i < sz then (case x of Inl e \<Rightarrow> Some (Inl e, m1) | Inr _ \<Rightarrow> loop wr ptr sz (i + 4) m1) else Some (Inr (), m))
          = Some res" using body by (simp add: wr w split: sum.splits if_splits)
      then show "read_loop wr ptr sz i (m\<lparr>debugging := d, trace := t\<rparr>) = Some (fst res, (snd res)\<lparr>debugging := d, trace := t\<rparr>)"
        using IH [of wr ptr sz "i + 4" m1 res]
        by (subst read_loop.simps) (cases x; cases "i < sz"; auto simp: wr w')
    qed
  qed
  from this [OF assms] show ?thesis by simp
qed

lemma quiet_read_loop:
  "quiet (\<lambda>m. case read_loop write_memory ptr sz 0 m of Some res \<Rightarrow> res | None \<Rightarrow> (Inl (undefined Endless_Loop), m))"
proof (rule quietI)
  fix m :: "'a basic_vm" and d t
  show "(case read_loop write_memory ptr sz 0 (m\<lparr>debugging := d, trace := t\<rparr>) of
        Some res \<Rightarrow> res | None \<Rightarrow> (Inl (undefined Endless_Loop), m\<lparr>debugging := d, trace := t\<rparr>))
    = (fst (case read_loop write_memory ptr sz 0 m of Some res \<Rightarrow> res | None \<Rightarrow> (Inl (undefined Endless_Loop), m)),
       (snd (case read_loop write_memory ptr sz 0 m of Some res \<Rightarrow> res | None \<Rightarrow> (Inl (undefined Endless_Loop), m)))
         \<lparr>debugging := d, trace := t\<rparr>)"
  proof (cases "read_loop write_memory ptr sz 0 m")
    case None
    have "read_loop write_memory ptr sz 0 (m\<lparr>debugging := d, trace := t\<rparr>) \<noteq> Some (r, m')" for r m'
      using read_loop_debug [where m = "m\<lparr>debugging := d, trace := t\<rparr>" and d = "debugging m" and t = "trace m"] None by auto
    then have "read_loop write_memory ptr sz 0 (m\<lparr>debugging := d, trace := t\<rparr>) = None" by (metis not_Some_eq surj_pair)
    with None show ?thesis by simp
  next
    case (Some res)
    with read_loop_debug [where m = m and r = "fst res" and m' = "snd res" and d = d and t = t] show ?thesis by simp
  qed
  show "trace (snd (case read_loop write_memory ptr sz 0 m of Some res \<Rightarrow> res | None \<Rightarrow> (Inl (undefined Endless_Loop), m))) = trace m"
    by (auto split: option.split dest: read_loop_trace)
qed

lemma blind_print: "blind (vm_inv C) (print_out es)"
  by (auto simp: blind_def print_out_def modify_def intro: alike_append)

lemma blind_run_callback:
  assumes "a mod 4 = 0" and "\<not> C a 4"
  shows "blind (vm_inv C) (run_callback c (basic_machine call))"
proof -
  have halt: "blind (vm_inv C) halt"
    by (rule quiet_blind [where E = UNIV], rule quiet_system)
      (auto simp: halt_def vm_inv_def vm_ok_def get_pc_def intro!: action_intros)
  have set_reg: "blind (vm_inv C) (set_register r v)" if "r < register_count" for r v
    using quiet_blind [OF quiet_set_register safe_set_register [OF that, where al = False and C = C]] by simp
  have loop: "blind (vm_inv C) (\<lambda>m. case read_loop write_memory ptr sz 0 m of
      Some res \<Rightarrow> res | None \<Rightarrow> (Inl (undefined Endless_Loop), m))" for ptr sz
    using quiet_blind [OF quiet_read_loop safe_read_loop [where al = False and C = C, OF assms]] by simp
  show ?thesis
    by (cases c) (auto simp: open_call_def read_call_def close_call_def put_char_call_def put_int_call_def exit_call_def
      register_count_def intro!: blind_intros blind_get_reg blind_print set_reg halt loop)
qed

section \<open>Loading\<close>

lemma quietD:
  assumes "quiet f" and "f m = (r, m')"
  shows "f (m\<lparr>debugging := d, trace := t\<rparr>) = (r, m'\<lparr>debugging := d, trace := t\<rparr>)" and "trace m' = trace m"
proof -
  have "f (m\<lparr>debugging := d, trace := t\<rparr>) = (fst (f m), (snd (f m))\<lparr>debugging := d, trace := t\<rparr>)" "trace (snd (f m)) = trace m"
    using assms(1) unfolding quiet_def by blast+
  then show "f (m\<lparr>debugging := d, trace := t\<rparr>) = (r, m'\<lparr>debugging := d, trace := t\<rparr>)" "trace m' = trace m"
    by (simp_all add: assms(2))
qed

lemma quiet_set_program_bin: "quiet (set_program_bin bin pc)"
  by (rule quietI) (auto simp: set_program_bin_def have_code_block_def is_flag_set_def init_pc_def set_flag_def ret_def throw_def
    Let_def split: option.split sum.split)

lemma quiet_load_data_record: "quiet (load_data_record empty_null a bytes)"
  by (rule quietI) (auto simp: load_data_record_def ret_def throw_def Let_def split: option.split sum.split)

lemma quiet_load_records: "quiet (load_records empty_null rs offs pc)"
proof -
  have "load_records empty_null rs offs pc (m\<lparr>debugging := d, trace := t\<rparr>)
      = (fst (load_records empty_null rs offs pc m), (snd (load_records empty_null rs offs pc m))\<lparr>debugging := d, trace := t\<rparr>)
    \<and> trace (snd (load_records empty_null rs offs pc m)) = trace m" for m :: "'a basic_vm" and d t
  proof (induction empty_null rs offs pc m rule: load_records.induct)
    case (2 empty_null r rs offs pc m)
    let ?l = "load_data_record empty_null (offs + ucast (rec_offset r)) (rec_data r)"
    have l: "?l (m\<lparr>debugging := d, trace := t\<rparr>) = (fst (?l m), (snd (?l m))\<lparr>debugging := d, trace := t\<rparr>)"
      "trace (snd (?l m)) = trace m"
      using quiet_load_data_record [where 'a = 'a] unfolding quiet_def by blast+
    show ?case
    proof (cases "is_valid r")
      case valid: True
      show ?thesis
      proof (cases "get_type r")
        case HEX_DATA
        obtain x m1 where "?l m = (x, m1)" by fastforce
        with 2(1) l valid HEX_DATA show ?thesis by (cases x) (auto simp: ret_def split: bool.split)
      qed (use 2 valid in \<open>auto simp: ret_def init_pc_def is_flag_set_def set_flag_def\<close>)
    qed (simp add: ret_def)
  qed (simp add: ret_def)
  then show ?thesis by (simp add: quiet_def)
qed

lemma quiet_set_program: "quiet (set_program empty_null code pc)"
proof (cases code)
  case (Bin bin)
  then show ?thesis
    using quiet_set_program_bin [of bin pc] by (cases "bin = []") (simp_all add: set_program_def quiet_def ret_def)
next
  case (Hex rs)
  then show ?thesis
    using quiet_load_records [of empty_null rs 0 0]
    by (auto simp: quiet_def set_program_def set_program_hex_def have_code_block_def is_flag_set_def ret_def)
qed (simp add: set_program_def quiet_def ret_def)

lemma quiet_start: "quiet start"
  by (rule quietI) (auto simp: start_def set_pc_def action_simps is_initialized_def)

section \<open>What is in the trace\<close>

text \<open>
  A condition on the debug flag and the trace that holds on when something is printed: debug lines only if the flag
  is set. Every operation keeps such a condition.
\<close>

definition grows :: "(bool \<Rightarrow> trace_event list \<Rightarrow> bool) \<Rightarrow> bool" where
  "grows Q \<longleftrightarrow> (\<forall>d t es. Q d t \<and> (d \<or> list_all is_output es) \<longrightarrow> Q d (t @ es))"

definition traced :: "(bool \<Rightarrow> trace_event list \<Rightarrow> bool) \<Rightarrow> 'c basic_vm \<Rightarrow> bool" where
  "traced Q m \<longleftrightarrow> Q (debugging m) (trace m)"

lemma growsD: "grows Q \<Longrightarrow> Q d t \<Longrightarrow> d \<or> list_all is_output es \<Longrightarrow> Q d (t @ es)"
  by (auto simp: grows_def)

lemma quiet_debugging:
  assumes "quiet f"
  shows "debugging (snd (f m)) = debugging m"
proof -
  have "f (m\<lparr>debugging := debugging m, trace := trace m\<rparr>)
      = (fst (f m), (snd (f m))\<lparr>debugging := debugging m, trace := trace m\<rparr>)"
    using assms unfolding quiet_def by blast
  then have "snd (f m) = (snd (f m))\<lparr>debugging := debugging m, trace := trace m\<rparr>" by (simp add: prod_eq_iff)
  then have "debugging (snd (f m)) = debugging ((snd (f m))\<lparr>debugging := debugging m, trace := trace m\<rparr>)"
    by (rule arg_cong)
  then show ?thesis by simp
qed

lemma quiet_traced: "quiet f \<Longrightarrow> safe UNIV (traced Q) f"
  by (simp add: safe_def traced_def quiet_debugging) (simp add: quiet_def)

lemmas traced_ops = quiet_set_register [THEN quiet_traced] quiet_jumps [THEN quiet_traced] quiet_memory [THEN quiet_traced]
  quiet_system [THEN quiet_traced] quiet_read_loop [THEN quiet_traced]

lemma basic_machine_traced:
  assumes "\<And>c. safe UNIV (traced Q) (call c)"
  shows "machine_safe UNIV (traced Q) (basic_machine call)"
  using assms
  by (auto simp: machine_safe_def syscall_def get_reg_def intro!: traced_ops action_intros
      split: option.split)

lemma trace_lines_traced:
  assumes "grows Q"
  shows "safe UNIV (traced Q) (debug_print (trace_before h code) :: ('c basic_vm, unit) action)"
    "safe UNIV (traced Q) (debug_print (trace_after pc) :: ('c basic_vm, unit) action)"
proof -
  have print: "safe UNIV (traced Q) (debug_print out)"
    if "safe UNIV (\<lambda>m. debugging m \<and> traced Q m) out" for out :: "('c basic_vm, unit) action"
    using that by (auto simp: safe_def debug_print_def is_debugging_enabled_def whenever_def ret_def)
  have more: "Q True (t @ es)" if "Q True t" for t es using growsD [OF assms that] by simp
  show "safe UNIV (traced Q) (debug_print (trace_before h code) :: ('c basic_vm, unit) action)"
    "safe UNIV (traced Q) (debug_print (trace_after pc) :: ('c basic_vm, unit) action)"
    by (auto simp: trace_before_def trace_after_def traced_def intro!: print action_intros more)
qed

lemma exec_traced:
  assumes "grows Q" and "\<And>c. safe UNIV (traced Q) (call c)"
  shows "safe UNIV (traced Q) (andThen (exec (vtable c) (basic_machine call) code) (\<lambda>_.
    andThen (debug_print (trace_after pc)) (\<lambda>_. whenever b inc_pc)))"
  by (auto intro!: action_intros exec_safe [OF basic_machine_traced [OF assms(2)]] traced_ops trace_lines_traced [OF assms(1)])

lemma run_step_traced:
  assumes "grows Q" and "\<And>c. safe UNIV (traced Q) (call c)"
  shows "safe UNIV (traced Q) (run_step call)"
  unfolding run_step_def
  by (auto intro!: action_intros exec_traced [OF assms] trace_lines_traced [OF assms(1)] split: option.split)

lemma run_traced:
  assumes "grows Q" and "\<And>c. safe UNIV (traced Q) (call c)" and "traced Q m" and "run call m = Some (r, m')"
  shows "traced Q m'"
proof -
  have "traced Q m'" if "run_fuel k call m = Some (r, m')" "traced Q m" for k m
    using that
  proof (induction k arbitrary: m)
    case (Suc k)
    have "safe UNIV (traced Q) (run_step call)" by (rule run_step_traced) (rule assms(1,2))+
    then have "traced Q (snd (run_step call m))" using Suc.prems(2) by (rule safeD)
    with Suc show ?case by (auto split: if_splits prod.splits sum.splits)
  qed (auto split: if_splits)
  with run_run_fuel [OF assms(4)] assms(3) show ?thesis by blast
qed

lemma yeti_call_traced:
  assumes "grows Q"
  shows "safe UNIV (traced Q) (yeti_call c)"
proof -
  have "safe UNIV (traced Q) (print_out es :: (yeti_vm, unit) action)" if "list_all is_output es" for es
    using growsD [OF assms _ disjI2 [OF that]] by (auto simp: print_out_def traced_def intro!: action_intros)
  then show ?thesis
    by (cases c) (auto simp: yeti_call_def open_call_def read_call_def close_call_def put_char_call_def put_int_call_def exit_call_def
      get_reg_def intro!: action_intros traced_ops)
qed

text \<open>A machine that is not debugging has only the output of the program in its trace.\<close>

definition flagged :: "bool \<Rightarrow> bool \<Rightarrow> trace_event list \<Rightarrow> bool" where
  "flagged d b t \<longleftrightarrow> b = d \<and> (d \<or> list_all is_output t)"

lemma grows_flagged: "grows (flagged d)"
  by (auto simp: grows_def flagged_def)

text \<open>A machine that is debugging has a debug line first.\<close>

definition led :: "bool \<Rightarrow> trace_event list \<Rightarrow> bool" where
  "led b t \<longleftrightarrow> b \<and> t \<noteq> [] \<and> \<not> is_output (hd t)"

lemma grows_led: "grows led"
  by (auto simp: grows_def led_def)

lemma trace_before_led:
  assumes "debugging m" and "trace m = []" and "debug_print (trace_before h code) m = (r, m')"
  shows "if r = Inr () then traced led m' else m' = m"
  using assms by (auto simp: debug_print_def is_debugging_enabled_def trace_before_def traced_def led_def action_simps
      split: sum.splits if_splits)

lemma run_step_led:
  assumes "debugging m" and "trace m = []" and "run_step yeti_call m = (r, m')"
  shows "traced led m' \<or> m' = m \<and> (\<exists>e. r = Inl e)"
proof -
  consider e where "run_step yeti_call m = (Inl e, m)"
    | c code where "run_step yeti_call m = andThen (debug_print (trace_before (vtable c) code)) (\<lambda>_.
        andThen (exec (vtable c) (basic_machine yeti_call) code) (\<lambda>_.
        andThen (debug_print (trace_after (get_pc m))) (\<lambda>_.
        whenever (\<not> skip (vtable c :: yeti_vm HandlerInterface)) inc_pc))) m"
    by (cases "get_current m"; cases "projr (get_current m)"; cases "find_handler (opcodes m) (the (projr (get_current m)))")
      (auto simp: run_step_def andThen_def [of "query _"] query_def throw_def)
  then show ?thesis
  proof cases
    case 1
    with assms(3) show ?thesis by auto
  next
    case 2
    let ?rest = "andThen (exec (vtable c) (basic_machine yeti_call) code) (\<lambda>_.
        andThen (debug_print (trace_after (get_pc m))) (\<lambda>_.
        whenever (\<not> skip (vtable c :: yeti_vm HandlerInterface)) inc_pc))"
    obtain x m1 where out: "debug_print (trace_before (vtable c) code) m = (x, m1)" by fastforce
    note t = trace_before_led [OF assms(1,2) this]
    show ?thesis
    proof (cases x)
      case (Inl e)
      with 2 assms(3) out t show ?thesis by (auto simp: andThen_def)
    next
      case (Inr u)
      with t have led: "traced led m1" by simp
      have rest: "safe UNIV (traced led) ?rest" by (rule exec_traced [OF grows_led yeti_call_traced [OF grows_led]])
      have "?rest m1 = (r, m')" using 2 assms(3) out Inr by (simp add: andThen_def [of "debug_print (trace_before _ _)"])
      with safe_state [OF rest led] show ?thesis by blast
    qed
  qed
qed

lemma run_led:
  assumes "debugging m" and "trace m = []" and "run yeti_call m = Some (r, m')"
  shows "trace m' = [] \<or> traced led m'"
proof (cases "is_running m")
  case False
  with assms show ?thesis by (subst (asm) run_unfold) simp
next
  case True
  obtain x m1 where st: "run_step yeti_call m = (x, m1)" by fastforce
  from run_step_led [OF assms(1,2) st] show ?thesis
  proof
    assume "m1 = m \<and> (\<exists>e. x = Inl e)"
    with assms(2,3) st True show ?thesis by (subst (asm) run_unfold) auto
  next
    assume m1: "traced led m1"
    show ?thesis
    proof (cases x)
      case (Inl e)
      with assms(3) st True m1 show ?thesis by (subst (asm) run_unfold) simp
    next
      case (Inr u)
      with assms(3) st True have "run yeti_call m1 = Some (r, m')" by (subst (asm) run_unfold) simp
      with run_traced [where call = yeti_call, OF grows_led yeti_call_traced [OF grows_led] m1] show ?thesis by blast
    qed
  qed
qed

lemma led_text:
  assumes "t = [] \<or> led d t"
  shows "output_text False t = concat (map (event_text True) (filter is_output t))"
  using assms output_text_debug [of t False] by (auto simp: led_def)

section \<open>The report\<close>

lemma dump_state_debug [simp]: "dump_state (m\<lparr>debugging := d, trace := t\<rparr>) = dump_state m"
proof -
  have "dump_registers is (m\<lparr>debugging := d, trace := t\<rparr>) = dump_registers is m" for "is"
    by (induction "is") (simp_all split: sum.split)
  then show ?thesis by (simp add: dump_state_def dump_with_def split: sum.split option.split)
qed

lemma report_exception_debug: "report_exception e (m\<lparr>debugging := d, trace := t\<rparr>) = report_exception e m"
  by (simp add: report_exception_def split: exn.split)

text \<open>The loop of the front end, with and without debugging.\<close>

definition debug_twin :: "yeti_vm \<Rightarrow> trace_event list \<Rightarrow> bool" where
  "debug_twin m t \<longleftrightarrow> filter is_output t = trace m
     \<and> stream_text False (trace m) = concat (map (event_text False) (trace m))
     \<and> output_text False t = concat (map (event_text True) (trace m))"

lemma debug_twin_empty: "trace m = [] \<Longrightarrow> debug_twin m []"
  by (simp add: debug_twin_def)

lemma run_debug:
  assumes inv: "vm_inv (mmu_covers (mmu (ready_vm False))) m" and m: "\<not> debugging m" "trace m = []"
  shows "case run yeti_call m of
      None \<Rightarrow> run yeti_call (m\<lparr>debugging := True, trace := []\<rparr>) = None
    | Some (r, m') \<Rightarrow> \<exists>t. run yeti_call (m\<lparr>debugging := True, trace := []\<rparr>) = Some (r, m'\<lparr>debugging := True, trace := t\<rparr>)
        \<and> debug_twin m' t"
proof -
  let ?C = "mmu_covers (mmu (ready_vm False))" and ?n = "m\<lparr>debugging := True, trace := []\<rparr>"
  have calls: "blind (vm_inv ?C) (yeti_call c)" for c
    unfolding yeti_call_def
    by (rule blind_run_callback [where a = "0x800000" and C = "mmu_covers (mmu (ready_vm False))"])
      (simp_all only: ready_unmapped, simp_all)
  have alike: "alike m ?n" using m by (simp add: alike_def printed_def)
  have inv': "vm_inv ?C ?n" using inv by simp
  have fl: "traced (flagged False) m" "traced (flagged True) ?n" using m by (simp_all add: traced_def flagged_def)
  show ?thesis
  proof (cases "run yeti_call m")
    case None
    have "run yeti_call ?n \<noteq> Some (r, n')" for r n'
      using run_blind [where call = yeti_call, OF calls inv' alike_sym [OF alike]] None by fastforce
    then have "run yeti_call ?n = None" by (metis not_Some_eq surj_pair)
    with None show ?thesis by simp
  next
    case (Some res)
    obtain r m' where res: "res = (r, m')" by fastforce
    from run_blind [where call = yeti_call, OF calls inv alike Some [unfolded res]] obtain n' where
      n': "run yeti_call ?n = Some (r, n')" and al: "alike m' n'" by blast
    note flagged = run_traced [where call = yeti_call, OF grows_flagged yeti_call_traced [OF grows_flagged]]
    have "traced (flagged False) m'" "traced (flagged True) n'"
      using flagged [OF fl(1) Some [unfolded res]] flagged [OF fl(2) n'] .
    then have out: "list_all is_output (trace m')" and dbg: "debugging n'" by (simp_all add: traced_def flagged_def)
    from out have "filter is_output (trace m') = trace m'" by (simp add: list_all_iff filter_id_conv)
    with al dbg have n'_eq: "n' = m'\<lparr>debugging := True, trace := trace n'\<rparr>" and f: "filter is_output (trace n') = trace m'"
      by (simp_all add: alike_def printed_def)
    have "trace n' = [] \<or> led (debugging n') (trace n')" using run_led [OF _ _ n'] by (simp add: traced_def)
    then have "debug_twin m' (trace n')" using f out led_text by (simp add: debug_twin_def stream_text_output)
    with Some res n' n'_eq show ?thesis by auto
  qed
qed

section \<open>Properties\<close>

text \<open>
  C9: What debugging changes. With the option, a program is refused, ends or fails in the same way, with the same
  report, or does not end either; the machine is the same in all its fields but the flag; and the system calls
  insert the same values into \<open>std::cout\<close>. But the debug lines leave \<open>std::hex\<close> set: the text of these values is the
  hexadecimal one, where without the option it is the decimal one.
\<close>

theorem debugging_effect:
  "case run_vm empty_null code False of
     None \<Rightarrow> run_vm empty_null code True = None
   | Some (out, m) \<Rightarrow> \<exists>t. run_vm empty_null code True = Some (out, m\<lparr>debugging := True, trace := t\<rparr>)
       \<and> filter is_output t = trace m
       \<and> stream_text False (trace m) = concat (map (event_text False) (trace m))
       \<and> output_text False t = concat (map (event_text True) (trace m))"
proof -
  let ?m = "ready_vm False"
  have n: "ready_vm True = ?m\<lparr>debugging := True, trace := []\<rparr>" by (simp add: ready_vm_def new_vm_def)
  have m: "\<not> debugging ?m" "trace ?m = []" by (simp_all add: ready_vm_def new_vm_def)
  obtain b m1 where sp: "set_program empty_null code 0 ?m = (Inr b, m1)" and "loaded (mmu_covers (mmu ?m)) (syscalls ?m) m1"
    using set_program_ready by blast
  then have ok: "config_ok m1" and C: "mmu_covers (mmu m1) = mmu_covers (mmu ?m)" by (simp_all add: loaded_def)
  have sp': "set_program empty_null code 0 (ready_vm True) = (Inr b, m1\<lparr>debugging := True, trace := []\<rparr>)" and t1: "trace m1 = []"
    using quietD [OF quiet_set_program sp] by (simp_all add: n m(2))
  have d1: "\<not> debugging m1" using quiet_debugging [OF quiet_set_program, of empty_null code 0 ?m] m(1) by (simp add: sp)
  obtain r m2 where st: "start m1 = (r, m2)" by fastforce
  have st': "start (m1\<lparr>debugging := True, trace := []\<rparr>) = (r, m2\<lparr>debugging := True, trace := []\<rparr>)" and t2: "trace m2 = []"
    using quietD [OF quiet_start st] by (simp_all add: t1)
  have d2: "\<not> debugging m2" using quiet_debugging [OF quiet_start, of m1] d1 by (simp add: st)
  have "case run_vm empty_null code False of
     None \<Rightarrow> run_vm empty_null code True = None
   | Some (out, m) \<Rightarrow> \<exists>t. run_vm empty_null code True = Some (out, m\<lparr>debugging := True, trace := t\<rparr>) \<and> debug_twin m t"
  proof (cases b)
    case False
    with sp sp' debug_twin_empty [OF t1] show ?thesis by (auto simp: run_vm_ready)
  next
    case True
    show ?thesis
    proof (cases r)
      case (Inl e)
      with True sp sp' st st' debug_twin_empty [OF t2] show ?thesis by (auto simp: run_vm_ready)
    next
      case (Inr u)
      have "vm_inv (mmu_covers (mmu ?m)) m2"
        using start_eq [OF ok] started_inv [OF ok, of "is_initialized m1"] st Inr by (auto simp: C split: if_splits)
      from run_debug [OF this d2 t2] True Inr sp sp' st st' show ?thesis
        by (cases "run yeti_call m2") (auto simp: run_vm_ready report_exception_debug split: sum.split)
    qed
  qed
  then show ?thesis by (simp only: debug_twin_def)
qed

end
