(* ===== verification/Guest_Sys_Calls.thy ===== *)
theory Guest_Sys_Calls
  imports Yeti_Main "HOL-Library.Signed_Division"
begin

text \<open>
  examples/sys_calls_main.c: a guest program, at the level of its C statements. Its system calls
  (sys_calls_asm.S) are environment calls on the emulator. The array \<open>buffer\<close>, which the call \<open>read\<close> fills,
  is in the memory of the machine at an address that the linker chooses, as is the text \<open>fileName\<close>; the
  matrices \<open>input\<close> and \<open>result\<close>, which no system call sees, are lists of rows, and the local variables are
  what the loops carry. The registers that the compiled code uses between the calls are not modelled.
\<close>

section \<open>The system calls\<close>

fun set_args :: "(RegAlias \<times> register_t) list \<Rightarrow> (yeti_vm, unit) action" where
  "set_args [] = ret ()"
| "set_args ((a, v) # args) = andThen (set_register (reg_no a) v) (\<lambda>_. set_args args)"

definition define_sys_call :: "register_t \<Rightarrow> (RegAlias \<times> register_t) list \<Rightarrow> (yeti_vm, register_t) action" where
  "define_sys_call num args =
     andThen (set_args args) (\<lambda>_.
     andThen (set_register (reg_no Reg_a7) num) (\<lambda>_.
     andThen (syscall yeti_call) (\<lambda>_.
     query (get_register (reg_no Reg_a0)))))"

definition sys_exit :: "(yeti_vm, register_t) action" where
  "sys_exit = define_sys_call 10 []"

definition sys_open :: "address_t \<Rightarrow> u32 \<Rightarrow> (yeti_vm, register_t) action" where
  "sys_open filename flags = define_sys_call 1024 [(Reg_a0, filename), (Reg_a1, flags)]"

definition sys_close :: "u32 \<Rightarrow> (yeti_vm, register_t) action" where
  "sys_close fd = define_sys_call 57 [(Reg_a0, fd)]"

definition sys_read :: "u32 \<Rightarrow> address_t \<Rightarrow> u32 \<Rightarrow> (yeti_vm, register_t) action" where
  "sys_read fd buf sz = define_sys_call 63 [(Reg_a0, fd), (Reg_a1, buf), (Reg_a2, sz)]"

definition put_int :: "u32 \<Rightarrow> (yeti_vm, register_t) action" where
  "put_int num = define_sys_call 1 [(Reg_a0, num)]"

definition put_char :: "u8 \<Rightarrow> (yeti_vm, register_t) action" where
  "put_char c = define_sys_call 11 [(Reg_a0, ucast c)]"

section \<open>The program\<close>

text \<open>\<open>for (int i = 0; i < n; ++i)\<close>, with the variables that the body assigns.\<close>

primrec for_loop :: "nat \<Rightarrow> (nat \<Rightarrow> 'a \<Rightarrow> ('s, 'a) action) \<Rightarrow> 'a \<Rightarrow> ('s, 'a) action" where
  "for_loop 0 body x = ret x"
| "for_loop (Suc n) body x = andThen (for_loop n body x) (body n)"

definition ELEM_PER_LINE :: nat where "ELEM_PER_LINE = 5"
definition NUM_LINES :: nat where "NUM_LINES = 5"
definition NUM_ELEM :: nat where "NUM_ELEM = ELEM_PER_LINE * NUM_LINES"

text \<open>\<open>int32_t m[NUM_LINES][NUM_ELEM]\<close>; a variable of static storage starts with zeros.\<close>

type_synonym int_matrix = "u32 list list"

definition zero_matrix :: int_matrix where
  "zero_matrix = replicate NUM_LINES (replicate NUM_ELEM 0)"

definition assign :: "nat \<Rightarrow> nat \<Rightarrow> u32 \<Rightarrow> int_matrix \<Rightarrow> int_matrix" where
  "assign row col x m = m[row := (m ! row)[col := x]]"

text \<open>Arithmetic on \<open>int\<close>: undefined where the result is no \<open>int\<close>.\<close>

definition int_add :: "int \<Rightarrow> int \<Rightarrow> exn + int" where
  "int_add x y = (if - (2 ^ 31) \<le> x + y \<and> x + y < 2 ^ 31 then Inr (x + y) else Inl (undefined Signed_Overflow))"

definition int_div :: "u32 \<Rightarrow> u32 \<Rightarrow> exn + u32" where
  "int_div x y =
     (if y = 0 then Inl (undefined Division_By_Zero)
      else if sint x = - (2 ^ 31) \<and> sint y = - 1 then Inl (undefined Signed_Overflow)
      else Inr (word_of_int (sint x sdiv sint y)))"

definition print_matrix :: "int_matrix \<Rightarrow> (yeti_vm, unit) action" where
  "print_matrix m =
     for_loop NUM_LINES (\<lambda>row _.
       andThen (for_loop ELEM_PER_LINE (\<lambda>col _.
         andThen (put_int (m ! row ! col)) (\<lambda>_.
         andThen (put_char 0x20) (\<lambda>_. ret ()))) ()) (\<lambda>_.
       andThen (put_char 0x0A) (\<lambda>_. ret ()))) ()"

definition read_input :: "address_t \<Rightarrow> (yeti_vm, int_matrix) action" where
  "read_input buffer =
     andThen (for_loop NUM_LINES (\<lambda>row.
       for_loop ELEM_PER_LINE (\<lambda>col (input, idx).
         andThen (read_memory (buffer + of_nat (4 * idx)) 4 0) (\<lambda>x.
         ret (assign row col x input, Suc idx)))) (zero_matrix, 0)) (\<lambda>(input, idx). ret input)"

definition row_sum :: "int_matrix \<Rightarrow> nat \<Rightarrow> ('s, int) action" where
  "row_sum input row =
     for_loop ELEM_PER_LINE (\<lambda>col current_sum. checked (int_add current_sum (sint (input ! row ! col)))) 0"

definition choose_row :: "int_matrix \<Rightarrow> ('s, nat) action" where
  "choose_row input =
     andThen (for_loop NUM_LINES (\<lambda>row (k, max_sum).
       andThen (row_sum input row) (\<lambda>current_sum.
       ret (if max_sum < current_sum then (row, max_sum) else (k, max_sum)))) (0, NOT 0)) (\<lambda>(k, max_sum). ret k)"

definition divide_rows :: "int_matrix \<Rightarrow> nat \<Rightarrow> ('s, int_matrix) action" where
  "divide_rows input k =
     for_loop NUM_LINES (\<lambda>row.
       for_loop ELEM_PER_LINE (\<lambda>col result.
         andThen (checked (int_div (input ! row ! col) (input ! k ! col))) (\<lambda>x.
         ret (assign row col x result)))) zero_matrix"

definition app_main :: "address_t \<Rightarrow> address_t \<Rightarrow> (yeti_vm, unit) action" where
  "app_main fileName buffer =
     andThen (sys_open fileName 0) (\<lambda>fd.
     andThen (sys_read fd buffer (of_nat (4 * NUM_ELEM))) (\<lambda>_.
     andThen (sys_close fd) (\<lambda>_.
     andThen (read_input buffer) (\<lambda>input.
     andThen (print_matrix input) (\<lambda>_.
     andThen (choose_row input) (\<lambda>k.
     andThen (divide_rows input k) (\<lambda>result.
     print_matrix result)))))))"

definition sys_calls_start :: "address_t \<Rightarrow> address_t \<Rightarrow> (yeti_vm, unit) action" where
  "sys_calls_start fileName buffer =
     andThen (app_main fileName buffer) (\<lambda>_. andThen sys_exit (\<lambda>_. ret ()))"

section \<open>Loops\<close>

lemma for_loop_same:
  assumes "\<And>i. i < n \<Longrightarrow> body i (x i) s = (Inr (x (Suc i)), s)"
  shows "for_loop n body (x 0) s = (Inr (x n), s)"
  using assms by (induction n) (simp_all add: action_simps)

section \<open>Matrices\<close>

definition matrix :: "(nat \<Rightarrow> nat \<Rightarrow> u32) \<Rightarrow> int_matrix" where
  "matrix g = map (\<lambda>r. map (g r) [0..<NUM_ELEM]) [0..<NUM_LINES]"

lemmas sizes = ELEM_PER_LINE_def NUM_LINES_def NUM_ELEM_def

lemma matrix_entry [simp]: "r < NUM_LINES \<Longrightarrow> c < NUM_ELEM \<Longrightarrow> matrix g ! r ! c = g r c"
  by (simp add: matrix_def)

text \<open>The first \<open>j\<close> elements, row by row.\<close>

definition first :: "(nat \<Rightarrow> nat \<Rightarrow> u32) \<Rightarrow> nat \<Rightarrow> nat \<Rightarrow> nat \<Rightarrow> u32" where
  "first g j r c = (if c < ELEM_PER_LINE \<and> ELEM_PER_LINE * r + c < j then g r c else 0)"

lemma zero_matrix_eq: "zero_matrix = matrix (first g 0)"
proof -
  have "first g 0 = (\<lambda>_ _. 0)" by (simp add: first_def fun_eq_iff)
  then show ?thesis by (simp add: zero_matrix_def matrix_def map_replicate_const)
qed

lemma assign_matrix: "r < NUM_LINES \<Longrightarrow> c < NUM_ELEM \<Longrightarrow> assign r c x (matrix g) = matrix (g(r := (g r)(c := x)))"
  by (auto simp: assign_def matrix_def list_eq_iff_nth_eq nth_list_update)

lemma assign_first:
  assumes "c < ELEM_PER_LINE" and "r < NUM_LINES"
  shows "assign r c (g r c) (matrix (first g (ELEM_PER_LINE * r + c))) = matrix (first g (Suc (ELEM_PER_LINE * r + c)))"
proof -
  have "ELEM_PER_LINE * r' + c' < Suc (ELEM_PER_LINE * r + c) \<longleftrightarrow> ELEM_PER_LINE * r' + c' < ELEM_PER_LINE * r + c \<or> r' = r \<and> c' = c"
    if "c' < ELEM_PER_LINE" for r' c' using that assms(1) unfolding ELEM_PER_LINE_def by presburger
  then have "(first g (ELEM_PER_LINE * r + c))(r := (first g (ELEM_PER_LINE * r + c) r)(c := g r c))
      = first g (Suc (ELEM_PER_LINE * r + c))"
    using assms(1) by (auto simp: first_def fun_eq_iff)
  moreover have "c < NUM_ELEM" using assms(1) by (simp add: sizes)
  ultimately show ?thesis by (simp only: assign_matrix [OF assms(2)])
qed

text \<open>A nest of loops over rows and columns that computes the elements of a matrix.\<close>

lemma fill_matrix:
  assumes "\<And>r c. r < NUM_LINES \<Longrightarrow> c < ELEM_PER_LINE \<Longrightarrow>
      body r c (x (matrix (first g (ELEM_PER_LINE * r + c))) (ELEM_PER_LINE * r + c)) s
      = (Inr (x (matrix (first g (Suc (ELEM_PER_LINE * r + c)))) (Suc (ELEM_PER_LINE * r + c))), s)"
  shows "for_loop NUM_LINES (\<lambda>r. for_loop ELEM_PER_LINE (body r)) (x zero_matrix 0) s
    = (Inr (x (matrix (first g (ELEM_PER_LINE * NUM_LINES))) (ELEM_PER_LINE * NUM_LINES)), s)"
proof -
  let ?x = "\<lambda>j. x (matrix (first g j)) j"
  have "for_loop ELEM_PER_LINE (body r) (?x (ELEM_PER_LINE * r)) s = (Inr (?x (ELEM_PER_LINE * Suc r)), s)"
    if "r < NUM_LINES" for r
    using for_loop_same [where n = ELEM_PER_LINE and body = "body r" and x = "\<lambda>c. ?x (ELEM_PER_LINE * r + c)" and s = s]
      assms [OF that] by (simp add: algebra_simps)
  from for_loop_same [where n = NUM_LINES and body = "\<lambda>r. for_loop ELEM_PER_LINE (body r)" and x = "\<lambda>r. ?x (ELEM_PER_LINE * r)" and s = s, OF this]
  show ?thesis by (simp add: zero_matrix_eq [of g])
qed

lemma read_input_matrix:
  assumes "\<And>j. j < NUM_ELEM \<Longrightarrow> read_memory (buffer + of_nat (4 * j)) 4 0 s = (Inr (w j), s)"
  shows "read_input buffer s = (Inr (matrix (first (\<lambda>r c. w (ELEM_PER_LINE * r + c)) NUM_ELEM)), s)"
proof -
  let ?g = "\<lambda>r c. w (ELEM_PER_LINE * r + c)"
  have "for_loop NUM_LINES (\<lambda>row. for_loop ELEM_PER_LINE (\<lambda>col (input, idx).
        andThen (read_memory (buffer + of_nat (4 * idx)) 4 0) (\<lambda>x. ret (assign row col x input, Suc idx)))) (zero_matrix, 0) s
      = (Inr (matrix (first ?g (ELEM_PER_LINE * NUM_LINES)), ELEM_PER_LINE * NUM_LINES), s)"
  proof (rule fill_matrix [where x = Pair and g = ?g])
    fix r c
    assume rc: "r < NUM_LINES" "c < ELEM_PER_LINE"
    then have "ELEM_PER_LINE * r + c < NUM_ELEM" by (simp add: sizes)
    from assms [OF this] assign_first [where g = ?g, OF rc(2,1)]
    show "(case (matrix (first ?g (ELEM_PER_LINE * r + c)), ELEM_PER_LINE * r + c) of (input, idx) \<Rightarrow>
        andThen (read_memory (buffer + of_nat (4 * idx)) 4 0) (\<lambda>x. ret (assign r c x input, Suc idx))) s
      = (Inr (matrix (first ?g (Suc (ELEM_PER_LINE * r + c))), Suc (ELEM_PER_LINE * r + c)), s)"
      by (simp add: andThen_def ret_def del: of_nat_mult of_nat_add)
  qed
  then show ?thesis by (simp add: read_input_def andThen_def ret_def NUM_ELEM_def)
qed

lemma divide_rows_matrix:
  assumes "\<And>r c. r < NUM_LINES \<Longrightarrow> c < ELEM_PER_LINE \<Longrightarrow> int_div (input ! r ! c) (input ! k ! c) = Inr (q r c)"
  shows "divide_rows input k s = (Inr (matrix (first q NUM_ELEM)), s)"
  using fill_matrix [where x = "\<lambda>m j. m" and g = q and s = s and body = "\<lambda>row col result.
      andThen (checked (int_div (input ! row ! col) (input ! k ! col))) (\<lambda>x. ret (assign row col x result))"]
    assign_first [where g = q] assms
  by (simp add: divide_rows_def NUM_ELEM_def action_simps)

section \<open>The row of the divisors\<close>

definition partial_sum :: "int_matrix \<Rightarrow> nat \<Rightarrow> nat \<Rightarrow> int" where
  "partial_sum input row n = (\<Sum>col < n. sint (input ! row ! col))"

lemma row_sum_eq:
  assumes "\<And>n. n \<le> ELEM_PER_LINE \<Longrightarrow> partial_sum input row n \<in> {- (2 ^ 31)..<2 ^ 31}"
  shows "row_sum input row s = (Inr (partial_sum input row ELEM_PER_LINE), s)"
proof -
  have "int_add (partial_sum input row n) (sint (input ! row ! n)) = Inr (partial_sum input row (Suc n))"
    if "n < ELEM_PER_LINE" for n
    using assms [of "Suc n"] that by (simp add: int_add_def partial_sum_def)
  then show ?thesis
    using for_loop_same [where n = ELEM_PER_LINE and x = "partial_sum input row" and s = s
        and body = "\<lambda>col current_sum. checked (int_add current_sum (sint (input ! row ! col)))"]
    by (simp add: row_sum_def checked_def partial_sum_def)
qed

text \<open>The last of the first \<open>n\<close> rows that satisfy \<open>P\<close>, or 0.\<close>

primrec last_row :: "(nat \<Rightarrow> bool) \<Rightarrow> nat \<Rightarrow> nat" where
  "last_row P 0 = 0"
| "last_row P (Suc n) = (if P n then n else last_row P n)"

lemma last_row_after: "last_row P n < row \<Longrightarrow> row < n \<Longrightarrow> \<not> P row"
  by (induction n) (auto split: if_splits simp: less_Suc_eq)

lemma last_row_holds: "row < n \<Longrightarrow> P row \<Longrightarrow> P (last_row P n) \<and> last_row P n < n"
  by (induction n) (auto split: if_splits simp: less_Suc_eq)

lemma last_row_top: "N = Suc n \<Longrightarrow> P n \<Longrightarrow> last_row P N = n"
  by simp

lemma choose_row_eq:
  assumes "\<And>row n. row < NUM_LINES \<Longrightarrow> n \<le> ELEM_PER_LINE \<Longrightarrow> partial_sum input row n \<in> {- (2 ^ 31)..<2 ^ 31}"
  shows "choose_row input s = (Inr (last_row (\<lambda>row. 0 \<le> partial_sum input row ELEM_PER_LINE) NUM_LINES), s)"
proof -
  let ?P = "\<lambda>row. 0 \<le> partial_sum input row ELEM_PER_LINE"
  have row: "row_sum input row s = (Inr (partial_sum input row ELEM_PER_LINE), s)" if "row < NUM_LINES" for row
    by (rule row_sum_eq) (rule assms [OF that])
  have "for_loop NUM_LINES (\<lambda>row (k, max_sum). andThen (row_sum input row) (\<lambda>current_sum.
        ret (if max_sum < current_sum then (row, max_sum) else (k, max_sum)))) (last_row ?P 0, - 1) s
      = (Inr (last_row ?P NUM_LINES, - 1 :: int), s)"
  proof (rule for_loop_same [where x = "\<lambda>n. (last_row ?P n, - 1)" and n = NUM_LINES and s = s and body = "\<lambda>row (k, max_sum).
        andThen (row_sum input row) (\<lambda>current_sum. ret (if max_sum < current_sum then (row, max_sum) else (k, max_sum)))"])
    fix i
    assume "i < NUM_LINES"
    from row [OF this] show "(case (last_row ?P i, - 1 :: int) of (k, max_sum) \<Rightarrow> andThen (row_sum input i) (\<lambda>current_sum.
        ret (if max_sum < current_sum then (i, max_sum) else (k, max_sum)))) s = (Inr (last_row ?P (Suc i), - 1), s)"
      by (auto simp: andThen_def ret_def)
  qed
  then show ?thesis by (simp add: choose_row_def andThen_def ret_def)
qed

section \<open>What a call prints\<close>

definition vm_rest_of :: "yeti_vm \<Rightarrow> yeti_vm" where
  "vm_rest_of m = m\<lparr>registers := [], trace := []\<rparr>"

text \<open>The registry of the front end.\<close>

definition yeti_registry :: "yeti_callback syscall_registry" where
  "yeti_registry = snd (init_syscalls Map.empty)"

lemma yeti_registry_eq: "yeti_registry = [1024 \<mapsto> create 1024 ''open'' Cb_open, 63 \<mapsto> create 63 ''read'' Cb_read,
    57 \<mapsto> create 57 ''close'' Cb_close, 11 \<mapsto> create 11 ''put_char'' Cb_put_char, 1 \<mapsto> create 1 ''put_int'' Cb_put_int,
    10 \<mapsto> create 10 ''exit'' Cb_exit]"
  by (simp add: yeti_registry_def init_syscalls_empty)

definition guest_ok :: "yeti_vm \<Rightarrow> bool" where
  "guest_ok m \<longleftrightarrow> vm_ok m \<and> syscalls m = yeti_registry"

definition emits :: "(yeti_vm, 'a) action \<Rightarrow> 'a \<Rightarrow> trace_event list \<Rightarrow> bool" where
  "emits f x es \<longleftrightarrow> (\<forall>m. guest_ok m \<longrightarrow> (\<exists>m'. f m = (Inr x, m') \<and> guest_ok m' \<and> vm_rest_of m' = vm_rest_of m
     \<and> trace m' = trace m @ es))"

lemma emits_ret: "emits (ret x) x []"
  by (auto simp: emits_def ret_def)

lemma emits_andThen:
  assumes "emits f x es" and "emits (g x) y fs"
  shows "emits (andThen f g) y (es @ fs)"
proof -
  have "\<exists>m'. andThen f g m = (Inr y, m') \<and> guest_ok m' \<and> vm_rest_of m' = vm_rest_of m \<and> trace m' = trace m @ es @ fs"
    if ok: "guest_ok m" for m
  proof -
    obtain m1 where m1: "f m = (Inr x, m1)" "guest_ok m1" "vm_rest_of m1 = vm_rest_of m" "trace m1 = trace m @ es"
      using assms(1) ok unfolding emits_def by blast
    moreover obtain m2 where "g x m1 = (Inr y, m2)" "guest_ok m2" "vm_rest_of m2 = vm_rest_of m1" "trace m2 = trace m1 @ fs"
      using assms(2) m1(2) unfolding emits_def by blast
    ultimately show ?thesis by (auto simp: andThen_def)
  qed
  then show ?thesis by (simp add: emits_def)
qed

lemma emits_for_loop:
  assumes "\<And>i. i < n \<Longrightarrow> emits (body i ()) () (es i)"
  shows "emits (for_loop n body ()) () (concat (map es [0..<n]))"
  using assms by (induction n) (auto intro: emits_ret emits_andThen)

lemma guest_syscalls:
  assumes "guest_ok m"
  shows "vm_ok m" and "syscalls m = yeti_registry"
  using assms by (simp_all add: guest_ok_def)

lemmas call_simps = define_sys_call_def action_simps set_register_def register_count_def syscall_def get_register_def
  find_syscall_def create_def yeti_call_def get_reg_def print_out_def vm_ok_def

lemma vm_rest_of_syscalls: "vm_rest_of m' = vm_rest_of m \<Longrightarrow> syscalls m' = syscalls m"
  by (drule arg_cong [where f = syscalls]) (simp add: vm_rest_of_def)

lemma emitsI:
  assumes "\<And>m. vm_ok m \<Longrightarrow> syscalls m = yeti_registry \<Longrightarrow>
    \<exists>m'. f m = (Inr x, m') \<and> vm_ok m' \<and> vm_rest_of m' = vm_rest_of m \<and> trace m' = trace m @ es"
  shows "emits f x es"
  using assms vm_rest_of_syscalls unfolding emits_def guest_ok_def by metis

lemma calls_emit:
  "emits (put_int v) 0 [Print_Signed v]"
  "emits (put_char c) 0 [Print_Char c]"
  "emits (sys_open ptr flags) 0
    [Print_Text ''open '', Print_Signed ptr, Print_Text '' '', Print_Unsigned flags, Print_Text [CHR 0x0A]]"
  "emits (sys_close fd) 0 [Print_Text ''close '', Print_Unsigned fd, Print_Text [CHR 0x0A]]"
proof -
  have "le_bytes 4 (ucast c) ! 0 = c" for c :: u8
    by (rule bit_word_eqI) (auto simp: le_bytes_def bit_simps dest: bit_imp_le_length)
  then show "emits (put_int v) 0 [Print_Signed v]" "emits (put_char c) 0 [Print_Char c]"
    "emits (sys_open ptr flags) 0
      [Print_Text ''open '', Print_Signed ptr, Print_Text '' '', Print_Unsigned flags, Print_Text [CHR 0x0A]]"
    "emits (sys_close fd) 0 [Print_Text ''close '', Print_Unsigned fd, Print_Text [CHR 0x0A]]"
    by (auto intro!: emitsI simp: yeti_registry_eq vm_rest_of_def call_simps put_int_def put_int_call_def put_char_def put_char_call_def
      sys_open_def open_call_def sys_close_def close_call_def)
qed

lemma read_memory_mmu:
  assumes "read_memory a n v m = (r, m)" and "mmu m' = mmu m"
  shows "read_memory a n v m' = (r, m')"
  using assms by (auto simp: read_memory_def get_ptr_ro_def action_simps split: option.splits sum.splits if_splits)

lemma sys_read_fills:
  assumes "guest_ok m" and "\<And>j. j < NUM_ELEM \<Longrightarrow> arch_access (buffer + of_nat (4 * j)) 4 (abs_vm m)"
  obtains m' where "sys_read fd buffer (of_nat (4 * NUM_ELEM)) m = (Inr 0, m')" and "guest_ok m'"
    and "frame m' = frame m"
    and "trace m' = trace m @ [Print_Text ''read '', Print_Unsigned fd, Print_Text '' '', Print_Signed buffer, Print_Text '' '',
       Print_Unsigned 100, Print_Text [CHR 0x0A]]"
    and "\<And>j. j < NUM_ELEM \<Longrightarrow> read_memory (buffer + of_nat (4 * j)) 4 0 m' = (Inr (of_nat (4 * j) * of_nat (4 * j)), m')"
proof -
  let ?r = "(registers m)[10 := fd, 11 := buffer, 12 := 100, 17 := 63]"
  let ?m1 = "m\<lparr>registers := ?r\<rparr>"
  note m = guest_syscalls [OF assms(1)]
  have ok: "vm_ok ?m1" using m(1) by (simp add: vm_ok_def)
  have acc: "arch_access (buffer + of_nat (4 * j)) 4 (abs_vm ?m1)" if "j < NUM_ELEM" for j
    using assms(2) [OF that] by (simp add: arch_access_def abs_vm_def)
  have "\<not> (of_nat (4 * NUM_ELEM) < (100 :: u32) \<and> arch_access (buffer + of_nat (4 * NUM_ELEM)) 4 (abs_vm ?m1))"
    by (simp add: sizes)
  then obtain n r m2 where res: "read_loop write_memory buffer 100 0 ?m1 = Some (r, m2)" and n: "n \<le> NUM_ELEM"
    and m2: "vm_ok m2" "abs_vm m2 = filled buffer n (abs_vm ?m1)" "frame m2 = frame ?m1"
    and r: "if of_nat (4 * n) < (100 :: u32) then \<not> arch_access (buffer + of_nat (4 * n)) 4 (abs_vm ?m1) \<and> (\<exists>msg. r = Inl (data_access_error msg))
      else r = Inr ()"
    by (rule read_loop_result [OF ok, of NUM_ELEM, rotated]) (simp_all add: sizes)
  have "n = NUM_ELEM"
  proof (rule ccontr)
    assume "n \<noteq> NUM_ELEM"
    with n have "n < NUM_ELEM" by simp
    moreover from this have "of_nat (4 * n) < (100 :: u32)"
      by (simp add: word_in_buffer sizes del: of_nat_mult)
    ultimately show False using r acc by (simp del: of_nat_mult)
  qed
  with r have r: "r = Inr ()" by (simp add: sizes)
  have tr: "trace m2 = trace m" using read_loop_trace [OF res] by simp
  let ?m3 = "m2\<lparr>trace := trace m @ [Print_Text ''read '', Print_Unsigned fd, Print_Text '' '', Print_Signed buffer, Print_Text '' '',
       Print_Unsigned 100, Print_Text [CHR 0x0A]], registers := (registers m2)[10 := 0]\<rparr>"
  have fr: "frame ?m3 = frame m" using m2(3) by (simp add: frame_def)
  have "sys_read fd buffer (of_nat (4 * NUM_ELEM)) m = (Inr 0, ?m3)"
    using m res m2(1) tr by (simp add: sys_read_def call_simps read_call_def yeti_registry_eq sizes r)
  moreover have ok3: "vm_ok ?m3" using m2(1) by (simp add: vm_ok_def)
  moreover have "syscalls ?m3 = syscalls m" using fr frame_fields by blast
  moreover have "read_memory (buffer + of_nat (4 * j)) 4 0 ?m3 = (Inr (of_nat (4 * j) * of_nat (4 * j)), ?m3)"
    if j: "j < NUM_ELEM" for j
  proof -
    have "arch_mem (abs_vm ?m3) = arch_mem (filled buffer NUM_ELEM (abs_vm ?m1))"
      "arch_mapped (abs_vm ?m3) = arch_mapped (filled buffer NUM_ELEM (abs_vm ?m1))"
      unfolding m2(2) [unfolded \<open>n = NUM_ELEM\<close>, symmetric] by (simp_all add: abs_vm_def)
    then have "arch_load a 4 (abs_vm ?m3) = arch_load a 4 (filled buffer NUM_ELEM (abs_vm ?m1))"
      "arch_access a 4 (abs_vm ?m3) = arch_access a 4 (abs_vm ?m1)" for a
      by (simp_all add: arch_load_def arch_bytes_def arch_access_def filled_def)
    with read_memory_eq [OF ok3, of 4 "buffer + of_nat (4 * j)"] acc [OF j] arch_load_filled [OF j, of buffer "abs_vm ?m1"]
    show ?thesis by (simp add: sizes del: of_nat_mult)
  qed
  ultimately show ?thesis using that [of ?m3] assms(1) fr by (simp add: guest_ok_def)
qed

text \<open>The program exits.\<close>

lemma sys_exit_halts:
  assumes "guest_ok m"
  obtains m' where "sys_exit m = (Inr 0, m')" and "\<not> running m'"
    and "trace m' = trace m @ [Print_Text ''exit'', Print_Text [CHR 0x0A]]"
  using guest_syscalls [OF assms] that
  by (auto simp: sys_exit_def call_simps exit_call_def halt_def yeti_registry_eq)

text \<open>A matrix as it is printed.\<close>

definition matrix_out :: "(nat \<Rightarrow> nat \<Rightarrow> u32) \<Rightarrow> trace_event list" where
  "matrix_out g = concat (map (\<lambda>r. concat (map (\<lambda>c. [Print_Signed (g r c), Print_Char 0x20]) [0..<ELEM_PER_LINE])
     @ [Print_Char 0x0A]) [0..<NUM_LINES])"

lemma print_matrix_emits: "emits (print_matrix m) () (matrix_out (\<lambda>r c. m ! r ! c))"
proof -
  have cell: "emits (andThen (put_int v) (\<lambda>_. andThen (put_char 0x20) (\<lambda>_. ret ()))) () [Print_Signed v, Print_Char 0x20]" for v
    using emits_andThen [OF calls_emit(1) emits_andThen [OF calls_emit(2) emits_ret]] by simp
  have eol: "emits (andThen (put_char 0x0A) (\<lambda>_. ret ())) () [Print_Char 0x0A]"
    using emits_andThen [OF calls_emit(2) emits_ret] by simp
  show ?thesis
    unfolding print_matrix_def matrix_out_def
    by (rule emits_for_loop, rule emits_andThen [OF emits_for_loop]) (rule cell, rule eol)
qed

lemma matrix_out_cong: "(\<And>r c. r < NUM_LINES \<Longrightarrow> c < ELEM_PER_LINE \<Longrightarrow> g r c = h r c) \<Longrightarrow> matrix_out g = matrix_out h"
  by (auto simp: matrix_out_def intro!: arg_cong [where f = concat] map_cong)

lemma first_entry: "r < NUM_LINES \<Longrightarrow> c < ELEM_PER_LINE \<Longrightarrow> matrix (first g NUM_ELEM) ! r ! c = g r c"
  by (simp add: first_def sizes matrix_def)

section \<open>The squares\<close>

lemma square_small: "j < NUM_ELEM \<Longrightarrow> 16 * j * j < 2 ^ 31"
proof -
  assume "j < NUM_ELEM"
  then have "16 * j * j \<le> 16 * 25 * 25" by (intro mult_mono) (simp_all add: sizes)
  then show ?thesis by simp
qed

lemma sint_of_nat: "n < 2 ^ 31 \<Longrightarrow> sint (of_nat n :: u32) = int n"
  by (simp add: signed_of_nat signed_take_bit_int_eq_self)

definition square :: "nat \<Rightarrow> u32" where
  "square j = of_nat (4 * j) * of_nat (4 * j)"

lemma square_less: "i < j \<Longrightarrow> 16 * int i * int i < 16 * int j * int j"
  by (simp add: mult.assoc mult_strict_mono)

lemma square_le: "j \<le> 25 \<Longrightarrow> 16 * int j * int j \<le> 10000"
  using square_less [of j 25] by (cases "j = 25") auto

lemma sint_square: "j < NUM_ELEM \<Longrightarrow> sint (square j) = 16 * int j * int j"
  using sint_of_nat [OF square_small, of j] by (simp add: square_def algebra_simps)

text \<open>Their sums are not negative and fit, and so the last row is chosen; its elements are the divisors.\<close>

lemma squares_row: "choose_row (matrix (first (\<lambda>r c. square (ELEM_PER_LINE * r + c)) NUM_ELEM)) s = (Inr 4, s)"
proof -
  let ?m = "matrix (first (\<lambda>r c. square (ELEM_PER_LINE * r + c)) NUM_ELEM)"
  have entry: "sint (?m ! r ! c) = 16 * int (ELEM_PER_LINE * r + c) * int (ELEM_PER_LINE * r + c)"
    if "r < NUM_LINES" "c < ELEM_PER_LINE" for r c
    using that by (subst first_entry, simp, simp, subst sint_square) (simp_all add: sizes)
  have "0 \<le> partial_sum ?m r n \<and> partial_sum ?m r n \<le> (\<Sum>c < n. 10000)" if "r < NUM_LINES" "n \<le> ELEM_PER_LINE" for r n
  proof -
    have "0 \<le> sint (?m ! r ! c) \<and> sint (?m ! r ! c) \<le> 10000" if "c < n" for c
    proof -
      have c: "c < ELEM_PER_LINE" using that \<open>n \<le> ELEM_PER_LINE\<close> by simp
      then have "ELEM_PER_LINE * r + c \<le> 25" using \<open>r < NUM_LINES\<close> by (simp add: sizes)
      from square_le [OF this] show ?thesis unfolding entry [OF \<open>r < NUM_LINES\<close> c] by simp
    qed
    then show ?thesis unfolding partial_sum_def by (intro conjI sum_nonneg sum_mono) (simp_all only: lessThan_iff)
  qed
  then have "0 \<le> partial_sum ?m r n \<and> partial_sum ?m r n \<le> 50000" if "r < NUM_LINES" "n \<le> ELEM_PER_LINE" for r n
    using that by (fastforce simp: ELEM_PER_LINE_def)
  then have sums: "partial_sum ?m r n \<in> {- (2 ^ 31)..<2 ^ 31}" "0 \<le> partial_sum ?m r n"
    if "r < NUM_LINES" "n \<le> ELEM_PER_LINE" for r n using that by fastforce+
  have "last_row (\<lambda>row. 0 \<le> partial_sum ?m row ELEM_PER_LINE) NUM_LINES = 4"
    by (rule last_row_top) (simp_all add: sums NUM_LINES_def)
  with choose_row_eq [of ?m s, OF sums(1)] show ?thesis by simp
qed

lemma squares_divide:
  assumes "r < NUM_LINES" and "c < ELEM_PER_LINE"
  shows "int_div (square (ELEM_PER_LINE * r + c)) (square (ELEM_PER_LINE * 4 + c)) = Inr (if r = 4 then 1 else 0)"
proof -
  let ?x = "16 * int (ELEM_PER_LINE * r + c) * int (ELEM_PER_LINE * r + c)"
    and ?y = "16 * int (ELEM_PER_LINE * 4 + c) * int (ELEM_PER_LINE * 4 + c)"
  have s: "sint (square (ELEM_PER_LINE * r + c)) = ?x" "sint (square (ELEM_PER_LINE * 4 + c)) = ?y"
    using assms by (simp_all add: sint_square sizes)
  have y: "0 < ?y" by (simp add: sizes)
  have x: "0 \<le> ?x" by simp
  have "?x < ?y" if "r \<noteq> 4"
    using that assms by (intro square_less) (simp add: sizes)
  moreover have "square (ELEM_PER_LINE * 4 + c) \<noteq> 0" using s(2) y by (metis less_irrefl signed_0)
  ultimately show ?thesis unfolding int_div_def s using x y by (auto simp: signed_divide_int_def)
qed

section \<open>Properties\<close>

text \<open>
  C14: The example program on the emulator. If its buffer is aligned and in the memory, it is executed
  without an exception and without undefined behaviour, and exits. It prints the squares that the system call
  \<open>read\<close> stored, five in a line, and then the quotients: 0 in the first four lines, and 1 in the last one.
\<close>

theorem guest_output:
  assumes "vm_ok m" and "init_syscalls Map.empty = (Inr (), syscalls m)"
    and "\<forall>j < NUM_ELEM. arch_access (buffer + of_nat (4 * j)) 4 (abs_vm m)"
  shows "\<exists>m'. sys_calls_start fileName buffer m = (Inr (), m') \<and> \<not> running m'
    \<and> trace m' = trace m
      @ [Print_Text ''open '', Print_Signed fileName, Print_Text '' '', Print_Unsigned 0, Print_Text [CHR 0x0A]]
      @ [Print_Text ''read '', Print_Unsigned 0, Print_Text '' '', Print_Signed buffer, Print_Text '' '',
         Print_Unsigned 100, Print_Text [CHR 0x0A]]
      @ [Print_Text ''close '', Print_Unsigned 0, Print_Text [CHR 0x0A]]
      @ matrix_out (\<lambda>r c. (of_nat (4 * (5 * r + c)))\<^sup>2)
      @ matrix_out (\<lambda>r c. if r = 4 then 1 else 0)
      @ [Print_Text ''exit'', Print_Text [CHR 0x0A]]"
proof -
  let ?g = "\<lambda>r c. square (ELEM_PER_LINE * r + c)" and ?q = "\<lambda>r c :: nat. if r = (4 :: nat) then 1 else 0 :: u32"
  let ?m = "matrix (first ?g NUM_ELEM)"
  have ok: "guest_ok m" using assms(1,2) by (simp add: guest_ok_def yeti_registry_def)
  obtain m1 where m1: "sys_open fileName 0 m = (Inr 0, m1)" "guest_ok m1" "vm_rest_of m1 = vm_rest_of m"
    and t1: "trace m1 = trace m @ [Print_Text ''open '', Print_Signed fileName, Print_Text '' '', Print_Unsigned 0, Print_Text [CHR 0x0A]]"
    using calls_emit(3) [of fileName 0] ok unfolding emits_def by blast
  have "mmu m1 = mmu m" using m1(3) by (drule_tac arg_cong [where f = mmu]) (simp add: vm_rest_of_def)
  then have "arch_access (buffer + of_nat (4 * j)) 4 (abs_vm m1)" if "j < NUM_ELEM" for j
    using assms(3) that by (simp add: arch_access_def abs_vm_def)
  from sys_read_fills [OF m1(2) this, of 0] obtain m2 where
    m2: "sys_read 0 buffer (of_nat (4 * NUM_ELEM)) m1 = (Inr 0, m2)" "guest_ok m2"
    and t2: "trace m2 = trace m1 @ [Print_Text ''read '', Print_Unsigned 0, Print_Text '' '', Print_Signed buffer, Print_Text '' '',
       Print_Unsigned 100, Print_Text [CHR 0x0A]]"
    and buf: "\<And>j. j < NUM_ELEM \<Longrightarrow> read_memory (buffer + of_nat (4 * j)) 4 0 m2 = (Inr (square j), m2)"
    unfolding square_def by blast
  obtain m3 where m3: "sys_close 0 m2 = (Inr 0, m3)" "guest_ok m3" "vm_rest_of m3 = vm_rest_of m2"
    and t3: "trace m3 = trace m2 @ [Print_Text ''close '', Print_Unsigned 0, Print_Text [CHR 0x0A]]"
    using calls_emit(4) [of 0] m2(2) unfolding emits_def by blast
  have "mmu m3 = mmu m2" using m3(3) by (drule_tac arg_cong [where f = mmu]) (simp add: vm_rest_of_def)
  then have "read_memory (buffer + of_nat (4 * j)) 4 0 m3 = (Inr (square j), m3)" if "j < NUM_ELEM" for j
    using buf [OF that] read_memory_mmu by blast
  note inp = read_input_matrix [where w = square, OF this]
  have out: "emits (print_matrix (matrix (first h NUM_ELEM))) () (matrix_out h)" for h
  proof -
    have "matrix_out (\<lambda>r c. matrix (first h NUM_ELEM) ! r ! c) = matrix_out h" by (rule matrix_out_cong, rule first_entry)
    with print_matrix_emits [of "matrix (first h NUM_ELEM)"] show ?thesis by simp
  qed
  obtain m4 where m4: "print_matrix ?m m3 = (Inr (), m4)" "guest_ok m4" and t4: "trace m4 = trace m3 @ matrix_out ?g"
    using out [of ?g] m3(2) unfolding emits_def by blast
  have div: "divide_rows ?m 4 m4 = (Inr (matrix (first ?q NUM_ELEM)), m4)"
  proof (rule divide_rows_matrix)
    fix r c
    assume rc: "r < NUM_LINES" "c < ELEM_PER_LINE"
    have "4 < NUM_LINES" by (simp add: NUM_LINES_def)
    from squares_divide [OF rc] show "int_div (?m ! r ! c) (?m ! 4 ! c) = Inr (?q r c)"
      unfolding first_entry [OF rc] first_entry [OF \<open>4 < NUM_LINES\<close> rc(2)] .
  qed
  obtain m5 where m5: "print_matrix (matrix (first ?q NUM_ELEM)) m4 = (Inr (), m5)" "guest_ok m5"
    and t5: "trace m5 = trace m4 @ matrix_out ?q"
    using out [of ?q] m4(2) unfolding emits_def by blast
  obtain m6 where m6: "sys_exit m5 = (Inr 0, m6)" "\<not> running m6"
    and t6: "trace m6 = trace m5 @ [Print_Text ''exit'', Print_Text [CHR 0x0A]]"
    using sys_exit_halts [OF m5(2)] .
  have "sys_calls_start fileName buffer m = (Inr (), m6)"
    by (simp only: sys_calls_start_def app_main_def andThen_def ret_def m1(1) m2(1) m3(1) inp m4(1) squares_row div m5(1) m6(1)
      prod.case sum.case)
  moreover have "matrix_out ?g = matrix_out (\<lambda>r c. (of_nat (4 * (5 * r + c)))\<^sup>2)"
    by (simp only: square_def ELEM_PER_LINE_def power2_eq_square)
  ultimately show ?thesis using m6(2) by (intro exI [of _ m6]) (simp only: t1 t2 t3 t4 t5 t6 append_assoc simp_thms)
qed

text \<open>
  C40: The example program is meant to divide by the row with the greatest sum, but it never updates the maximum. It
  takes the last row whose sum is not negative, or the first row if there is none.
\<close>

theorem chosen_row:
  assumes "\<And>row n. row < NUM_LINES \<Longrightarrow> n \<le> ELEM_PER_LINE \<Longrightarrow> partial_sum input row n \<in> {- (2 ^ 31)..<2 ^ 31}"
  shows "\<exists>k < NUM_LINES. choose_row input s = (Inr k, s)
    \<and> (\<forall>row. k < row \<and> row < NUM_LINES \<longrightarrow> partial_sum input row ELEM_PER_LINE < 0)
    \<and> (0 \<le> partial_sum input k ELEM_PER_LINE \<or> k = 0)"
proof -
  let ?P = "\<lambda>row. 0 \<le> partial_sum input row ELEM_PER_LINE"
  let ?k = "last_row ?P NUM_LINES"
  have k: "?k < NUM_LINES \<and> (?P ?k \<or> ?k = 0)" by (simp add: NUM_LINES_def eval_nat_numeral)
  have after: "partial_sum input row ELEM_PER_LINE < 0" if "?k < row" "row < NUM_LINES" for row
    using last_row_after [OF that] by simp
  have "choose_row input s = (Inr ?k, s)" by (rule choose_row_eq) (rule assms)
  with k after show ?thesis by (intro exI [of _ ?k]) simp
qed

theorem guest_output_witness:
  "\<exists>m'. sys_calls_start 200 0 ((sample_vm (replicate 100 0))\<lparr>syscalls := snd (init_syscalls Map.empty)\<rparr>) = (Inr (), m') \<and> \<not> running m'"
proof -
  let ?m = "(sample_vm (replicate 100 0))\<lparr>syscalls := snd (init_syscalls Map.empty)\<rparr> :: yeti_vm"
  have "vm_ok ?m" by (simp add: sample_simps)
  moreover have "arch_access (0 + of_nat (4 * j)) 4 (abs_vm ?m)" if "j < NUM_ELEM" for j
  proof -
    have a: "unat (of_nat (4 * j) :: u32) = 4 * j" using that by (intro unat_of_nat_u32) (simp add: sizes)
    have "(of_nat (4 * j) :: u32) mod 4 = 0"
      by (rule word_unat_eq_iff [THEN iffD2]) (simp only: unat_mod_distrib a, simp)
    then show ?thesis
      using that a by (simp add: sample_vm_def new_vm_def abs_vm_def arch_access_def mmu_covers_def covers_def within_def
        in_range_at_def word_le_nat_alt word_less_nat_alt hi_def lo_def sizes del: of_nat_mult)
  qed
  ultimately show ?thesis using guest_output [of ?m 0 200] by (auto simp: init_syscalls_empty)
qed

text \<open>The sums are 5, 0, 0, 0, 0.\<close>

theorem chosen_row_witness: "choose_row (assign 0 0 5 zero_matrix) () = (Inr 4, ())"
proof -
  have "partial_sum (assign 0 0 5 zero_matrix) row n = (if row = 0 \<and> 0 < n then 5 else 0)"
    if "row < NUM_LINES" "n \<le> ELEM_PER_LINE" for row n
  proof -
    have "sint (assign 0 0 5 zero_matrix ! row ! col) = (if row = 0 \<and> col = 0 then 5 else 0)" if "col < n" for col
      using that \<open>row < NUM_LINES\<close> \<open>n \<le> ELEM_PER_LINE\<close> by (auto simp: assign_def zero_matrix_def sizes nth_list_update nth_Cons')
    then show ?thesis unfolding partial_sum_def by (cases "row = 0") (simp_all add: sum.delta)
  qed
  then have sums: "partial_sum (assign 0 0 5 zero_matrix) row n \<in> {- (2 ^ 31)..<2 ^ 31}"
    "partial_sum (assign 0 0 5 zero_matrix) row n \<ge> 0" if "row < NUM_LINES" "n \<le> ELEM_PER_LINE" for row n
    using that by simp_all
  have "\<exists>k < NUM_LINES. choose_row (assign 0 0 5 zero_matrix) () = (Inr k, ())
    \<and> (\<forall>row. k < row \<and> row < NUM_LINES \<longrightarrow> partial_sum (assign 0 0 5 zero_matrix) row ELEM_PER_LINE < 0)
    \<and> (0 \<le> partial_sum (assign 0 0 5 zero_matrix) k ELEM_PER_LINE \<or> k = 0)"
    by (rule chosen_row) (rule sums(1))
  then obtain k where k: "k < NUM_LINES" "choose_row (assign 0 0 5 zero_matrix) () = (Inr k, ())"
    and "\<forall>row. k < row \<and> row < NUM_LINES \<longrightarrow> partial_sum (assign 0 0 5 zero_matrix) row ELEM_PER_LINE < 0"
    by (elim exE conjE) (rule that)
  with sums(2) [of 4 ELEM_PER_LINE] have "\<not> k < 4" by (auto simp: NUM_LINES_def)
  with k have "k = 4" by (simp add: NUM_LINES_def)
  with k(2) show ?thesis by simp
qed

end
