(* ===== verification/Arch_Runner.thy ===== *)
theory Arch_Runner
  imports Yeti_Main
begin

text \<open>
  tests/arch-tests/yeti_runner.cxx: the runner of the architecture tests. Each test is a guest program; the
  runner executes it on a machine with one more memory block, a device that a test writes to when a check of it
  fails. This theory holds the runner, and shows that its machine keeps the contract of the handlers.
\<close>

section \<open>The runner\<close>

text \<open>
  The class \<open>Runner\<close> extends \<open>basic_vm\<close>. \<open>cerr\<close> is what was written to \<open>std::cerr\<close> so far. The only system call is
  the exit call, so there is one callback.
\<close>

record runner =
  base_vm :: "unit basic_vm"
  set_dev :: bool
  dev_mem :: "u32 list"
  cerr :: string

definition new_runner :: "string \<Rightarrow> runner" where
  "new_runner text = \<lparr>base_vm = new_vm, set_dev = False, dev_mem = replicate 4 0, cerr = text\<rparr>"

text \<open>A member function of \<open>basic_vm\<close> that is called on the runner.\<close>

definition on_base :: "(unit basic_vm, 'a) action \<Rightarrow> (runner, 'a) action" where
  "on_base f r = (case f (base_vm r) of (res, m) \<Rightarrow> (res, r\<lparr>base_vm := m\<rparr>))"

definition write_cerr :: "string \<Rightarrow> (runner, unit) action" where
  "write_cerr out = modify (\<lambda>r. r\<lparr>cerr := cerr r @ out\<rparr>)"

section \<open>The device\<close>

text \<open>
  \<open>DeviceMemory\<close> has a range and no bytes. In the list of blocks it is an entry with this range; the bytes of the
  entry are never used, because the virtual functions below do not look at them.
\<close>

definition device_memory :: memory_block where
  "device_memory = generic_memory (def_data_base + ucast def_data_size) (ucast def_data_size)"

definition is_device :: "memory_block \<Rightarrow> bool" where
  "is_device b \<longleftrightarrow> block_params b = block_params device_memory"

definition assert_set :: "u32 \<Rightarrow> u32 \<Rightarrow> (runner, unit) action" where
  "assert_set idx v = modify (\<lambda>r. r\<lparr>dev_mem := (dev_mem r)[unat idx := v], set_dev := True\<rparr>)"

definition device_load :: "address_t \<Rightarrow> u32 \<Rightarrow> u8 list" where
  "device_load address sz = replicate (unat sz) 0"

definition device_store :: "address_t \<Rightarrow> u8 list \<Rightarrow> u32 \<Rightarrow> (runner, bool) action" where
  "device_store address source sz =
     andThen (modify (\<lambda>r. r\<lparr>set_dev := True\<rparr>)) (\<lambda>_.
     if sz \<noteq> 4 then ret False
     else let idx = (address - start_of device_memory) div 4 in
       if idx \<ge> 4 then ret False
       else andThen (checked (deref_u32 source)) (\<lambda>v.
            andThen (assert_set idx v) (\<lambda>_. ret True)))"

definition device_get_ro :: "address_t \<Rightarrow> u32 \<Rightarrow> u8 list option" where
  "device_get_ro address sz = None"

definition device_get_rw :: "address_t \<Rightarrow> u32 \<Rightarrow> u8 list option" where
  "device_get_rw address sz = None"

text \<open>The virtual calls on a block of the runner's memory. A store that succeeds returns true.\<close>

definition load_block :: "memory_block \<Rightarrow> address_t \<Rightarrow> u32 \<Rightarrow> exn + u8 list option" where
  "load_block b address sz =
     (if is_device b then Inr (Some (device_load address sz)) else block_load b address sz)"

definition store_block :: "memory_block \<Rightarrow> address_t \<Rightarrow> u8 list \<Rightarrow> u32 \<Rightarrow> (runner, bool) action" where
  "store_block b address source sz =
     (if is_device b then device_store address source sz
      else andThen (checked (block_store b address source sz)) (\<lambda>ok.
           case ok of
             None \<Rightarrow> ret False
           | Some b' \<Rightarrow> andThen (on_base (modify (\<lambda>m. m\<lparr>mmu := put_block b' (mmu m)\<rparr>))) (\<lambda>_. ret True)))"

definition ro_pointer :: "memory_block \<Rightarrow> address_t \<Rightarrow> u32 \<Rightarrow> u8 list option" where
  "ro_pointer b address sz = (if is_device b then device_get_ro address sz else get_ro b address sz)"

section \<open>Member functions of \<open>basic_vm\<close> that call a block\<close>

definition runner_read_memory :: "address_t \<Rightarrow> u8 \<Rightarrow> register_t \<Rightarrow> (runner, register_t) action" where
  "runner_read_memory from sz val =
     andThen (query (\<lambda>r. get_ptr_ro from sz (base_vm r))) (\<lambda>ptr.
     case ptr of
       None \<Rightarrow> throw (data_access_error (''load: address '' @ to_hex from @ '' out of range''))
     | Some b \<Rightarrow>
         if sz > 4 then throw (data_access_error ''load: size out of range'')
         else andThen (checked (load_block b from (ucast sz))) (\<lambda>ok.
              case ok of
                None \<Rightarrow> throw (data_access_error ''load: read error'')
              | Some bytes \<Rightarrow> ret (overlay bytes val)))"

definition runner_write_memory :: "address_t \<Rightarrow> u8 \<Rightarrow> register_t \<Rightarrow> (runner, unit) action" where
  "runner_write_memory from sz val =
     (if sz = 0 \<or> sz > 4 then throw (data_access_error ''store: size out of range'')
      else andThen (query (\<lambda>r. get_ptr_rw from sz (base_vm r))) (\<lambda>ptr.
           case ptr of
             None \<Rightarrow> throw (data_access_error (''store: address '' @ to_hex from @ '' out of range''))
           | Some b \<Rightarrow>
               andThen (store_block b from (le_bytes 4 val) (ucast sz)) (\<lambda>ok.
               if ok then ret () else throw (data_access_error ''store: write error''))))"

definition runner_get_current :: "runner \<Rightarrow> exn + opcode_t option" where
  "runner_get_current r =
     (case get_ptr_ro (get_pc (base_vm r)) 4 (base_vm r) of
        Inl e \<Rightarrow> Inl e
      | Inr None \<Rightarrow> Inl (undefined Null_Dereference)
      | Inr (Some b) \<Rightarrow>
          (case ro_pointer b (get_pc (base_vm r)) 4 of
             None \<Rightarrow> Inr None
           | Some p \<Rightarrow> map_sum id Some (deref_u32 p)))"

definition runner_dump :: "runner \<Rightarrow> exn + string" where
  "runner_dump r = dump_with (runner_get_current r) (base_vm r)"

section \<open>The machine the handlers work on\<close>

definition do_exit :: "(unit basic_vm, unit) action" where
  "do_exit = halt"

text \<open>The override of \<open>debug\<close>, which \<open>ebreak\<close> calls.\<close>

definition device_text :: "u32 list \<Rightarrow> string" where
  "device_text words =
     ''set_dev == true '' @ endl @ ''DEV MEM: '' @ endl
     @ concat (map (\<lambda>v. tab @ setw_zero 8 (hex_word v) @ endl) words)
     @ tab @ '':DEV MEM'' @ endl"

definition runner_debug :: "(runner, unit) action" where
  "runner_debug =
     andThen (query (\<lambda>r. Inr (set_dev r))) (\<lambda>written.
     andThen (whenever written
       (andThen (query runner_dump) (\<lambda>dump.
        andThen (write_cerr dump) (\<lambda>_.
        andThen (query (\<lambda>r. Inr (dev_mem r))) (\<lambda>words.
        andThen (write_cerr (device_text words)) (\<lambda>_. on_base halt)))))) (\<lambda>_.
     on_base debug))"

definition runner_machine :: "runner MachineInterface" where
  "runner_machine =
     \<lparr>mi_halt = on_base halt, mi_jump_abs = (\<lambda>dest. on_base (jump_abs dest)), mi_jump_to = (\<lambda>offs. on_base (jump_to offs)),
      mi_jump_if = (\<lambda>b offs. on_base (jump_if b offs)), mi_jump_if_abs = (\<lambda>b dest. on_base (jump_if_abs b dest)),
      mi_syscall = on_base (syscall (\<lambda>_. do_exit)), mi_debug = runner_debug,
      mi_control_get = (\<lambda>i. on_base (control_get i)), mi_control_set = (\<lambda>i v. on_base (control_set i v)),
      mi_barrier = on_base barrier, mi_read_memory = runner_read_memory, mi_write_memory = runner_write_memory,
      mi_set_register = (\<lambda>x v. on_base (set_register x v)), mi_get_register = (\<lambda>x r. get_register x (base_vm r)),
      mi_get_pc = (\<lambda>r. get_pc (base_vm r))\<rparr>"

definition runner_step :: "(runner, unit) action" where
  "runner_step =
     andThen (query (\<lambda>r. Inr (get_pc (base_vm r)))) (\<lambda>pc.
     andThen (query runner_get_current) (\<lambda>current.
     case current of
       None \<Rightarrow> throw (unknown_instruction (''unable fetch instruction from '' @ to_hex pc))
     | Some code \<Rightarrow>
         andThen (query (\<lambda>r. Inr (find_handler (opcodes (base_vm r)) code))) (\<lambda>handler.
         case handler of
           None \<Rightarrow> throw (unknown_instruction (''unable find handler for '' @ to_hex code))
         | Some c \<Rightarrow>
             andThen (on_base (debug_print (trace_before (vtable c) code))) (\<lambda>_.
             andThen (exec (vtable c) runner_machine code) (\<lambda>_.
             andThen (on_base (debug_print (trace_after pc))) (\<lambda>_.
             whenever (\<not> skip (vtable c :: runner HandlerInterface)) (on_base inc_pc)))))))"

partial_function (option) runner_run :: "runner \<Rightarrow> ((exn + unit) \<times> runner) option" where
  "runner_run r =
     (if is_running (base_vm r)
      then (case runner_step r of
              (Inl e, r') \<Rightarrow> Some (Inl e, r')
            | (Inr _, r') \<Rightarrow> runner_run r')
      else Some (Inr (), r))"

section \<open>Loading a test\<close>

definition runner_load_record :: "bool \<Rightarrow> address_t \<Rightarrow> u8 list \<Rightarrow> (runner, bool) action" where
  "runner_load_record empty_null address bytes r =
     (let sz = of_nat (length bytes) in
      case find_block (mmu (base_vm r)) address sz of
        None \<Rightarrow> ret False r
      | Some b \<Rightarrow> if bytes = [] \<and> empty_null then ret False r else store_block b address bytes sz r)"

fun runner_load_records ::
  "bool \<Rightarrow> hex_record list \<Rightarrow> address_t \<Rightarrow> address_t \<Rightarrow> (runner, bool) action" where
  "runner_load_records empty_null [] offs pc_value r = ret False r"
| "runner_load_records empty_null (rec # recs) offs pc_value r =
     (if \<not> is_valid rec then ret False r
      else case get_type rec of
             HEX_DATA \<Rightarrow>
               (case runner_load_record empty_null (offs + ucast (rec_offset rec)) (rec_data rec) r of
                  (Inl e, r) \<Rightarrow> (Inl e, r)
                | (Inr False, r) \<Rightarrow> ret False r
                | (Inr True, r) \<Rightarrow> runner_load_records empty_null recs offs pc_value r)
           | HEX_EOF \<Rightarrow> (case init_pc pc_value (base_vm r) of (ok, m) \<Rightarrow> ret ok (r\<lparr>base_vm := m\<rparr>))
           | HEX_SEGMENT_START \<Rightarrow> runner_load_records empty_null recs offs (get_start rec) r
           | HEX_LINEAR_START \<Rightarrow> runner_load_records empty_null recs offs (get_start rec) r
           | HEX_SEGMENT_EXTEND \<Rightarrow> runner_load_records empty_null recs (get_extend rec) pc_value r
           | HEX_LINEAR_EXTEND \<Rightarrow> runner_load_records empty_null recs (get_extend rec) pc_value r
           | HEX_UNKNOWN \<Rightarrow> ret False r)"

definition runner_set_program :: "bool \<Rightarrow> hex_record list \<Rightarrow> (runner, bool) action" where
  "runner_set_program empty_null hex r =
     (if \<not> have_code_block (base_vm r) then ret False r
      else if is_flag_set (base_vm r) PC_INITIALIZED then ret False r
      else runner_load_records empty_null hex 0 0 r)"

definition initSysCalls :: "(runner, bool) action" where
  "initSysCalls r =
     (let m = syscall_should_throw False (base_vm r) in
      case register_syscall (create 10 ''exit'' ()) (get_syscalls m) of
        (ok, s) \<Rightarrow> (ok, r\<lparr>base_vm := m\<lparr>syscalls := s\<rparr>\<rparr>))"

definition initProgram :: "bool \<Rightarrow> file_system \<Rightarrow> string \<Rightarrow> (runner, bool) action" where
  "initProgram empty_null fs file r =
     (let (isa_ok, m) = init_isa (base_vm r);
          (mem_ok, m) = init_memory m;
          (mem_ok, m) = (if mem_ok then add_memory_block device_memory m else (False, m));
          init_ok = (isa_ok \<and> mem_ok);
          r = r\<lparr>base_vm := m\<rparr>
      in case (if init_ok then initSysCalls r else (Inr False, r)) of
           (Inl e, r) \<Rightarrow> (Inl e, r)
         | (Inr init_ok, r) \<Rightarrow>
             (case parse_hex_file fs file of
                Inl e \<Rightarrow> (Inl e, r)
              | Inr None \<Rightarrow> (Inr False, r)
              | Inr (Some code) \<Rightarrow> if init_ok then runner_set_program empty_null code r else (Inr False, r)))"

section \<open>Executing the tests\<close>

text \<open>
  The verdict on a test. \<open>start\<close> is called outside the \<open>try\<close> block, and undefined behaviour is no exception, so both
  leave \<open>exec\<close>; so does what \<open>dump_state\<close> throws.
\<close>

definition runner_exec :: "bool \<Rightarrow> runner \<Rightarrow> ((exn + bool) \<times> runner) option" where
  "runner_exec dbg r =
     (case on_base start (r\<lparr>base_vm := enable_debugging dbg (base_vm r)\<rparr>) of
        (Inl e, r) \<Rightarrow> Some (Inl e, r)
      | (Inr _, r) \<Rightarrow>
          (case runner_run r of
             None \<Rightarrow> None
           | Some (Inr _, r) \<Rightarrow> Some (Inr (\<not> set_dev r), r)
           | Some (Inl (undefined u), r) \<Rightarrow> Some (Inl (undefined u), r)
           | Some (Inl e, r) \<Rightarrow>
               Some (andThen (write_cerr (endl @ ''Exception: '' @ what e @ endl)) (\<lambda>_.
                     andThen (query runner_dump) (\<lambda>dump.
                     andThen (write_cerr dump) (\<lambda>_. ret False))) r)))"

text \<open>
  How the process ends: with the number of failed tests as its status, with \<open>EXIT_FAILURE\<close> because a test could not be
  set up, or by an exception.
\<close>

datatype runner_status = Num_Fails nat | Unable_Init | Uncaught exn

fun run_tests :: "bool \<Rightarrow> file_system \<Rightarrow> bool \<Rightarrow> nat \<Rightarrow> string list \<Rightarrow> nat \<Rightarrow> string \<Rightarrow> (runner_status \<times> string) option" where
  "run_tests empty_null fs dbg testIdx [] numFails text = Some (Num_Fails numFails, text)"
| "run_tests empty_null fs dbg testIdx (file # files) numFails text =
     (case initProgram empty_null fs file (new_runner text) of
        (Inl e, r) \<Rightarrow> Some (Uncaught e, cerr r)
      | (Inr False, r) \<Rightarrow> Some (Unable_Init, cerr r @ ''Unable init: '' @ show_nat testIdx @ '' '' @ file @ endl)
      | (Inr True, r) \<Rightarrow>
          (case runner_exec dbg r of
             None \<Rightarrow> None
           | Some (Inl e, r) \<Rightarrow> Some (Uncaught e, cerr r)
           | Some (Inr True, r) \<Rightarrow> run_tests empty_null fs dbg (Suc testIdx) files numFails (cerr r)
           | Some (Inr False, r) \<Rightarrow>
               run_tests empty_null fs dbg (Suc testIdx) files (Suc numFails)
                 (cerr r @ ''Fail: '' @ show_nat testIdx @ '' '' @ file @ endl)))"

definition runner_main :: "bool \<Rightarrow> file_system \<Rightarrow> string list \<Rightarrow> (runner_status \<times> string) option" where
  "runner_main empty_null fs argv = run_tests empty_null fs (length argv = 2) 1 (drop 1 argv) 0 []"

section \<open>The device among the blocks\<close>

lemma device_memory_eq: "device_memory = generic_memory 0x800000 0x400000"
  by (simp add: device_memory_def def_data_base_def def_data_size_def)

lemma device_params: "block_start (block_params device_memory) = 0x800000" "block_size (block_params device_memory) = 0x400000"
  by (simp_all add: device_memory_eq generic_memory_def)

lemma is_device_memory [simp]: "is_device device_memory"
  by (simp add: is_device_def)

definition runner_ok :: "runner \<Rightarrow> bool" where
  "runner_ok r \<longleftrightarrow> vm_ok (base_vm r) \<and> device_memory \<in> set (mmu (base_vm r)) \<and> length (dev_mem r) = 4"

lemma device_unique:
  assumes "runner_ok r" and "b \<in> set (mmu (base_vm r))" and "is_device b"
  shows "b = device_memory"
  using assms start_of_unique [of "mmu (base_vm r)" b device_memory]
  by (simp add: runner_ok_def vm_ok_def is_device_def start_of_def)

lemma device_block_load:
  assumes "in_range (block_params device_memory) a n" and "unat n \<le> 256"
  shows "block_load device_memory a n = Inr (Some (device_load a n))"
proof -
  have ok: "block_ok device_memory" by (simp add: device_memory_eq generic_memory_def block_ok_def)
  have "covers device_memory a n"
    using assms in_range_within [of "block_params device_memory" n a] by (simp add: covers_def device_params)
  moreover have "block_byte device_memory x = 0" for x
    by (simp add: block_byte_def device_memory_eq generic_memory_def Let_def)
  ultimately show ?thesis
    using block_load_covered [OF ok] by (simp add: device_load_def map_replicate_const)
qed

lemma on_base_simps [simp]:
  "on_base (ret x) = ret x" "on_base (throw e) = throw e" "on_base (checked z) = checked z"
  "on_base (query f) = query (\<lambda>r. f (base_vm r))"
  by (simp_all add: on_base_def action_simps fun_eq_iff)

lemma on_base_andThen: "on_base (andThen f g) = andThen (on_base f) (\<lambda>x. on_base (g x))"
  by (rule ext) (simp add: on_base_def andThen_def split: prod.split sum.split)

lemma access_size_bounds:
  assumes "n \<in> access_sizes"
  shows "n \<noteq> 0" "\<not> n > 4" "unat (ucast n :: u32) \<le> 256"
  using assms by (auto simp: access_sizes_def)

text \<open>A load does not tell the device from a block of zeros.\<close>

lemma runner_read_eq:
  assumes ok: "runner_ok r" and n: "n \<in> access_sizes"
  shows "runner_read_memory a n v r = on_base (read_memory a n v) r"
proof (cases "get_ptr_ro a n (base_vm r)")
  case (Inl e)
  then show ?thesis by (simp add: runner_read_memory_def read_memory_def on_base_def action_simps)
next
  case (Inr ptr)
  show ?thesis
  proof (cases ptr)
    case None
    with Inr show ?thesis by (simp add: runner_read_memory_def read_memory_def on_base_def action_simps)
  next
    case (Some b)
    with Inr have f: "find_block (mmu (base_vm r)) a (ucast n) = Some b" by (simp add: get_ptr_ro_def split: if_splits)
    have "load_block b a (ucast n) = block_load b a (ucast n)"
    proof (cases "is_device b")
      case True
      with device_unique [OF ok find_block_SomeD(1) [OF f]] have "b = device_memory" by simp
      with device_block_load find_block_SomeD(2) [OF f] access_size_bounds(3) [OF n] show ?thesis by (simp add: load_block_def)
    qed (simp add: load_block_def)
    with Inr Some show ?thesis
      by (simp add: runner_read_memory_def read_memory_def on_base_def action_simps split: sum.split option.split)
  qed
qed

text \<open>A store reaches the device when the block of its address is the device.\<close>

definition at_device :: "runner \<Rightarrow> address_t \<Rightarrow> u32 \<Rightarrow> bool" where
  "at_device r a n \<longleftrightarrow> (case find_block (mmu (base_vm r)) a n of None \<Rightarrow> False | Some b \<Rightarrow> is_device b)"

lemma runner_write_eq:
  assumes "\<not> at_device r a (ucast n)"
  shows "runner_write_memory a n v r = on_base (write_memory a n v) r"
  using assms
  by (auto simp: runner_write_memory_def write_memory_def get_ptr_rw_def at_device_def on_base_def store_block_def action_simps
    split: sum.split option.split prod.split)

lemma runner_write_device:
  assumes "at_device r a (ucast n)" and "n \<in> access_sizes" and "a mod ucast n = 0"
  shows "runner_write_memory a n v r
    = (if n = 4 \<and> (a - 0x800000) div 4 < 4
       then (Inr (), r\<lparr>dev_mem := (dev_mem r)[unat ((a - 0x800000) div 4) := v], set_dev := True\<rparr>)
       else (Inl (data_access_error ''store: write error''), r\<lparr>set_dev := True\<rparr>))"
proof -
  obtain b where b: "find_block (mmu (base_vm r)) a (ucast n) = Some b" "is_device b"
    using assms(1) by (auto simp: at_device_def split: option.splits)
  have four: "ucast n = (4 :: u32) \<longleftrightarrow> n = 4" using assms(2) by (auto simp: access_sizes_def)
  have v: "deref_u32 (le_bytes 4 v) = Inr v" by (simp add: deref_u32_def)
  show ?thesis
    using assms(3) b access_size_bounds [OF assms(2)]
    by (auto simp: runner_write_memory_def get_ptr_rw_def store_block_def device_store_def assert_set_def start_of_def
      device_params four v action_simps Let_def not_le)
qed

lemma runner_current_eq:
  assumes "\<not> at_device r (get_pc (base_vm r)) 4"
  shows "runner_get_current r = get_current (base_vm r)"
  using assms
  by (auto simp: runner_get_current_def get_current_def current_ptr_def get_ptr_ro_def at_device_def ro_pointer_def
    split: sum.split option.split)

lemma runner_current_device:
  assumes "at_device r (get_pc (base_vm r)) 4" and "get_pc (base_vm r) mod 4 = 0"
  shows "runner_get_current r = Inr None"
  using assms
  by (auto simp: runner_get_current_def get_ptr_ro_def at_device_def ro_pointer_def device_get_ro_def
    split: sum.splits option.splits)

section \<open>A machine with a register file\<close>

text \<open>
  The machine of the runner keeps the contract of the handlers, so what theory \<open>Handler_Effects\<close> says of them holds
  on it too.
\<close>

lemma runner_machine_sel [simp]:
  "mi_halt runner_machine = on_base halt" "mi_jump_abs runner_machine d = on_base (jump_abs d)"
  "mi_jump_to runner_machine d = on_base (jump_to d)" "mi_jump_if runner_machine b d = on_base (jump_if b d)"
  "mi_syscall runner_machine = on_base (syscall (\<lambda>_. do_exit))" "mi_debug runner_machine = runner_debug"
  "mi_control_get runner_machine i = on_base (control_get i)" "mi_control_set runner_machine i v = on_base (control_set i v)"
  "mi_barrier runner_machine = on_base barrier" "mi_read_memory runner_machine = runner_read_memory"
  "mi_write_memory runner_machine = runner_write_memory" "mi_set_register runner_machine x v = on_base (set_register x v)"
  "mi_get_register runner_machine x r = get_register x (base_vm r)" "mi_get_pc runner_machine r = get_pc (base_vm r)"
  by (simp_all add: runner_machine_def)

interpretation runner: loading_machine runner_machine runner_ok "\<lambda>r. reg_value (base_vm r)"
  "\<lambda>r. (r\<lparr>base_vm := (base_vm r)\<lparr>registers := []\<rparr>\<rparr>, get_pc (base_vm r))" snd
proof unfold_locales
  fix r x
  assume ok: "runner_ok r"
  then have m: "vm_ok (base_vm r)" by (simp add: runner_ok_def)
  then show "reg_value (base_vm r) 0 = 0" by (simp add: reg_value_def vm_ok_def)
  show "mi_get_pc runner_machine r = snd (r\<lparr>base_vm := (base_vm r)\<lparr>registers := []\<rparr>\<rparr>, get_pc (base_vm r))" by simp
  fix v
  assume x: "x < register_count"
  let ?m = "snd (set_register x v (base_vm r))"
  have eq: "mi_set_register runner_machine x v r = (Inr (), r\<lparr>base_vm := ?m\<rparr>)"
    using x by (simp add: on_base_def set_register_small)
  have good: "vm_ok ?m" and rest: "vm_rest ?m = vm_rest (base_vm r)"
    using basic.set_register_good [OF m x, where v = v] basic.set_register_rest [OF m x, where v = v] by simp_all
  have mem: "mmu ?m = mmu (base_vm r)" using x by (simp add: set_register_small)
  show "mi_get_register runner_machine x r = Inr (reg_value (base_vm r) x)" using m x by (simp add: get_register_small)
  show "fst (mi_set_register runner_machine x v r) = Inr ()" unfolding eq by simp
  show "runner_ok (snd (mi_set_register runner_machine x v r))" using ok good mem unfolding eq by (simp add: runner_ok_def)
  show "((snd (mi_set_register runner_machine x v r))\<lparr>base_vm := (base_vm (snd (mi_set_register runner_machine x v r)))\<lparr>registers := []\<rparr>\<rparr>,
        get_pc (base_vm (snd (mi_set_register runner_machine x v r))))
      = (r\<lparr>base_vm := (base_vm r)\<lparr>registers := []\<rparr>\<rparr>, get_pc (base_vm r))"
    using rest unfolding eq by (simp add: vm_rest_def)
  fix q
  assume "q < register_count"
  then show "reg_value (base_vm (snd (mi_set_register runner_machine x v r))) q = (if q = x \<and> x \<noteq> 0 then v else reg_value (base_vm r) q)"
    using basic.set_register_reg [OF m x, where q = q and v = v] unfolding eq by simp
next
  fix r a n w r'
  assume ok: "runner_ok r" and read: "mi_read_memory runner_machine a n 0 r = (Inr w, r')"
  then obtain bytes b where "load_block b a (ucast n) = Inr (Some bytes)" and w: "w = le_word bytes"
    by (auto simp: runner_read_memory_def action_simps overlay_def split: option.splits sum.splits if_splits)
  then have "length bytes \<le> unat n"
    using read_memory_length find_block_small by (fastforce simp: load_block_def device_load_def split: if_splits)
  then show "take_bit (8 * unat n) w = w" unfolding w by (rule le_word_small)
qed

end
