(* ===== verification/Runner_Safety.thy ===== *)
theory Runner_Safety
  imports Arch_Runner
begin

text \<open>
  Every run of the test runner is safe: the invariant of its machine and of the device, the flag that is set once and
  never cleared, the loop, the setup of a test, and the errors that can leave the program.
\<close>

section \<open>The invariant\<close>

definition runner_inv :: "(address_t \<Rightarrow> u32 \<Rightarrow> bool) \<Rightarrow> runner \<Rightarrow> bool" where
  "runner_inv C r \<longleftrightarrow> vm_inv C (base_vm r) \<and> device_memory \<in> set (mmu (base_vm r)) \<and> length (dev_mem r) = 4"

lemma runner_inv_ok: "runner_inv C r \<Longrightarrow> runner_ok r"
  by (simp add: runner_inv_def runner_ok_def vm_inv_def)

lemma runner_inv_update [simp]: "runner_inv C (r\<lparr>cerr := s\<rparr>) = runner_inv C r" "runner_inv C (r\<lparr>set_dev := b\<rparr>) = runner_inv C r"
  by (simp_all add: runner_inv_def)

text \<open>Operations of \<open>basic_vm\<close> that do not touch the memory.\<close>

definition keeps_mmu :: "(unit basic_vm, 'a) action \<Rightarrow> bool" where
  "keeps_mmu f \<longleftrightarrow> (\<forall>m. mmu (snd (f m)) = mmu m)"

lemma on_base_safe:
  assumes "safe E (vm_inv C) f" and "keeps_mmu f"
  shows "safe E (runner_inv C) (on_base f)"
proof (rule safeI)
  fix r
  assume inv: "runner_inv C r"
  then have m: "vm_inv C (base_vm r)" by (simp add: runner_inv_def)
  show "runner_inv C (snd (on_base f r))"
    using safeD(1) [OF assms(1) m] inv assms(2) by (simp add: runner_inv_def on_base_def keeps_mmu_def split_beta)
  fix e
  assume "fst (on_base f r) = Inl e"
  then show "e \<in> E" using safeD(2) [OF assms(1) m] by (simp add: on_base_def split_beta)
qed

lemma keeps_mmu_andThen: "keeps_mmu f \<Longrightarrow> (\<And>x. keeps_mmu (g x)) \<Longrightarrow> keeps_mmu (andThen f g)"
  unfolding keeps_mmu_def andThen_def by (auto split: prod.splits sum.splits) (metis snd_conv)+

lemma keeps_mmu_basic [simp]:
  "keeps_mmu (ret x)" "keeps_mmu (throw e)" "keeps_mmu (query f)" "keeps_mmu (checked z)"
  "keeps_mmu halt" "keeps_mmu (set_pc v)" "keeps_mmu inc_pc" "keeps_mmu (set_register x v)"
  "keeps_mmu (trace_before h code)" "keeps_mmu (trace_after pc)" "keeps_mmu start"
  by (auto simp: keeps_mmu_def halt_def set_pc_def inc_pc_def set_register_def trace_before_def trace_after_def start_def action_simps
    split: sum.splits)

lemma keeps_mmu_ops [simp]:
  "keeps_mmu (jump_abs d)" "keeps_mmu (jump_to d)" "keeps_mmu (jump_if b d)" "keeps_mmu (control_get i)"
  "keeps_mmu (control_set i v)" "keeps_mmu barrier" "keeps_mmu debug" "keeps_mmu (syscall (\<lambda>_. do_exit))"
  "keeps_mmu f \<Longrightarrow> keeps_mmu (debug_print f)"
  by (auto simp: keeps_mmu_def jump_abs_def jump_to_def jump_if_def control_get_def control_set_def barrier_def debug_def
    syscall_def do_exit_def debug_print_def Let_def andThen_def query_def whenever_def ret_def
    keeps_mmu_basic [unfolded keeps_mmu_def] split: sum.split option.split)

text \<open>The operations that do.\<close>

lemma runner_read_safe:
  assumes "n \<in> access_sizes"
  shows "safe vm_errors (runner_inv C) (runner_read_memory a n 0)"
proof -
  have "safe vm_errors (vm_inv C) (read_memory a n 0 :: (unit basic_vm, register_t) action)"
    using safe_read_memory [OF assms, of False C a] by simp
  then have "safe vm_errors (runner_inv C) (on_base (read_memory a n 0))"
    by (rule on_base_safe) (auto simp: keeps_mmu_def read_memory_def action_simps split: sum.split option.split)
  then show ?thesis using runner_read_eq [OF runner_inv_ok assms] by (simp add: safe_def)
qed

lemma find_block_params:
  assumes "block_params b' = block_params b" and "mmu_ok mem" and "b \<in> set mem" and "d \<in> set mem" and "block_params d \<noteq> block_params b"
  shows "d \<in> set (put_block b' mem)"
  using assms put_block_mem [of mem b b' d] by auto

lemma store_keeps_device:
  assumes "runner_ok r" and "\<not> at_device r a (ucast n)" and "device_memory \<in> set (mmu (base_vm r))"
  shows "device_memory \<in> set (mmu (snd (write_memory a n v (base_vm r))))"
proof (cases "find_block (mmu (base_vm r)) a (ucast n)")
  case None
  with assms(3) show ?thesis by (auto simp: write_memory_def get_ptr_rw_def action_simps)
next
  case (Some b)
  with assms(2) have nd: "\<not> is_device b" by (simp add: at_device_def)
  have ok: "mmu_ok (mmu (base_vm r))" using assms(1) by (simp add: runner_ok_def vm_ok_def)
  have b: "b \<in> set (mmu (base_vm r))" using Some by (rule find_block_SomeD)
  then have "block_ok b" using ok by (simp add: mmu_ok_def)
  note st = block_store_SomeD(1) [OF this]
  have "device_memory \<in> set (put_block b' (mmu (base_vm r)))" if "block_store b a bs k = Inr (Some b')" for b' bs k
    using find_block_params [OF st [OF that] ok b assms(3)] nd by (auto simp: is_device_def)
  with Some assms(3) show ?thesis
    by (auto simp: write_memory_def get_ptr_rw_def action_simps split: sum.split option.split)
qed

lemma runner_write_safe:
  assumes "n \<in> access_sizes"
  shows "safe vm_errors (runner_inv C) (runner_write_memory a n v)"
proof -
  have "runner_inv C (snd (runner_write_memory a n v r)) \<and> (\<forall>e. fst (runner_write_memory a n v r) = Inl e \<longrightarrow> e \<in> vm_errors)"
    if inv: "runner_inv C r" for r
  proof (cases "at_device r a (ucast n)")
    case True
    show ?thesis
    proof (cases "a mod ucast n = 0")
      case al: True
      with runner_write_device [OF True assms al] inv show ?thesis by (simp add: runner_inv_def)
    next
      case False
      with access_size_bounds [OF assms] inv show ?thesis
        by (simp add: runner_write_memory_def get_ptr_rw_def action_simps)
    qed
  next
    case False
    have m: "vm_inv C (base_vm r)" and d: "device_memory \<in> set (mmu (base_vm r))" and l: "length (dev_mem r) = 4"
      using inv by (simp_all add: runner_inv_def)
    have s: "safe vm_errors (vm_inv C) (write_memory a n v :: (unit basic_vm, unit) action)"
      using safe_write_memory [OF assms, of False C a v] by simp
    show ?thesis
      using safeD [OF s m] store_keeps_device [OF runner_inv_ok [OF inv] False d] l
      by (auto simp: runner_write_eq [OF False] on_base_def runner_inv_def split_beta)
  qed
  then show ?thesis by (simp add: safe_def)
qed

section \<open>A run of a test is safe\<close>

lemma runner_current_safe:
  assumes "runner_inv C r"
  shows "(\<exists>w. runner_get_current r = Inr w \<and> (w \<noteq> None \<longrightarrow> \<not> at_device r (get_pc (base_vm r)) 4))
    \<or> (\<exists>msg. runner_get_current r = Inl (data_access_error msg))"
proof -
  have ok: "vm_ok (base_vm r)" and cov: "mmu_covers (mmu (base_vm r)) (get_pc (base_vm r)) 4"
    using assms by (auto simp: runner_inv_def vm_inv_def)
  consider (plain) "\<not> at_device r (get_pc (base_vm r)) 4" | (dev) "at_device r (get_pc (base_vm r)) 4" "get_pc (base_vm r) mod 4 = 0"
    | (odd) "get_pc (base_vm r) mod 4 \<noteq> 0" by blast
  then show ?thesis
  proof cases
    case plain
    then show ?thesis
      using get_current_eq [OF ok] cov unfolding runner_current_eq [OF plain]
      by (auto simp: arch_access_def abs_vm_def split: if_splits)
  next
    case dev
    then show ?thesis using runner_current_device by auto
  next
    case odd
    then show ?thesis by (auto simp: runner_get_current_def get_ptr_ro_def)
  qed
qed

lemma runner_dump_safe:
  assumes "runner_inv C r" and "runner_dump r = Inl e"
  shows "\<exists>msg. e = data_access_error msg"
proof -
  have ok: "vm_ok (base_vm r)" using assms(1) by (simp add: runner_inv_def vm_inv_def)
  from runner_current_safe [OF assms(1)] show ?thesis
    using assms(2) dump_with_error [OF ok] by (auto simp: runner_dump_def dump_with_def)
qed

lemma basic_safe:
  fixes C :: "address_t \<Rightarrow> u32 \<Rightarrow> bool"
  shows "safe vm_errors (vm_inv C) (jump_abs d :: (unit basic_vm, unit) action)"
    "safe vm_errors (vm_inv C) (jump_to d :: (unit basic_vm, unit) action)"
    "safe vm_errors (vm_inv C) (inc_pc :: (unit basic_vm, unit) action)"
    "safe vm_errors (vm_inv C) (halt :: (unit basic_vm, unit) action)"
    "safe vm_errors (vm_inv C) (debug_print (trace_before (vtable c) code) :: (unit basic_vm, unit) action)"
    "x < register_count \<Longrightarrow> safe vm_errors (vm_inv C) (set_register x v :: (unit basic_vm, unit) action)"
    "C pc 4 \<Longrightarrow> safe vm_errors (vm_inv C) (debug_print (trace_after pc) :: (unit basic_vm, unit) action)"
  using safe_jump_abs [of False C d] safe_jump_to [of False C d] safe_inc_pc [of False C]
    safe_trace_before [of False C c code] safe_set_register [of x False C v] safe_trace_after [of C pc False]
  by (simp_all add: halt_def safe_def modify_def vm_inv_def vm_ok_def get_pc_def)

lemma runner_debug_safe: "safe vm_errors (runner_inv C) runner_debug"
proof -
  have "safe vm_errors (runner_inv C) (query runner_dump)"
    using runner_dump_safe by (intro safe_query) fastforce
  moreover have "safe vm_errors (runner_inv C) (write_cerr s)" for s by (auto simp: write_cerr_def intro!: action_intros)
  moreover have "safe vm_errors (runner_inv C) (on_base halt)" by (intro on_base_safe basic_safe) simp
  ultimately show ?thesis
    unfolding runner_debug_def debug_def by (auto intro!: action_intros)
qed

lemma runner_machine_safe: "machine_safe vm_errors (runner_inv C) runner_machine"
proof -
  have sys: "safe vm_errors (vm_inv C) (syscall (\<lambda>_. do_exit) :: (unit basic_vm, unit) action)"
    using safe_syscall [of False C "\<lambda>_ :: unit. do_exit"] basic_safe(4) by (simp add: do_exit_def)
  have reg: "safe vm_errors (runner_inv C) (get_reg runner_machine x)" if "x < register_count" for x
    using that by (auto simp: get_reg_def get_register_small runner_inv_def vm_inv_def intro!: safe_query)
  show ?thesis
    using sys reg runner_debug_safe runner_read_safe runner_write_safe
    by (auto simp: machine_safe_def control_get_def control_set_def barrier_def jump_if_def
      intro!: on_base_safe basic_safe action_intros)
qed

lemma runner_step_safe: "safe vm_errors (runner_inv C) runner_step"
proof -
  have "runner_inv C (snd (runner_step r)) \<and> (\<forall>e. fst (runner_step r) = Inl e \<longrightarrow> e \<in> vm_errors)"
    if inv: "runner_inv C r" for r
  proof -
    have pc: "C (get_pc (base_vm r)) 4" using inv by (auto simp: runner_inv_def vm_inv_def)
    have rest: "safe vm_errors (runner_inv C)
       (andThen (on_base (debug_print (trace_before (vtable c) code))) (\<lambda>_.
        andThen (exec (vtable c) runner_machine code) (\<lambda>_.
        andThen (on_base (debug_print (trace_after (get_pc (base_vm r))))) (\<lambda>_.
        whenever b (on_base inc_pc)))))" for c code b
      by (intro action_intros on_base_safe basic_safe pc exec_safe [OF runner_machine_safe]) simp_all
    from runner_current_safe [OF inv] show ?thesis
    proof (elim disjE exE conjE)
      fix w
      assume w: "runner_get_current r = Inr w"
      show ?thesis
      proof (cases w)
        case None
        with w inv show ?thesis by (simp add: runner_step_def andThen_def query_def throw_def)
      next
        case (Some code)
        with w inv rest [of _ code] show ?thesis
          by (cases "find_handler (opcodes (base_vm r)) code")
            (simp_all add: runner_step_def andThen_def [of "query _"] query_def throw_def safe_def)
      qed
    next
      fix msg
      assume "runner_get_current r = Inl (data_access_error msg)"
      with inv show ?thesis by (simp add: runner_step_def andThen_def query_def)
    qed
  qed
  then show ?thesis by (simp add: safe_def)
qed

section \<open>The flag is never cleared\<close>

lemma on_base_flag [simp]: "safe UNIV set_dev (on_base f)" "set_dev (snd (on_base f r)) = set_dev r"
  by (simp_all add: safe_def on_base_def split_beta)

lemma store_block_flag: "safe UNIV set_dev (store_block b a bs n)"
  by (auto simp: store_block_def device_store_def assert_set_def Let_def intro!: action_intros split: option.split)

lemma runner_machine_flag: "machine_safe UNIV set_dev runner_machine"
proof -
  have "safe UNIV set_dev (runner_read_memory a n v)" for a n v
    by (auto simp: runner_read_memory_def intro!: action_intros split: option.split)
  moreover have "safe UNIV set_dev (runner_write_memory a n v)" for a n v
    using store_block_flag by (auto simp: runner_write_memory_def intro!: action_intros split: option.split)
  moreover have "safe UNIV set_dev runner_debug"
    by (auto simp: runner_debug_def write_cerr_def intro!: action_intros)
  moreover have "safe UNIV set_dev (get_reg runner_machine x)" for x by (simp add: get_reg_def safe_def query_def)
  ultimately show ?thesis by (simp add: machine_safe_def)
qed

lemma runner_step_flag: "safe UNIV set_dev runner_step"
  using exec_safe [OF runner_machine_flag]
  by (auto simp: runner_step_def intro!: action_intros split: option.split)

section \<open>The loop\<close>

inductive runner_reached :: "runner \<Rightarrow> runner \<Rightarrow> bool" for r where
  runner_start: "runner_reached r r"
| runner_next: "runner_reached r r1 \<Longrightarrow> is_running (base_vm r1) \<Longrightarrow> runner_step r1 = (Inr (), r2) \<Longrightarrow> runner_reached r r2"

lemma runner_run_unfold:
  "runner_run r =
     (if is_running (base_vm r)
      then (case runner_step r of (Inl e, r') \<Rightarrow> Some (Inl e, r') | (Inr _, r') \<Rightarrow> runner_run r')
      else Some (Inr (), r))"
  by (rule runner_run.simps)

lemma reached_run: "runner_reached r r1 \<Longrightarrow> runner_run r = runner_run r1"
proof (induction rule: runner_reached.induct)
  case (runner_next r1 r2)
  then show ?case by (subst (asm) runner_run_unfold) simp
qed simp

lemma reached_before:
  "is_running (base_vm r) \<Longrightarrow> runner_step r = (Inr (), r1) \<Longrightarrow> runner_reached r1 r2 \<Longrightarrow> runner_reached r r2"
  by (rotate_tac 2, induction rule: runner_reached.induct) (blast intro: runner_reached.intros)+

text \<open>How a run ends: at a halted machine, or at a step that throws.\<close>

lemma runner_run_end:
  assumes "runner_run r = Some (res, r')"
  shows "\<exists>r1. runner_reached r r1
    \<and> (res = Inr () \<and> \<not> is_running (base_vm r1) \<and> r' = r1 \<or> (\<exists>e. res = Inl e \<and> is_running (base_vm r1) \<and> runner_step r1 = (Inl e, r')))"
proof (rule runner_run.raw_induct [where P = "\<lambda>r res. \<exists>r1. runner_reached r r1
    \<and> (res = (Inr (), r1) \<and> \<not> is_running (base_vm r1)
       \<or> (\<exists>e r'. res = (Inl e, r') \<and> is_running (base_vm r1) \<and> runner_step r1 = (Inl e, r')))", OF _ assms, THEN exE])
  fix run' :: "runner \<Rightarrow> ((exn + unit) \<times> runner) option" and r res
  assume IH: "\<And>r res. run' r = Some res \<Longrightarrow> \<exists>r1. runner_reached r r1
    \<and> (res = (Inr (), r1) \<and> \<not> is_running (base_vm r1)
       \<or> (\<exists>e r'. res = (Inl e, r') \<and> is_running (base_vm r1) \<and> runner_step r1 = (Inl e, r')))"
    and body: "(if is_running (base_vm r)
      then (case runner_step r of (Inl e, r') \<Rightarrow> Some (Inl e, r') | (Inr _, r') \<Rightarrow> run' r')
      else Some (Inr (), r)) = Some res"
  show "\<exists>r1. runner_reached r r1
    \<and> (res = (Inr (), r1) \<and> \<not> is_running (base_vm r1)
       \<or> (\<exists>e r'. res = (Inl e, r') \<and> is_running (base_vm r1) \<and> runner_step r1 = (Inl e, r')))"
  proof (cases "is_running (base_vm r) \<and> (\<exists>r1. runner_step r = (Inr (), r1))")
    case True
    then obtain r1 where r1: "is_running (base_vm r)" "runner_step r = (Inr (), r1)" by blast
    with body have "run' r1 = Some res" by simp
    from IH [OF this] reached_before [OF r1] show ?thesis by blast
  next
    case False
    with body show ?thesis
      by (intro exI [of _ r]) (auto intro: runner_start split: if_splits prod.splits sum.splits)
  qed
qed auto

lemma reached_safe: "runner_reached r r1 \<Longrightarrow> safe E P runner_step \<Longrightarrow> P r \<Longrightarrow> P r1"
  by (induction rule: runner_reached.induct) (auto intro: safe_state)

lemma runner_run_safe:
  assumes "runner_run r = Some (res, r')" and "safe E P runner_step" and "P r"
  shows "P r'" and "res = Inl e \<Longrightarrow> e \<in> E" and "res = Inr () \<Longrightarrow> \<not> running (base_vm r')"
proof -
  obtain r1 where r1: "runner_reached r r1"
    "res = Inr () \<and> \<not> is_running (base_vm r1) \<and> r' = r1 \<or> (\<exists>e. res = Inl e \<and> is_running (base_vm r1) \<and> runner_step r1 = (Inl e, r'))"
    using runner_run_end [OF assms(1)] by blast
  have "P r1" using r1(1) assms(2,3) by (rule reached_safe)
  with r1(2) safeD [OF assms(2)] show "P r'" and "res = Inl e \<Longrightarrow> e \<in> E" and "res = Inr () \<Longrightarrow> \<not> running (base_vm r')"
    by (force simp: is_running_def)+
qed

section \<open>Setting up a test\<close>

definition fresh_runner :: "string \<Rightarrow> runner" where
  "fresh_runner text = (new_runner text)\<lparr>base_vm := new_vm\<lparr>opcodes := isa_registry, initFlags := 7,
     mmu := [generic_memory 0 0x400000, generic_memory 0x400000 0x400000, device_memory],
     syscalls := [10 \<mapsto> create 10 ''exit'' ()], syscall_throw_on_error := False\<rparr>\<rparr>"

lemma add_device:
  "add_block device_memory [generic_memory 0 0x400000, generic_memory 0x400000 0x400000]
    = (True, [generic_memory 0 0x400000, generic_memory 0x400000 0x400000, device_memory])"
  by (simp add: add_block_def device_memory_eq generic_memory_def is_overlap_def is_overlap_at_def in_range_at_def
    less_params_ext_def params_less_def)

lemma initProgram_new:
  "initProgram empty_null fs file (new_runner text) =
     (case parse_hex_file fs file of
        Inl e \<Rightarrow> (Inl e, fresh_runner text)
      | Inr None \<Rightarrow> (Inr False, fresh_runner text)
      | Inr (Some code) \<Rightarrow> runner_set_program empty_null code (fresh_runner text))"
proof -
  let ?m = "new_vm :: unit basic_vm"
  have isa: "init_isa ?m = (True, set_flag ISA_INITIALIZED (?m\<lparr>opcodes := isa_registry\<rparr>))"
    using init_isa_eq [OF config_inv_new, where 'a = unit] by (simp add: new_vm_def is_flag_set_def)
  have mem: "init_memory (set_flag ISA_INITIALIZED (?m\<lparr>opcodes := isa_registry\<rparr>))
      = (True, ?m\<lparr>opcodes := isa_registry, initFlags := 7, mmu := [generic_memory 0 0x400000, generic_memory 0x400000 0x400000]\<rparr>)"
    by (simp add: init_memory_def init_memory_sizes_def set_ro_size_def set_rw_size_def add_code_block_def add_data_block_def
      add_memory_def add_memory_block_def default_blocks new_vm_def have_code_block_def have_data_block_def
      is_flag_set_def set_flag_def def_code_size_def def_data_size_def def_code_base_def def_data_base_def)
  have call: "register_syscall (create 10 ''exit'' ()) Map.empty = (Inr True, [10 \<mapsto> create 10 ''exit'' ()])"
    by (simp add: register_syscall_def create_def ensure_def action_simps)
  show ?thesis
    by (simp add: initProgram_def new_runner_def isa mem add_memory_block_def add_device initSysCalls_def syscall_should_throw_def
        get_syscalls_def Let_def)
      (simp add: new_vm_def call fresh_runner_def new_runner_def split: sum.split option.split)
qed

text \<open>What loading keeps.\<close>

definition runner_config :: "(address_t \<Rightarrow> u32 \<Rightarrow> bool) \<Rightarrow> runner \<Rightarrow> bool" where
  "runner_config C r \<longleftrightarrow> config_ok (base_vm r) \<and> mmu_covers (mmu (base_vm r)) = C \<and> device_memory \<in> set (mmu (base_vm r))
     \<and> length (dev_mem r) = 4"

lemma config_runner_ok: "runner_config C r \<Longrightarrow> runner_ok r"
  by (simp add: runner_config_def runner_ok_def config_ok_def)

lemma stored_device:
  assumes ok: "runner_ok r" and f: "find_block (mmu (base_vm r)) a n = Some b" and "\<not> is_device b"
    and st: "block_store b a' bs k = Inr (Some b')"
  shows "device_memory \<in> set (put_block b' (mmu (base_vm r)))"
proof -
  have mem: "mmu_ok (mmu (base_vm r))" and d: "device_memory \<in> set (mmu (base_vm r))" using ok by (simp_all add: runner_ok_def vm_ok_def)
  have b: "b \<in> set (mmu (base_vm r))" using f by (rule find_block_SomeD)
  then have "block_params b' = block_params b" using mem st by (auto simp: mmu_ok_def dest: block_store_SomeD)
  from find_block_params [OF this mem b d] assms(3) show ?thesis by (auto simp: is_device_def)
qed

lemma runner_config_record:
  assumes cfg: "runner_config C r" and len: "length bytes \<le> 255"
  shows "\<exists>b r'. runner_load_record empty_null a bytes r = (Inr b, r') \<and> runner_config C r'"
proof -
  let ?n = "of_nat (length bytes) :: u32"
  have n: "unat ?n = length bytes" using len by (intro unat_of_nat_u32) simp
  have ok: "runner_ok r" using cfg by (rule config_runner_ok)
  then have mem: "mmu_ok (mmu (base_vm r))" by (simp add: runner_ok_def vm_ok_def)
  show ?thesis
  proof (cases "find_block (mmu (base_vm r)) a ?n = None \<or> bytes = [] \<and> empty_null")
    case True
    with cfg show ?thesis by (auto simp: runner_load_record_def ret_def split: option.split)
  next
    case False
    then obtain b where f: "find_block (mmu (base_vm r)) a ?n = Some b" by auto
    then have eq: "runner_load_record empty_null a bytes r = store_block b a bytes ?n r"
      using False by (auto simp: runner_load_record_def)
    show ?thesis
    proof (cases "is_device b")
      case True
      have "length bytes = 4" if "?n = 4" using n that by simp
      then have "deref_u32 bytes = Inr (le_word (take 4 bytes))" if "?n = 4" using that by (simp add: deref_u32_def)
      with True cfg show ?thesis
        by (auto simp: eq store_block_def device_store_def assert_set_def runner_config_def action_simps Let_def)
    next
      case nd: False
      from find_block_store [OF mem f, of bytes] n len obtain b' where
        st: "block_store b a bytes ?n = Inr (Some b')" and cov: "mmu_covers (put_block b' (mmu (base_vm r))) = mmu_covers (mmu (base_vm r))"
        by auto
      have "config_ok ((base_vm r)\<lparr>mmu := put_block b' (mmu (base_vm r))\<rparr>)"
        using cfg config_ok_stored [OF _ f st] by (simp add: runner_config_def)
      with nd st cov cfg stored_device [OF ok f nd st] show ?thesis
        by (auto simp: eq store_block_def on_base_def runner_config_def action_simps)
    qed
  qed
qed

lemma runner_config_records:
  "runner_config C r \<Longrightarrow> \<exists>b r'. runner_load_records empty_null recs offs pc r = (Inr b, r') \<and> runner_config C r'"
proof (induction empty_null recs offs pc r rule: runner_load_records.induct)
  case (1 empty_null offs pc r)
  then show ?case by (auto simp: ret_def)
next
  case (2 empty_null rec recs offs pc r)
  show ?case
  proof (cases "is_valid rec")
    case False
    with 2 show ?thesis by (auto simp: ret_def)
  next
    case True
    have "unat (rec_count rec) < 256" using unsigned_less [of "rec_count rec"] by simp
    with True have "length (rec_data rec) \<le> 255" by (simp add: is_valid_def)
    from runner_config_record [OF 2(6) this, of empty_null "offs + ucast (rec_offset rec)"] obtain b r1 where
      "runner_load_record empty_null (offs + ucast (rec_offset rec)) (rec_data rec) r = (Inr b, r1)" "runner_config C r1" by blast
    moreover have "runner_config C (r\<lparr>base_vm := snd (init_pc pc (base_vm r))\<rparr>)"
      using 2(6) config_ok_init_pc [of "base_vm r" pc] by (simp add: runner_config_def)
    ultimately show ?thesis
      using 2 True by (cases "get_type rec") (auto simp: ret_def split: prod.splits bool.splits)
  qed
qed

lemma fresh_memory: "mmu_ok [generic_memory 0 0x400000, generic_memory 0x400000 0x400000, device_memory]"
  by (simp add: mmu_ok_def block_ok_def block_fits_def before_def generic_memory_def device_memory_eq lo_def hi_def)

lemma fresh_config: "runner_config (mmu_covers (mmu (base_vm (fresh_runner text)))) (fresh_runner text)"
  using fresh_memory
  by (simp add: runner_config_def fresh_runner_def new_runner_def config_ok_def new_vm_def vm_ok_def is_flag_set_def
    have_code_block_def have_data_block_def)

lemma initProgram_config:
  assumes "initProgram empty_null fs file (new_runner text) = (res, r)"
  shows "runner_config (mmu_covers (mmu (base_vm (fresh_runner text)))) r \<and> (\<forall>e. res = Inl e \<longrightarrow> parse_hex_file fs file = Inl e)"
proof (cases "\<exists>code. parse_hex_file fs file = Inr (Some code)")
  case True
  then obtain code where p: "parse_hex_file fs file = Inr (Some code)" by blast
  from runner_config_records [OF fresh_config, of empty_null code 0 0] obtain b r' where
    "runner_load_records empty_null code 0 0 (fresh_runner text) = (Inr b, r')"
    "runner_config (mmu_covers (mmu (base_vm (fresh_runner text)))) r'" by blast
  with assms fresh_config show ?thesis
    by (auto simp: initProgram_new p runner_set_program_def ret_def split: if_splits)
next
  case False
  with assms fresh_config show ?thesis by (auto simp: initProgram_new split: sum.splits option.splits)
qed

section \<open>The verdict\<close>

text \<open>
  A verdict of true means that the machine halted, and that the flag of the device was set in no state of the run.
\<close>

lemma passed_run:
  assumes "runner_exec dbg r = Some (Inr True, r')"
  shows "\<exists>r1. on_base start (r\<lparr>base_vm := enable_debugging dbg (base_vm r)\<rparr>) = (Inr (), r1)
    \<and> runner_run r1 = Some (Inr (), r') \<and> \<not> set_dev r'"
  using assms by (auto simp: runner_exec_def write_cerr_def action_simps split: prod.splits sum.splits option.splits exn.splits)

lemma verdict_sound:
  assumes "runner_exec dbg r = Some (Inr True, r')"
    and "on_base start (r\<lparr>base_vm := enable_debugging dbg (base_vm r)\<rparr>) = (Inr (), r1)"
  shows "runner_reached r1 r'" and "\<not> running (base_vm r')" and "runner_reached r1 r2 \<Longrightarrow> \<not> set_dev r2"
proof -
  from passed_run [OF assms(1)] assms(2) have run: "runner_run r1 = Some (Inr (), r')" and clear: "\<not> set_dev r'" by auto
  from runner_run_end [OF run] show "runner_reached r1 r'" and "\<not> running (base_vm r')" by (auto simp: is_running_def)
  assume r2: "runner_reached r1 r2"
  show "\<not> set_dev r2"
    using runner_run_safe(1) [OF run [unfolded reached_run [OF r2]] runner_step_flag] clear by blast
qed

text \<open>How a run begins.\<close>

lemma runner_started:
  assumes cfg: "runner_config C r"
  shows "if C (initial_pc (base_vm r)) 4
    then \<exists>r1. on_base start (r\<lparr>base_vm := enable_debugging dbg (base_vm r)\<rparr>) = (Inr (), r1) \<and> runner_inv C r1
      \<and> set_dev r1 = set_dev r
    else \<exists>msg r1. on_base start (r\<lparr>base_vm := enable_debugging dbg (base_vm r)\<rparr>) = (Inl (code_access_error msg), r1)"
proof -
  let ?m = "(base_vm r)\<lparr>debugging := dbg\<rparr>"
  have ok: "config_ok ?m" and C: "mmu_covers (mmu ?m) = C" using cfg by (simp_all add: runner_config_def)
  show ?thesis
  proof (cases "C (initial_pc (base_vm r)) 4")
    case True
    with start_eq [OF ok] started_inv [OF ok] C cfg show ?thesis
      by (simp add: on_base_def enable_debugging_def runner_inv_def runner_config_def)
  next
    case False
    with start_eq [OF ok] C show ?thesis by (auto simp: on_base_def enable_debugging_def)
  qed
qed

lemma runner_exec_safe:
  assumes cfg: "runner_config C r" and ex: "runner_exec dbg r = Some (Inl e, r')"
  shows "e \<in> vm_errors"
proof (cases "C (initial_pc (base_vm r)) 4")
  case False
  with runner_started [OF cfg, of dbg] ex show ?thesis by (auto simp: runner_exec_def)
next
  case True
  with runner_started [OF cfg, of dbg] obtain r1 where
    st: "on_base start (r\<lparr>base_vm := enable_debugging dbg (base_vm r)\<rparr>) = (Inr (), r1)" and inv: "runner_inv C r1" by auto
  with ex obtain res r2 where run: "runner_run r1 = Some (res, r2)" by (auto simp: runner_exec_def split: option.splits)
  note s = runner_run_safe [OF run runner_step_safe inv]
  show ?thesis
  proof (cases res)
    case Inr
    with ex st run show ?thesis by (simp add: runner_exec_def)
  next
    case (Inl e')
    have dump: "x \<in> vm_errors" if "runner_dump (r2\<lparr>cerr := t\<rparr>) = Inl x" for x t
    proof -
      have "runner_inv C (r2\<lparr>cerr := t\<rparr>)" using s(1) by simp
      from runner_dump_safe [OF this that] show ?thesis by auto
    qed
    show ?thesis
      using ex st run s(2) Inl
      by (cases e') (auto simp: runner_exec_def write_cerr_def action_simps split: sum.splits dest: dump)
  qed
qed

section \<open>Properties\<close>

text \<open>
  C7: The runner is safe, whatever the tests: an exception that leaves it comes from the parser of HEX files, or is
  not an access outside a block, a null block pointer, a division by zero or a system call that hangs.
\<close>

theorem runner_main_safe:
  assumes "runner_main empty_null fs argv = Some (Uncaught e, text)"
  shows "(\<exists>file \<in> set (drop 1 argv). parse_hex_file fs file = Inl e)
    \<or> e \<notin> {undefined Out_Of_Bounds, undefined Null_Dereference, undefined Division_By_Zero, undefined Endless_Loop}"
proof -
  have "(\<exists>file \<in> set files. parse_hex_file fs file = Inl e) \<or> e \<in> vm_errors"
    if "run_tests empty_null fs dbg i files k t = Some (Uncaught e, text)" for files dbg i k t
    using that
  proof (induction empty_null fs dbg i files k t rule: run_tests.induct)
    case (2 empty_null fs dbg i f files k t)
    obtain res r where ini: "initProgram empty_null fs f (new_runner t) = (res, r)" by fastforce
    note cfg = initProgram_config [OF ini]
    have "e \<in> vm_errors" if "runner_exec dbg r = Some (Inl e, r')" for r'
      using cfg that by (blast intro: runner_exec_safe)
    with 2 ini cfg show ?case by (auto split: sum.splits bool.splits option.splits)
  qed simp
  with assms show ?thesis unfolding runner_main_def vm_errors_def by blast
qed

end
