(* ===== verification/Runner_Execution.thy ===== *)
theory Runner_Execution
  imports Runner_Safety Yeti_Execution Hex_Loading
begin

text \<open>
  What the test runner does with a test: the RISC-V machine with the device, which records the words stored into it,
  is the specification, and the runner's verdict is what this machine says.
\<close>

section \<open>Steps that leave the device alone\<close>

lemma on_base_at: "andThen (on_base f) g r = (case f (base_vm r) of (Inl e, m) \<Rightarrow> (Inl e, r\<lparr>base_vm := m\<rparr>) | (Inr x, m) \<Rightarrow> g x (r\<lparr>base_vm := m\<rparr>))"
  by (simp add: andThen_def on_base_def split: prod.split sum.split)

lemma andThen_first: "f r = f' r \<Longrightarrow> andThen f g r = andThen f' g r"
  by (simp add: andThen_def)

lemma runner_perform:
  assumes ok: "runner_ok r" and eff: "effect_ok eff"
    and off: "\<And>a n v. eff = Store_At a n v \<Longrightarrow> \<not> at_device r a (of_nat n)"
  shows "perform runner_machine eff r = on_base (perform (basic_machine (\<lambda>_ :: unit. do_exit)) eff) r"
proof (cases eff)
  case (Load_To x a n sext)
  with eff have "(of_nat n :: u8) \<in> access_sizes" by (auto simp: access_sizes_def)
  from runner_read_eq [OF ok this, of a 0] Load_To show ?thesis
    by (simp only: perform.simps runner_machine_sel basic_machine_sel on_base_andThen) (rule andThen_first)
next
  case (Store_At a n v)
  with eff have "n \<in> {1, 2, 4}" by simp
  then have "\<not> at_device r a (ucast (of_nat n :: u8))" using off [OF Store_At] by (subst ucast_of_nat_size)
  with runner_write_eq show ?thesis by (simp add: Store_At)
qed (simp_all add: on_base_andThen)

lemma trace_before_only:
  assumes "vm_ok (m :: unit basic_vm)"
  shows "\<exists>t. debug_print (trace_before (vtable c) code) m = (Inr (), m\<lparr>trace := t\<rparr>)"
proof -
  obtain s where "disassemblyArgs (vtable c :: unit basic_vm HandlerInterface) code = Inr s"
    using disassembly_total by blast
  then show ?thesis
    using assms decoded_register [OF assms, of code]
    by (cases "debugging m") (auto simp: debug_print_def trace_before_def is_debugging_enabled_def action_simps intro: exI [of _ "trace m"])
qed

lemma skip_same: "skip (vtable c :: 'm HandlerInterface) = skip (vtable c :: 'n HandlerInterface)"
  unfolding skip_advances [of c 0 "\<lambda>_. 0" 0] ..

text \<open>The instruction that is about to be executed, once it is fetched.\<close>

lemma runner_fetched:
  assumes "runner_ok r" and "\<not> at_device r (get_pc (base_vm r)) 4" and "arch_access (get_pc (base_vm r)) 4 (abs_vm (base_vm r))"
    and "find_handler (opcodes (base_vm r)) (arch_fetch (abs_vm (base_vm r))) = Some c"
  shows "\<exists>t. runner_step r =
      andThen (exec (vtable c) runner_machine (arch_fetch (abs_vm (base_vm r)))) (\<lambda>_.
      andThen (on_base (debug_print (trace_after (get_pc (base_vm r))))) (\<lambda>_.
      whenever (\<not> skip (vtable c :: runner HandlerInterface)) (on_base inc_pc))) (r\<lparr>base_vm := (base_vm r)\<lparr>trace := t\<rparr>\<rparr>)
    \<and> run_step (\<lambda>_. do_exit) (base_vm r) =
      andThen (exec (vtable c) (basic_machine (\<lambda>_. do_exit)) (arch_fetch (abs_vm (base_vm r)))) (\<lambda>_.
      andThen (debug_print (trace_after (get_pc (base_vm r)))) (\<lambda>_.
      whenever (\<not> skip (vtable c :: runner HandlerInterface)) inc_pc)) ((base_vm r)\<lparr>trace := t\<rparr>)"
proof -
  let ?m = "base_vm r" and ?w = "arch_fetch (abs_vm (base_vm r))"
  have ok: "vm_ok ?m" using assms(1) by (simp add: runner_ok_def)
  have cur: "runner_get_current r = Inr (Some ?w)"
    using get_current_eq [OF ok] assms(3) by (simp add: runner_current_eq [OF assms(2)])
  obtain t where t: "debug_print (trace_before (vtable c) ?w) ?m = (Inr (), ?m\<lparr>trace := t\<rparr>)"
    using trace_before_only [OF ok] by blast
  have "runner_step r = andThen (on_base (debug_print (trace_before (vtable c) ?w))) (\<lambda>_.
      andThen (exec (vtable c) runner_machine ?w) (\<lambda>_.
      andThen (on_base (debug_print (trace_after (get_pc ?m)))) (\<lambda>_.
      whenever (\<not> skip (vtable c :: runner HandlerInterface)) (on_base inc_pc)))) r"
    using cur assms(4) by (simp add: runner_step_def andThen_def [of "query _"] query_def)
  moreover have "run_step (\<lambda>_. do_exit) ?m = andThen (debug_print (trace_before (vtable c) ?w)) (\<lambda>_.
      andThen (exec (vtable c) (basic_machine (\<lambda>_. do_exit)) ?w) (\<lambda>_.
      andThen (debug_print (trace_after (get_pc ?m))) (\<lambda>_.
      whenever (\<not> skip (vtable c :: runner HandlerInterface)) inc_pc))) ?m"
    using run_step_found [OF ok assms(3,4), of "\<lambda>_. do_exit"] unfolding skip_same [of c, where 'm = runner and 'n = "unit basic_vm"] .
  ultimately show ?thesis using t by (intro exI [of _ t]) (simp add: on_base_at andThen_def [of "debug_print _"])
qed

lemma at_device_trace [simp]: "at_device (r\<lparr>base_vm := (base_vm r)\<lparr>trace := t\<rparr>\<rparr>) a n = at_device r a n"
  by (simp add: at_device_def)

lemma runner_ok_trace [simp]: "runner_ok (r\<lparr>base_vm := (base_vm r)\<lparr>trace := t\<rparr>\<rparr>) = runner_ok r"
  by (simp add: runner_ok_def)

lemma runner_step_plain:
  assumes ok: "runner_ok r" and isa: "opcodes (base_vm r) = isa_registry" and pc: "\<not> at_device r (get_pc (base_vm r)) 4"
    and eff: "arch_effect (abs_vm (base_vm r)) = Some eff"
    and off: "\<And>a n v. eff = Store_At a n v \<Longrightarrow> \<not> at_device r a (of_nat n)"
  shows "runner_step r = on_base (run_step (\<lambda>_. do_exit)) r"
proof -
  let ?m = "base_vm r"
  let ?w = "arch_fetch (abs_vm ?m)"
  from eff obtain c where c: "arch_access (get_pc ?m) 4 (abs_vm ?m)" "find_handler (opcodes ?m) ?w = Some c"
    and e: "eff = isa_effect c ?w (reg_value ?m) (get_pc ?m)" "eff \<noteq> System" "cxx_defined c ?w (reg_value ?m)"
    by (auto simp: arch_effect_def isa Let_def abs_vm_def split: if_splits option.splits)
  obtain t where t: "runner_step r =
      andThen (exec (vtable c) runner_machine ?w) (\<lambda>_.
      andThen (on_base (debug_print (trace_after (get_pc ?m)))) (\<lambda>_.
      whenever (\<not> skip (vtable c :: runner HandlerInterface)) (on_base inc_pc))) (r\<lparr>base_vm := ?m\<lparr>trace := t\<rparr>\<rparr>)"
    "run_step (\<lambda>_. do_exit) ?m =
      andThen (exec (vtable c) (basic_machine (\<lambda>_. do_exit)) ?w) (\<lambda>_.
      andThen (debug_print (trace_after (get_pc ?m))) (\<lambda>_.
      whenever (\<not> skip (vtable c :: runner HandlerInterface)) inc_pc)) (?m\<lparr>trace := t\<rparr>)"
    using runner_fetched [OF ok pc c] by blast
  let ?r = "r\<lparr>base_vm := ?m\<lparr>trace := t\<rparr>\<rparr>"
  have ok1: "runner_ok ?r" using ok by simp
  have same: "reg_value (?m\<lparr>trace := t\<rparr>) = reg_value ?m" "get_pc (?m\<lparr>trace := t\<rparr>) = get_pc ?m"
    by (simp_all add: reg_value_def get_pc_def fun_eq_iff)
  have "exec (vtable c) runner_machine ?w ?r = perform runner_machine eff ?r"
    using runner.exec_effect [OF ok1, of c ?w] e by (simp add: same)
  also have "\<dots> = on_base (perform (basic_machine (\<lambda>_ :: unit. do_exit)) eff) ?r"
    using runner_perform [OF ok1, of eff] off isa_effect_ok by (simp add: e(1))
  also have "perform (basic_machine (\<lambda>_ :: unit. do_exit)) eff (?m\<lparr>trace := t\<rparr>)
      = exec (vtable c) (basic_machine (\<lambda>_. do_exit)) ?w (?m\<lparr>trace := t\<rparr>)"
  proof -
    have "vm_ok (?m\<lparr>trace := t\<rparr>)" using ok by (simp add: runner_ok_def)
    from basic.exec_effect [where call = "\<lambda>_. do_exit", OF this, of c ?w] e show ?thesis by (simp add: same vm_rest_def)
  qed
  then have "on_base (perform (basic_machine (\<lambda>_ :: unit. do_exit)) eff) ?r
      = on_base (exec (vtable c) (basic_machine (\<lambda>_. do_exit)) ?w) ?r" by (simp add: on_base_def)
  finally have ex: "exec (vtable c) runner_machine ?w ?r = on_base (exec (vtable c) (basic_machine (\<lambda>_. do_exit)) ?w) ?r" .
  have wh: "whenever b (on_base inc_pc) = on_base (whenever b inc_pc)" for b by (simp add: whenever_def)
  have "runner_step r = on_base (andThen (exec (vtable c) (basic_machine (\<lambda>_. do_exit)) ?w) (\<lambda>_.
      andThen (debug_print (trace_after (get_pc ?m))) (\<lambda>_.
      whenever (\<not> skip (vtable c :: runner HandlerInterface)) inc_pc))) ?r"
    unfolding t(1) on_base_andThen wh by (rule andThen_first) (rule ex)
  also have "\<dots> = on_base (run_step (\<lambda>_. do_exit)) r" by (simp add: on_base_def t(2))
  finally show ?thesis .
qed

section \<open>Stores into the device\<close>

lemma generic_covers: "covers (generic_memory b k) a n \<longleftrightarrow>
    unat b \<le> unat a \<and> unat a < unat b + unat k \<and> unat a + unat n \<le> unat b + unat k"
  by (auto simp: covers_def within_def in_range_at_iff generic_memory_def lo_def hi_def)

lemma device_covers: "covers device_memory a n \<longleftrightarrow> 0x800000 \<le> unat a \<and> unat a < 0xC00000 \<and> unat a + unat n \<le> 0xC00000"
  by (simp add: device_memory_eq generic_covers)

lemma at_device_iff:
  assumes "runner_ok r" and "unat n \<le> 256"
  shows "at_device r a n \<longleftrightarrow> 0x800000 \<le> unat a \<and> unat a < 0xC00000 \<and> unat a + unat n \<le> 0xC00000"
proof -
  have ok: "mmu_ok (mmu (base_vm r))" and d: "device_memory \<in> set (mmu (base_vm r))"
    using assms(1) by (simp_all add: runner_ok_def vm_ok_def)
  have "at_device r a n \<longleftrightarrow> find_block (mmu (base_vm r)) a n = Some device_memory"
    using device_unique [OF assms(1) find_block_SomeD(1)] by (auto simp: at_device_def split: option.splits)
  then show ?thesis using d by (simp add: find_block_iff [OF ok assms(2)] device_covers)
qed

lemma runner_store_step:
  assumes ok: "runner_ok r" and isa: "opcodes (base_vm r) = isa_registry" and pc: "\<not> at_device r (get_pc (base_vm r)) 4"
    and eff: "arch_effect (abs_vm (base_vm r)) = Some (Store_At a n v)"
    and dev: "at_device r a (of_nat n)" and al: "a mod of_nat n = 0"
  shows "\<exists>res r'. runner_step r = (res, r') \<and> set_dev r' \<and> frame (base_vm r') = frame (base_vm r) \<and> cerr r' = cerr r
    \<and> (if n = 4 \<and> (a - 0x800000) div 4 < 4
       then dev_mem r' = (dev_mem r)[unat ((a - 0x800000) div 4) := v]
         \<and> outcome res (fst (arch_next (abs_vm (base_vm r)))) \<and> abs_vm (base_vm r') = snd (arch_next (abs_vm (base_vm r)))
       else res = Inl (data_access_error ''store: write error'') \<and> dev_mem r' = dev_mem r \<and> abs_vm (base_vm r') = abs_vm (base_vm r))"
proof -
  let ?m = "base_vm r"
  let ?w = "arch_fetch (abs_vm ?m)"
  from eff obtain c where c: "arch_access (get_pc ?m) 4 (abs_vm ?m)" "find_handler (opcodes ?m) ?w = Some c"
    and e: "isa_effect c ?w (reg_value ?m) (get_pc ?m) = Store_At a n v" "cxx_defined c ?w (reg_value ?m)"
    by (auto simp: arch_effect_def isa Let_def abs_vm_def split: if_splits option.splits)
  obtain t where t: "runner_step r =
      andThen (exec (vtable c) runner_machine ?w) (\<lambda>_.
      andThen (on_base (debug_print (trace_after (get_pc ?m)))) (\<lambda>_.
      whenever (\<not> skip (vtable c :: runner HandlerInterface)) (on_base inc_pc))) (r\<lparr>base_vm := ?m\<lparr>trace := t\<rparr>\<rparr>)"
    using runner_fetched [OF ok pc c] by blast
  let ?r = "r\<lparr>base_vm := ?m\<lparr>trace := t\<rparr>\<rparr>"
  have ok1: "runner_ok ?r" and vm: "vm_ok (?m\<lparr>trace := t\<rparr>)" using ok by (simp_all add: runner_ok_def)
  have n: "n \<in> {1, 2, 4}" using isa_effect_ok [of c ?w "reg_value ?m" "get_pc ?m"] by (simp add: e(1))
  have size: "of_nat n \<in> access_sizes" "ucast (of_nat n :: u8) = (of_nat n :: u32)" "(of_nat n :: u8) = 4 \<longleftrightarrow> n = 4"
    using n by (auto simp: access_sizes_def)
  have same: "reg_value (?m\<lparr>trace := t\<rparr>) = reg_value ?m" "get_pc (?m\<lparr>trace := t\<rparr>) = get_pc ?m"
    by (simp_all add: reg_value_def get_pc_def fun_eq_iff)
  have "exec (vtable c) runner_machine ?w ?r = runner_write_memory a (of_nat n) v ?r"
    using runner.exec_effect [OF ok1, of c ?w] e by (simp add: same)
  also have "\<dots> = (if n = 4 \<and> (a - 0x800000) div 4 < 4
       then (Inr (), ?r\<lparr>dev_mem := (dev_mem r)[unat ((a - 0x800000) div 4) := v], set_dev := True\<rparr>)
       else (Inl (data_access_error ''store: write error''), ?r\<lparr>set_dev := True\<rparr>))"
    using runner_write_device [of ?r a "of_nat n" v] dev al size by simp
  finally have ex: "exec (vtable c) runner_machine ?w ?r = \<dots>" .
  show ?thesis
  proof (cases "n = 4 \<and> (a - 0x800000) div 4 < 4")
    case False
    with ex have "runner_step r = (Inl (data_access_error ''store: write error''), ?r\<lparr>set_dev := True\<rparr>)"
      unfolding t by (simp only: andThen_def if_False prod.case sum.case)
    with False show ?thesis by auto
  next
    case True
    let ?r1 = "?r\<lparr>dev_mem := (dev_mem r)[unat ((a - 0x800000) div 4) := v], set_dev := True\<rparr>"
    let ?K = "andThen (debug_print (trace_after (get_pc ?m))) (\<lambda>_.
      whenever (\<not> skip (vtable c :: unit basic_vm HandlerInterface)) inc_pc)"
    have wh: "whenever b (on_base inc_pc) = on_base (whenever b inc_pc)" for b by (simp add: whenever_def)
    have "runner_step r = on_base ?K ?r1"
      using ex True unfolding t on_base_andThen wh skip_same [of c, where 'm = runner and 'n = "unit basic_vm"]
      by (simp add: andThen_def [of "exec _ _ _"])
    moreover have "arch_mapped (abs_vm (?m\<lparr>trace := t\<rparr>)) (get_pc ?m) 4" using c(1) by (simp add: arch_access_def)
    from realises_after [OF vm this, of c ?w "reg_value ?m" "get_pc ?m"]
    have "realises ?K (?m\<lparr>trace := t\<rparr>) (arch_next (abs_vm ?m))" by (simp add: e(1))
    ultimately show ?thesis
      using True by (cases "?K (?m\<lparr>trace := t\<rparr>)") (auto simp: realises_def on_base_def)
  qed
qed

section \<open>The RISC-V machine with the device\<close>

text \<open>
  8 MiB of memory and, above it, the device: it reads as zeros, it records a word stored into one of its first four
  words and that such a store happened, and it takes no other store. Instructions are not fetched from it. An
  \<open>ebreak\<close> before the first such store is a step that does nothing.
\<close>

record test_state =
  core :: arch
  written :: bool
  words :: "u32 list"

definition in_memory :: "address_t \<Rightarrow> u32 \<Rightarrow> bool" where
  "in_memory a n \<longleftrightarrow> unat a < 0x400000 \<and> unat a + unat n \<le> 0x400000
    \<or> 0x400000 \<le> unat a \<and> unat a < 0x800000 \<and> unat a + unat n \<le> 0x800000"

definition in_device :: "address_t \<Rightarrow> u32 \<Rightarrow> bool" where
  "in_device a n \<longleftrightarrow> 0x800000 \<le> unat a \<and> unat a < 0xC00000 \<and> unat a + unat n \<le> 0xC00000"

text \<open>The next instruction is an environment call, and it is one like \<open>ebreak\<close>.\<close>

definition at_env :: "arch \<Rightarrow> bool" where
  "at_env a \<longleftrightarrow> arch_access (arch_pc a) 4 a \<and> \<not> in_device (arch_pc a) 4
     \<and> find_handler isa_registry (arch_fetch a) = Some C_env_call"

definition at_break :: "arch \<Rightarrow> bool" where
  "at_break a \<longleftrightarrow> at_env a \<and> field 20 12 (arch_fetch a) \<noteq> 0"

fun device_target :: "effect \<Rightarrow> (address_t \<times> nat \<times> u32) option" where
  "device_target (Store_At a n v) = (if in_device a (of_nat n) then Some (a, n, v) else None)"
| "device_target _ = None"

definition device_word :: "address_t \<Rightarrow> nat \<Rightarrow> bool" where
  "device_word a n \<longleftrightarrow> n = 4 \<and> a mod 4 = 0 \<and> unat a < 0x800010"

definition test_step :: "test_state \<Rightarrow> test_state option" where
  "test_step s =
     (if in_device (arch_pc (core s)) 4 then None
      else case arch_effect (core s) of
             None \<Rightarrow>
               if at_break (core s) \<and> \<not> written s
               then (case arch_next (core s) of (None, a) \<Rightarrow> Some (s\<lparr>core := a\<rparr>) | (Some t, a) \<Rightarrow> None)
               else None
           | Some eff \<Rightarrow>
               (case device_target eff of
                  None \<Rightarrow> (case arch_step eff (core s) of (None, a) \<Rightarrow> Some (s\<lparr>core := a\<rparr>) | (Some t, a) \<Rightarrow> None)
                | Some (ad, n, v) \<Rightarrow>
                    if device_word ad n
                    then (case arch_next (core s) of
                            (None, a) \<Rightarrow> Some \<lparr>core = a, written = True, words = (words s)[(unat ad - 0x800000) div 4 := v]\<rparr>
                          | (Some t, a) \<Rightarrow> None)
                    else None))"

fun test_run :: "nat \<Rightarrow> test_state \<Rightarrow> test_state option" where
  "test_run 0 s = Some s"
| "test_run (Suc n) s = (case test_step s of None \<Rightarrow> None | Some s' \<Rightarrow> test_run n s')"

definition test_start :: "segment list \<Rightarrow> address_t \<Rightarrow> test_state" where
  "test_start segs entry =
     \<lparr>core = \<lparr>arch_x = (\<lambda>_. 0), arch_pc = entry, arch_mem = fold put_segment segs (\<lambda>_. 0),
        arch_mapped = (\<lambda>a n. in_memory a n \<or> in_device a n)\<rparr>,
      written = False, words = replicate 4 0\<rparr>"

section \<open>The runner follows it\<close>

definition test_mapped :: "address_t \<Rightarrow> u32 \<Rightarrow> bool" where
  "test_mapped a n \<longleftrightarrow> in_memory a n \<or> in_device a n"

lemma fresh_mapped: "mmu_covers (mmu (base_vm (fresh_runner out))) = test_mapped"
  by (auto simp: fresh_runner_def mmu_covers_def generic_covers device_covers test_mapped_def in_memory_def in_device_def fun_eq_iff)

definition in_state :: "test_state \<Rightarrow> runner \<Rightarrow> bool" where
  "in_state s r \<longleftrightarrow> runner_inv test_mapped r \<and> abs_vm (base_vm r) = core s \<and> set_dev r = written s \<and> dev_mem r = words s"

lemma at_device_in: "runner_ok r \<Longrightarrow> unat n \<le> 256 \<Longrightarrow> at_device r a n \<longleftrightarrow> in_device a n"
  by (simp add: at_device_iff in_device_def)

lemma device_index:
  assumes "0x800000 \<le> unat (ad :: u32)"
  shows "unat ((ad - 0x800000) div 4) = (unat ad - 0x800000) div 4"
    and "(ad - 0x800000) div 4 < 4 \<longleftrightarrow> unat ad < 0x800010"
proof -
  have "unat (ad - 0x800000) = unat ad - 0x800000" using assms by (simp add: unat_sub word_le_nat_alt)
  then show *: "unat ((ad - 0x800000) div 4) = (unat ad - 0x800000) div 4" by (simp add: unat_div)
  show "(ad - 0x800000) div 4 < 4 \<longleftrightarrow> unat ad < 0x800010"
    unfolding word_less_nat_alt * using assms by simp linarith
qed

lemma arch_effect_ok:
  assumes "arch_effect a = Some eff"
  shows "effect_ok eff"
proof -
  obtain c where "isa_effect c (arch_fetch a) (arch_x a) (arch_pc a) = eff"
    using assms by (auto simp: arch_effect_def Let_def split: if_splits option.splits)
  with isa_effect_ok [of c "arch_fetch a" "arch_x a" "arch_pc a"] show ?thesis by simp
qed

lemma store_size: "arch_effect a = Some (Store_At ad n v) \<Longrightarrow> n \<in> {1, 2, 4}"
  by (drule arch_effect_ok) simp

lemma small_size: "n \<in> {1, 2, 4} \<Longrightarrow> unat (of_nat n :: u32) = n \<and> n \<le> 256"
  by auto

lemma device_target_Some: "device_target eff = Some (ad, n, v) \<longleftrightarrow> eff = Store_At ad n v \<and> in_device ad (of_nat n)"
  by (cases eff) auto

text \<open>What is the same in every state of a run: nothing is decoded, configured or reported anew.\<close>

definition same_setup :: "runner \<Rightarrow> runner \<Rightarrow> bool" where
  "same_setup r r' \<longleftrightarrow> frame (base_vm r') = frame (base_vm r) \<and> cerr r' = cerr r"

text \<open>A step on an environment call whose handler returns, with the machine running as \<open>b\<close> says.\<close>

lemma runner_env_step:
  assumes st: "in_state s r" and isa: "opcodes (base_vm r) = isa_registry" and env: "at_env (core s)"
    and cov: "arch_mapped (core s) (arch_pc (core s) + 4) 4"
    and call: "\<And>t. exec (vtable C_env_call) runner_machine (arch_fetch (core s)) (r\<lparr>base_vm := (base_vm r)\<lparr>trace := t\<rparr>\<rparr>)
      = (Inr (), r\<lparr>base_vm := (base_vm r)\<lparr>trace := t, running := b\<rparr>, cerr := out\<rparr>)"
  shows "\<exists>m. runner_step r = (Inr (), r\<lparr>base_vm := m, cerr := out\<rparr>)
    \<and> abs_vm m = (core s)\<lparr>arch_pc := arch_pc (core s) + 4\<rparr> \<and> frame m = frame ((base_vm r)\<lparr>running := b\<rparr>)"
proof -
  let ?m = "base_vm r" and ?w = "arch_fetch (core s)"
  have inv: "runner_inv test_mapped r" and abs: "abs_vm ?m = core s" using st by (simp_all add: in_state_def)
  have ok: "runner_ok r" using inv by (rule runner_inv_ok)
  then have vm: "vm_ok ?m" by (simp add: runner_ok_def)
  have pc: "arch_pc (core s) = get_pc ?m" by (simp add: abs [symmetric] abs_vm_def)
  with env have acc: "arch_access (get_pc ?m) 4 (abs_vm ?m)" and nd: "\<not> at_device r (get_pc ?m) 4"
    by (simp_all add: at_env_def abs at_device_in [OF ok])
  have h: "find_handler (opcodes ?m) (arch_fetch (abs_vm ?m)) = Some C_env_call" using env by (simp add: isa abs at_env_def)
  obtain t where t: "runner_step r =
      andThen (exec (vtable C_env_call) runner_machine ?w) (\<lambda>_.
      andThen (on_base (debug_print (trace_after (get_pc ?m)))) (\<lambda>_.
      whenever (\<not> skip (vtable C_env_call :: runner HandlerInterface)) (on_base inc_pc))) (r\<lparr>base_vm := ?m\<lparr>trace := t\<rparr>\<rparr>)"
    using runner_fetched [OF ok nd acc h] unfolding abs by blast
  let ?m1 = "?m\<lparr>trace := t, running := b\<rparr>"
  have ex: "exec (vtable C_env_call) runner_machine ?w (r\<lparr>base_vm := ?m\<lparr>trace := t\<rparr>\<rparr>)
      = (Inr (), r\<lparr>base_vm := ?m1, cerr := out\<rparr>)" by (rule call)
  let ?K = "andThen (debug_print (trace_after (get_pc ?m))) (\<lambda>_.
      whenever (\<not> skip (vtable C_env_call :: unit basic_vm HandlerInterface)) inc_pc)"
  have wh: "whenever b (on_base inc_pc) = on_base (whenever b inc_pc)" for b by (simp add: whenever_def)
  have step: "runner_step r = on_base ?K (r\<lparr>base_vm := ?m1, cerr := out\<rparr>)"
    using ex unfolding t on_base_andThen wh skip_same [of C_env_call, where 'm = runner and 'n = "unit basic_vm"]
    by (simp add: andThen_def [of "exec _ _ _"])
  have vm1: "vm_ok ?m1" using vm by (simp add: vm_ok_def)
  have abs1: "abs_vm ?m1 = abs_vm ?m" by (simp add: abs_vm_def get_pc_def reg_value_def fun_eq_iff)
  have "arch_mapped (abs_vm ?m1) (get_pc ?m) 4" using acc by (simp add: abs1 arch_access_def)
  from realises_after [OF vm1 this, of C_env_call 0 "\<lambda>_. 0" 0]
  have K: "realises ?K ?m1 (arch_next (abs_vm ?m))" by (simp add: abs1)
  have next_pc: "arch_next (abs_vm ?m) = (None, (abs_vm ?m)\<lparr>arch_pc := get_pc ?m + 4\<rparr>)"
    using cov by (simp add: arch_next_def arch_at_def abs pc)
  with K obtain m2 where K2: "?K ?m1 = (Inr (), m2)" and fr: "frame m2 = frame ?m1"
    and m2: "abs_vm m2 = (abs_vm ?m)\<lparr>arch_pc := get_pc ?m + 4\<rparr>"
    by (cases "?K ?m1") (auto simp: realises_def elim: outcome.elims)
  have "runner_step r = (Inr (), r\<lparr>base_vm := m2, cerr := out\<rparr>)" using K2 by (simp add: step on_base_def)
  moreover have "frame m2 = frame (?m\<lparr>running := b\<rparr>)" using fr by (simp add: frame_def)
  moreover have "abs_vm m2 = (core s)\<lparr>arch_pc := arch_pc (core s) + 4\<rparr>" using m2 by (simp add: abs pc)
  ultimately show ?thesis by blast
qed

lemma runner_break:
  assumes "field 20 12 w \<noteq> 0"
  shows "exec (vtable C_env_call) runner_machine w = runner_debug"
proof -
  have "decode_i_u w \<noteq> 0" using assms by (simp add: bits32 bit_field decode_i_u_def)
  then show ?thesis by (simp add: handler_class_defs GenericHandler_def)
qed

lemma in_state_instruction:
  assumes st: "in_state s r" and isa: "opcodes (base_vm r) = isa_registry" and step: "test_step s = Some s'"
    and some: "arch_effect (core s) = Some eff"
  shows "\<exists>r'. runner_step r = (Inr (), r') \<and> in_state s' r' \<and> same_setup r r'"
proof -
  have inv: "runner_inv test_mapped r" and abs: "abs_vm (base_vm r) = core s" and dev: "set_dev r = written s" "dev_mem r = words s"
    using st by (simp_all add: in_state_def)
  have ok: "runner_ok r" using inv by (rule runner_inv_ok)
  then have vm: "vm_ok (base_vm r)" by (simp add: runner_ok_def)
  have "get_pc (base_vm r) = arch_pc (core s)" by (simp add: abs [symmetric]) (simp add: abs_vm_def)
  with step have pc: "\<not> at_device r (get_pc (base_vm r)) 4" by (auto simp: at_device_in [OF ok] test_step_def split: if_splits)
  have eff: "arch_effect (abs_vm (base_vm r)) = Some eff" using some by (simp add: abs)
  have "\<exists>r'. runner_step r = (Inr (), r') \<and> abs_vm (base_vm r') = core s' \<and> set_dev r' = written s' \<and> dev_mem r' = words s'
      \<and> same_setup r r'"
  proof (cases "device_target eff")
    case None
    then have off: "\<not> at_device r ad (of_nat n)" if "eff = Store_At ad n v" for ad n v
      using that small_size [OF store_size, OF eff [unfolded that]] by (auto simp: at_device_in [OF ok] split: if_splits)
    from step None eff obtain b where b: "arch_step eff (abs_vm (base_vm r)) = (None, b)" "s' = s\<lparr>core := b\<rparr>"
      by (auto simp: abs test_step_def split: if_splits option.splits prod.splits)
    obtain res m where run: "run_step (\<lambda>_. do_exit) (base_vm r) = (res, m)" by fastforce
    with run_step_effect [OF vm isa eff, of "\<lambda>_. do_exit"] b(1) have "res = Inr ()" "abs_vm m = b" "frame m = frame (base_vm r)"
      by (auto simp: realises_def elim: outcome.elims)
    with run b(2) dev show ?thesis
      using runner_step_plain [OF ok isa pc eff off] by (auto simp: on_base_def same_setup_def)
  next
    case (Some target)
    obtain ad n v where t: "device_target eff = Some (ad, n, v)" using Some by (cases target) auto
    then have st: "eff = Store_At ad n v" and ad: "in_device ad (of_nat n)" by (simp_all add: device_target_Some)
    have n: "unat (of_nat n :: u32) \<le> 256" using small_size [OF store_size, OF eff [unfolded st]] by simp
    from step t eff obtain b where b: "device_word ad n" "arch_next (abs_vm (base_vm r)) = (None, b)"
        "s' = \<lparr>core = b, written = True, words = (words s)[(unat ad - 0x800000) div 4 := v]\<rparr>"
      by (auto simp: abs test_step_def split: if_splits option.splits prod.splits)
    have word: "n = 4" "ad mod of_nat n = 0" "(ad - 0x800000) div 4 < 4" "unat ((ad - 0x800000) div 4) = (unat ad - 0x800000) div 4"
      using b(1) ad device_index [of ad] by (auto simp: device_word_def in_device_def)
    have "at_device r ad (of_nat n)" using ad at_device_in [OF ok n] by simp
    from runner_store_step [OF ok isa pc eff [unfolded st] this word(2)] obtain res r' where
      "runner_step r = (res, r')" "set_dev r'" "same_setup r r'" "dev_mem r' = (dev_mem r)[(unat ad - 0x800000) div 4 := v]"
      "outcome res (fst (arch_next (abs_vm (base_vm r))))" "abs_vm (base_vm r') = snd (arch_next (abs_vm (base_vm r)))"
      using word by (auto simp: same_setup_def)
    moreover from this(5) b(2) have "res = Inr ()" by (auto elim: outcome.elims)
    ultimately show ?thesis using b dev by auto
  qed
  then obtain r' where r': "runner_step r = (Inr (), r')" "abs_vm (base_vm r') = core s'" "set_dev r' = written s'" "dev_mem r' = words s'"
      "same_setup r r'" by blast
  with safe_state [OF runner_step_safe inv r'(1)] show ?thesis by (auto simp: in_state_def)
qed

lemma runner_debug_off:
  assumes "\<not> set_dev r"
  shows "runner_debug r = (Inr (), r)"
  using assms by (simp add: runner_debug_def debug_def action_simps)

lemma in_state_break:
  assumes st: "in_state s r" and isa: "opcodes (base_vm r) = isa_registry" and brk: "at_break (core s)" "\<not> written s"
    and nxt: "arch_next (core s) = (None, a)"
  shows "\<exists>r'. runner_step r = (Inr (), r') \<and> in_state (s\<lparr>core := a\<rparr>) r' \<and> same_setup r r'"
proof -
  have inv: "runner_inv test_mapped r" and dev: "set_dev r = written s" "dev_mem r = words s"
    using st by (simp_all add: in_state_def)
  have env: "at_env (core s)" and w: "field 20 12 (arch_fetch (core s)) \<noteq> 0" using brk(1) by (simp_all add: at_break_def)
  have cov: "arch_mapped (core s) (arch_pc (core s) + 4) 4" and a: "a = (core s)\<lparr>arch_pc := arch_pc (core s) + 4\<rparr>"
    using nxt by (simp_all add: arch_next_def arch_at_def split: if_splits)
  have "exec (vtable C_env_call) runner_machine (arch_fetch (core s)) (r\<lparr>base_vm := (base_vm r)\<lparr>trace := t\<rparr>\<rparr>)
      = (Inr (), r\<lparr>base_vm := (base_vm r)\<lparr>trace := t, running := running (base_vm r)\<rparr>, cerr := cerr r\<rparr>)" for t
  proof -
    have "exec (vtable C_env_call) runner_machine (arch_fetch (core s)) (r\<lparr>base_vm := (base_vm r)\<lparr>trace := t\<rparr>\<rparr>)
      = (Inr (), r\<lparr>base_vm := (base_vm r)\<lparr>trace := t\<rparr>\<rparr>)"
      unfolding runner_break [OF w] using dev(1) brk(2) by (simp add: runner_debug_off)
    then show ?thesis by simp
  qed
  from runner_env_step [OF st isa env cov this] obtain m where
    m: "runner_step r = (Inr (), r\<lparr>base_vm := m, cerr := cerr r\<rparr>)" "abs_vm m = a" "frame m = frame ((base_vm r)\<lparr>running := running (base_vm r)\<rparr>)"
    unfolding a by blast
  from safe_state [OF runner_step_safe inv m(1)] m dev show ?thesis by (auto simp: in_state_def same_setup_def)
qed

lemma in_state_step:
  assumes st: "in_state s r" and isa: "opcodes (base_vm r) = isa_registry" and step: "test_step s = Some s'"
  shows "\<exists>r'. runner_step r = (Inr (), r') \<and> in_state s' r' \<and> same_setup r r'"
proof (cases "arch_effect (core s)")
  case None
  with step obtain a where "at_break (core s)" "\<not> written s" "arch_next (core s) = (None, a)" "s' = s\<lparr>core := a\<rparr>"
    by (auto simp: test_step_def split: if_splits prod.splits option.splits)
  with in_state_break [OF st isa] show ?thesis by simp
next
  case (Some eff)
  with assms show ?thesis by (intro in_state_instruction)
qed

lemma in_state_reached:
  assumes "test_run n s = Some s'" and "in_state s r" and "opcodes (base_vm r) = isa_registry" and "running (base_vm r)"
  shows "\<exists>r'. runner_reached r r' \<and> in_state s' r' \<and> same_setup r r'"
  using assms
proof (induction n arbitrary: s r)
  case 0
  then show ?case by (auto simp: same_setup_def intro: runner_start)
next
  case (Suc n)
  then obtain s1 where step: "test_step s = Some s1" and rest: "test_run n s1 = Some s'" by (auto split: option.splits)
  from in_state_step [OF Suc.prems(2,3) step] obtain r1 where r1: "runner_step r = (Inr (), r1)" "in_state s1 r1" "same_setup r r1"
    by blast
  have run: "is_running (base_vm r)" using Suc.prems(4) by (simp add: is_running_def)
  from r1(3) have fr: "frame (base_vm r1) = frame (base_vm r)" by (simp add: same_setup_def)
  from Suc.IH [OF rest r1(2)] frame_fields [OF fr] Suc.prems(3,4) obtain r' where
    "runner_reached r1 r'" "in_state s' r'" "same_setup r1 r'" by auto
  with reached_before [OF run r1(1)] r1(3) show ?case by (auto simp: same_setup_def)
qed

section \<open>Where a run ends\<close>

text \<open>At the exit call, and at an \<open>ebreak\<close> after a store into the device.\<close>

definition at_exit :: "arch \<Rightarrow> bool" where
  "at_exit a \<longleftrightarrow> at_env a \<and> field 20 12 (arch_fetch a) = 0 \<and> arch_x a (reg_no Reg_a7) = 10
     \<and> arch_mapped a (arch_pc a + 4) 4"

definition bad_break :: "test_state \<Rightarrow> bool" where
  "bad_break s \<longleftrightarrow> at_break (core s) \<and> written s \<and> arch_mapped (core s) (arch_pc (core s) + 4) 4"

lemma halted_run:
  assumes "runner_step r = (Inr (), r')" and "running (base_vm r)" and "\<not> running (base_vm r')"
  shows "runner_run r = Some (Inr (), r')"
  using assms by (simp add: runner_run_unfold [of r] is_running_def) (simp add: runner_run_unfold is_running_def)

lemma runner_exits:
  assumes st: "in_state s r" and isa: "opcodes (base_vm r) = isa_registry" and run: "running (base_vm r)"
    and call: "syscalls (base_vm r) 10 = Some h" and a: "at_exit (core s)"
  shows "\<exists>r'. runner_run r = Some (Inr (), r') \<and> set_dev r' = written s \<and> dev_mem r' = words s \<and> cerr r' = cerr r
    \<and> abs_vm (base_vm r') = (core s)\<lparr>arch_pc := arch_pc (core s) + 4\<rparr>"
proof -
  let ?m = "base_vm r" and ?w = "arch_fetch (core s)"
  have inv: "runner_inv test_mapped r" and abs: "abs_vm ?m = core s" and dev: "set_dev r = written s" "dev_mem r = words s"
    using st by (simp_all add: in_state_def)
  have env: "at_env (core s)" and cov: "arch_mapped (core s) (arch_pc (core s) + 4) 4" using a by (simp_all add: at_exit_def)
  have "arch_x (core s) = reg_value ?m" by (simp add: abs [symmetric] abs_vm_def)
  with a have x: "reg_value ?m 17 = 10" by (simp add: at_exit_def)
  have imm: "decode_i_u ?w = 0" using a by (simp add: at_exit_def bits32 bit_field decode_i_u_def)
  have "exec (vtable C_env_call) runner_machine ?w (r\<lparr>base_vm := ?m\<lparr>trace := t\<rparr>\<rparr>)
      = (Inr (), r\<lparr>base_vm := ?m\<lparr>trace := t, running := False\<rparr>, cerr := cerr r\<rparr>)" for t
  proof -
    have "vm_ok (?m\<lparr>trace := t\<rparr>)" using runner_inv_ok [OF inv] by (simp add: runner_ok_def)
    note sys = syscall_eq [OF this, of "\<lambda>_. do_exit"]
    have "reg_value (?m\<lparr>trace := t\<rparr>) = reg_value ?m" by (simp add: reg_value_def fun_eq_iff)
    with x have "reg_value (?m\<lparr>trace := t\<rparr>) 17 = 10" by simp
    then have "syscall (\<lambda>_ :: unit. do_exit) (?m\<lparr>trace := t\<rparr>) = (Inr (), ?m\<lparr>trace := t, running := False\<rparr>)"
      unfolding sys using call by (simp add: do_exit_def halt_def modify_def)
    moreover have "exec (vtable C_env_call) runner_machine ?w = on_base (syscall (\<lambda>_. do_exit))"
      by (simp add: handler_class_defs GenericHandler_def imm)
    ultimately show ?thesis by (simp add: on_base_def)
  qed
  from runner_env_step [OF st isa env cov this] obtain m where
    m: "runner_step r = (Inr (), r\<lparr>base_vm := m, cerr := cerr r\<rparr>)" "abs_vm m = (core s)\<lparr>arch_pc := arch_pc (core s) + 4\<rparr>"
      "frame m = frame (?m\<lparr>running := False\<rparr>)" by blast
  have "\<not> running (base_vm (r\<lparr>base_vm := m, cerr := cerr r\<rparr>))" using frame_fields(2) [OF m(3)] by simp
  from halted_run [OF m(1) run this] m(2) dev show ?thesis by simp
qed

lemma runner_dump_fetched:
  assumes "runner_ok r" and "arch_access (get_pc (base_vm r)) 4 (abs_vm (base_vm r))" and "\<not> in_device (get_pc (base_vm r)) 4"
  shows "\<exists>d. runner_dump r = Inr d"
proof -
  have vm: "vm_ok (base_vm r)" and nd: "\<not> at_device r (get_pc (base_vm r)) 4"
    using assms by (simp_all add: runner_ok_def at_device_in)
  with get_current_eq [OF vm] assms(2) obtain w where "get_current (base_vm r) = Inr w" by auto
  then have "runner_get_current r = Inr w" by (simp only: runner_current_eq [OF nd])
  with dump_with_error [OF vm, of w] show ?thesis
    by (cases "dump_with (Inr w) (base_vm r)") (auto simp: runner_dump_def)
qed

lemma runner_dump_trace [simp]: "runner_dump (r\<lparr>base_vm := (base_vm r)\<lparr>trace := t\<rparr>\<rparr>) = runner_dump r"
proof -
  have regs: "dump_registers is ((base_vm r)\<lparr>trace := t\<rparr>) = dump_registers is (base_vm r)" for "is"
    by (induction "is") (simp_all add: get_register_def split: sum.split)
  show ?thesis by (simp add: runner_dump_def dump_with_def runner_get_current_def get_pc_def get_ptr_ro_def regs cong: sum.case_cong option.case_cong)
qed

lemma runner_breaks:
  assumes st: "in_state s r" and isa: "opcodes (base_vm r) = isa_registry" and run: "running (base_vm r)"
    and brk: "bad_break s"
  shows "\<exists>r'. runner_run r = Some (Inr (), r') \<and> set_dev r'"
proof -
  let ?m = "base_vm r" and ?w = "arch_fetch (core s)"
  have inv: "runner_inv test_mapped r" and abs: "abs_vm ?m = core s" and dev: "set_dev r = written s"
    using st by (simp_all add: in_state_def)
  have env: "at_env (core s)" and cov: "arch_mapped (core s) (arch_pc (core s) + 4) 4" and w: "field 20 12 ?w \<noteq> 0" and wr: "written s"
    using brk by (simp_all add: bad_break_def at_break_def)
  have "get_pc ?m = arch_pc (core s)" by (simp add: abs [symmetric] abs_vm_def)
  with env runner_dump_fetched [OF runner_inv_ok [OF inv]] obtain d where d: "runner_dump r = Inr d" by (auto simp: at_env_def abs)
  have "exec (vtable C_env_call) runner_machine ?w (r\<lparr>base_vm := ?m\<lparr>trace := t\<rparr>\<rparr>)
      = (Inr (), r\<lparr>base_vm := ?m\<lparr>trace := t, running := False\<rparr>, cerr := cerr r @ d @ device_text (dev_mem r)\<rparr>)" for t
    unfolding runner_break [OF w] using dev wr d by (simp add: runner_debug_def write_cerr_def debug_def halt_def on_base_def action_simps)
  from runner_env_step [OF st isa env cov this] obtain m where
    m: "runner_step r = (Inr (), r\<lparr>base_vm := m, cerr := cerr r @ d @ device_text (dev_mem r)\<rparr>)"
      "frame m = frame (?m\<lparr>running := False\<rparr>)" by blast
  have "\<not> running (base_vm (r\<lparr>base_vm := m, cerr := cerr r @ d @ device_text (dev_mem r)\<rparr>))" using frame_fields(2) [OF m(2)] by simp
  from halted_run [OF m(1) run this] dev wr show ?thesis by simp
qed

section \<open>Loading a test\<close>

definition segment_fits :: "bool \<Rightarrow> segment \<Rightarrow> bool" where
  "segment_fits empty_null s \<longleftrightarrow> (case s of (a, bytes) \<Rightarrow> in_memory a (of_nat (length bytes)) \<and> \<not> (bytes = [] \<and> empty_null))"

lemma load_record_fits:
  assumes ok: "runner_ok r" and len: "length bytes \<le> 255" and s: "segment_fits e (a, bytes)"
  shows "runner_load_record e a bytes r = on_base (load_data_record e a bytes) r"
proof -
  have "unat (of_nat (length bytes) :: u32) \<le> 256" using len by (subst unat_of_nat_u32) simp_all
  then have "\<not> at_device r a (of_nat (length bytes))"
    using at_device_in [OF ok] s by (auto simp: segment_fits_def in_memory_def in_device_def)
  then show ?thesis
    by (auto simp: runner_load_record_def load_data_record_def at_device_def store_block_def on_base_def action_simps Let_def
      split: option.splits sum.split prod.split)
qed

lemma load_records_fits:
  "runner_config C r \<Longrightarrow> hex_image recs offs pc = Some (segs, entry) \<Longrightarrow> list_all (segment_fits e) segs
    \<Longrightarrow> runner_load_records e recs offs pc r = on_base (load_records e recs offs pc) r"
proof (induction e recs offs pc r arbitrary: segs rule: runner_load_records.induct)
  case (1 e offs pc r)
  then show ?case by simp
next
  case (2 e rec recs offs pc r)
  have val: "is_valid rec" using 2(7) by (simp split: if_splits)
  show ?case
  proof (cases "get_type rec = HEX_DATA")
    case False
    with val 2 show ?thesis
      by (cases "get_type rec") (auto simp: on_base_def ret_def split: prod.split)
  next
    case True
    let ?a = "offs + ucast (rec_offset rec)"
    have "unat (rec_count rec) < 256" using unsigned_less [of "rec_count rec"] by simp
    with val have len: "length (rec_data rec) \<le> 255" by (simp add: is_valid_def)
    from 2(7) True val obtain segs' where segs': "hex_image recs offs pc = Some (segs', entry)" and segs: "segs = (?a, rec_data rec) # segs'"
      by (auto simp: apfst_def map_prod_def)
    then have s: "segment_fits e (?a, rec_data rec)" "list_all (segment_fits e) segs'" using 2(8) by simp_all
    have eq: "runner_load_record e ?a (rec_data rec) r = on_base (load_data_record e ?a (rec_data rec)) r"
      by (rule load_record_fits [OF config_runner_ok [OF 2(6)] len s(1)])
    from runner_config_record [OF 2(6) len, of e ?a] obtain b r1 where
      r1: "runner_load_record e ?a (rec_data rec) r = (Inr b, r1)" "runner_config C r1" by blast
    with eq obtain m1 where m1: "load_data_record e ?a (rec_data rec) (base_vm r) = (Inr b, m1)" "r1 = r\<lparr>base_vm := m1\<rparr>"
      by (cases "load_data_record e ?a (rec_data rec) (base_vm r)") (auto simp: on_base_def)
    show ?thesis
    proof (cases b)
      case False
      with True val r1 m1 show ?thesis by (simp add: on_base_def ret_def)
    next
      case b: True
      from 2(1) [OF _ True, of "Inr True" r1 True] val b r1 s(2) segs'
      have "runner_load_records e recs offs pc r1 = on_base (load_records e recs offs pc) r1" by simp
      with True val b r1 m1 show ?thesis by (simp add: on_base_def split: prod.split)
    qed
  qed
qed

lemma fresh_fields:
  "have_code_block (base_vm (fresh_runner text))" "\<not> is_flag_set (base_vm (fresh_runner text)) PC_INITIALIZED"
  "mmu_ok (mmu (base_vm (fresh_runner text)))" "mmu_byte (mmu (base_vm (fresh_runner text))) = (\<lambda>_. 0)"
  "opcodes (base_vm (fresh_runner text)) = isa_registry" "\<not> set_dev (fresh_runner text)" "dev_mem (fresh_runner text) = replicate 4 0" "cerr (fresh_runner text) = text"
  "syscalls (base_vm (fresh_runner text)) 10 = Some (create 10 ''exit'' ())" "initFlags (base_vm (fresh_runner text)) = 7"
  using fresh_memory
  by (simp_all add: fresh_runner_def new_runner_def have_code_block_def is_flag_set_def mmu_byte_def block_byte_def
    generic_memory_def device_memory_eq Let_def fun_eq_iff)

lemma test_loaded:
  assumes "parse_hex_file fs f = Inr (Some code)" and "hex_image code 0 0 = Some (segs, entry)"
    and "list_all (segment_fits e) segs"
  shows "\<exists>mem. initProgram e fs f (new_runner text) = (Inr True, (fresh_runner text)\<lparr>base_vm :=
      set_flag PC_INITIALIZED ((base_vm (fresh_runner text))\<lparr>initial_pc := entry, mmu := mem\<rparr>)\<rparr>)
    \<and> mmu_byte mem = fold put_segment segs (\<lambda>_. 0)"
proof -
  let ?r = "fresh_runner text"
  have eq: "initProgram e fs f (new_runner text) = on_base (load_records e code 0 0) ?r"
    using assms(1) load_records_fits [OF fresh_config assms(2,3)] by (simp add: initProgram_new runner_set_program_def fresh_fields)
  have "list_all (storable e (base_vm ?r)) segs"
    using assms(3) by (auto simp: list_all_iff storable_def segment_fits_def fresh_mapped test_mapped_def)
  with load_records_image [OF fresh_fields(3,2), of "text" e code 0 0] assms(2) obtain mem where
    "load_records e code 0 0 (base_vm ?r) = (Inr True, set_flag PC_INITIALIZED ((base_vm ?r)\<lparr>initial_pc := entry, mmu := mem\<rparr>))"
    "mmu_byte mem = fold put_segment segs (\<lambda>_. 0)"
    by (auto simp: image_loaded_def fresh_fields(4))
  with eq show ?thesis by (auto simp: on_base_def)
qed

text \<open>From the file to the state the run begins in.\<close>

lemma test_started:
  assumes "parse_hex_file fs f = Inr (Some code)" and "hex_image code 0 0 = Some (segs, entry)"
    and "list_all (segment_fits e) segs" and "in_memory entry 4"
  shows "\<exists>r r1. initProgram e fs f (new_runner text) = (Inr True, r)
    \<and> on_base start (r\<lparr>base_vm := enable_debugging dbg (base_vm r)\<rparr>) = (Inr (), r1)
    \<and> in_state (test_start segs entry) r1 \<and> opcodes (base_vm r1) = isa_registry \<and> running (base_vm r1)
    \<and> syscalls (base_vm r1) 10 = Some (create 10 ''exit'' ()) \<and> cerr r1 = text"
proof -
  from test_loaded [OF assms(1-3), of "text"] obtain mem where
    ini: "initProgram e fs f (new_runner text) = (Inr True, (fresh_runner text)\<lparr>base_vm :=
      set_flag PC_INITIALIZED ((base_vm (fresh_runner text))\<lparr>initial_pc := entry, mmu := mem\<rparr>)\<rparr>)"
    and mem: "mmu_byte mem = fold put_segment segs (\<lambda>_. 0)" by blast
  let ?m1 = "set_flag PC_INITIALIZED ((base_vm (fresh_runner text))\<lparr>initial_pc := entry, mmu := mem\<rparr>)"
  let ?r = "(fresh_runner text)\<lparr>base_vm := ?m1\<rparr>"
  let ?m2 = "?m1\<lparr>debugging := dbg\<rparr>"
  let ?r1 = "?r\<lparr>base_vm := ?m2\<lparr>registers := (replicate 33 0)[32 := entry], running := True\<rparr>\<rparr>"
  have cfg: "runner_config test_mapped ?r" using initProgram_config [OF ini] by (simp add: fresh_mapped)
  then have ok: "config_ok ?m2" and C: "mmu_covers mem = test_mapped" by (simp_all add: runner_config_def)
  have cov: "test_mapped entry 4" using assms(4) by (simp add: test_mapped_def)
  have "is_initialized ?m2" by (simp add: is_initialized_def ALL_FLAGS_MASK_def) (simp add: set_flag_def fresh_fields)
  with start_eq [OF ok] C cov have st: "on_base start (?r\<lparr>base_vm := enable_debugging dbg (base_vm ?r)\<rparr>) = (Inr (), ?r1)"
    by (simp add: on_base_def enable_debugging_def is_initialized_def)
  have inv: "runner_inv test_mapped ?r1"
    using runner_started [OF cfg, of dbg] cov st by simp
  have "abs_vm (base_vm ?r1) = core (test_start segs entry)"
    by (auto simp: abs_vm_def test_start_def C mem test_mapped_def get_pc_def reg_value_def fun_eq_iff reg_less nth_list_update)
  with inv have "in_state (test_start segs entry) ?r1"
    by (simp add: in_state_def test_start_def fresh_fields)
  moreover have "opcodes (base_vm ?r1) = isa_registry" "syscalls (base_vm ?r1) 10 = Some (create 10 ''exit'' ())"
    "cerr ?r1 = text" "running (base_vm ?r1)"
    by (simp_all add: fresh_fields set_flag_def)
  ultimately show ?thesis using ini st by blast
qed

section \<open>Verdicts\<close>

text \<open>The test in a file brings the RISC-V machine with the device to the state \<open>s\<close>.\<close>

definition test_reaches :: "bool \<Rightarrow> file_system \<Rightarrow> string \<Rightarrow> test_state \<Rightarrow> bool" where
  "test_reaches empty_null fs path s \<longleftrightarrow> (\<exists>code segs entry n.
     parse_hex_file fs path = Inr (Some code) \<and> hex_image code 0 0 = Some (segs, entry)
     \<and> list_all (segment_fits empty_null) segs \<and> in_memory entry 4 \<and> test_run n (test_start segs entry) = Some s)"

text \<open>There it stores into the device what the device does not take.\<close>

definition bad_store :: "test_state \<Rightarrow> bool" where
  "bad_store s \<longleftrightarrow> \<not> in_device (arch_pc (core s)) 4 \<and> (\<exists>ad k v. arch_effect (core s) = Some (Store_At ad k v)
     \<and> in_device ad (of_nat k) \<and> ad mod of_nat k = 0 \<and> \<not> device_word ad k)"

definition test_passes :: "bool \<Rightarrow> file_system \<Rightarrow> string \<Rightarrow> bool" where
  "test_passes empty_null fs path \<longleftrightarrow> (\<exists>s. test_reaches empty_null fs path s \<and> at_exit (core s) \<and> \<not> written s)"

lemma test_follows:
  assumes "test_reaches e fs path s"
  shows "\<exists>r r1 r2. initProgram e fs path (new_runner out) = (Inr True, r)
    \<and> on_base start (r\<lparr>base_vm := enable_debugging dbg (base_vm r)\<rparr>) = (Inr (), r1)
    \<and> runner_run r1 = runner_run r2 \<and> in_state s r2 \<and> opcodes (base_vm r2) = isa_registry \<and> running (base_vm r2)
    \<and> syscalls (base_vm r2) 10 = Some (create 10 ''exit'' ()) \<and> cerr r2 = out"
proof -
  from assms obtain code segs entry n where
    loads: "parse_hex_file fs path = Inr (Some code)" "hex_image code 0 0 = Some (segs, entry)"
      "list_all (segment_fits e) segs" "in_memory entry 4"
    and run: "test_run n (test_start segs entry) = Some s"
    by (auto simp: test_reaches_def)
  from test_started [OF loads, of out dbg] obtain r r1 where
    ini: "initProgram e fs path (new_runner out) = (Inr True, r)"
      "on_base start (r\<lparr>base_vm := enable_debugging dbg (base_vm r)\<rparr>) = (Inr (), r1)"
    and r1: "in_state (test_start segs entry) r1" "opcodes (base_vm r1) = isa_registry" "running (base_vm r1)"
      "syscalls (base_vm r1) 10 = Some (create 10 ''exit'' ())" "cerr r1 = out" by blast
  from in_state_reached [OF run r1(1-3)] obtain r2 where r2: "runner_reached r1 r2" "in_state s r2"
    "frame (base_vm r2) = frame (base_vm r1)" "cerr r2 = cerr r1" by (auto simp: same_setup_def)
  from ini r1 r2 reached_run [OF r2(1)] frame_fields [OF r2(3)] show ?thesis by auto
qed

lemma exit_verdict:
  assumes "test_reaches e fs path s" and "at_exit (core s)"
  shows "\<exists>r r'. initProgram e fs path (new_runner out) = (Inr True, r)
    \<and> runner_exec dbg r = Some (Inr (\<not> written s), r') \<and> dev_mem r' = words s \<and> cerr r' = out
    \<and> abs_vm (base_vm r') = (core s)\<lparr>arch_pc := arch_pc (core s) + 4\<rparr>"
proof -
  from test_follows [OF assms(1), of out dbg] obtain r r1 r2 where
    ini: "initProgram e fs path (new_runner out) = (Inr True, r)"
      "on_base start (r\<lparr>base_vm := enable_debugging dbg (base_vm r)\<rparr>) = (Inr (), r1)" "runner_run r1 = runner_run r2"
    and r2: "in_state s r2" "opcodes (base_vm r2) = isa_registry" "running (base_vm r2)"
      "syscalls (base_vm r2) 10 = Some (create 10 ''exit'' ())" "cerr r2 = out" by blast
  from runner_exits [OF r2(1-4) assms(2)] r2(5) ini show ?thesis by (auto simp: runner_exec_def)
qed

text \<open>A store that the device does not take ends the run with an exception, which is reported.\<close>

lemma bad_store_verdict:
  assumes reaches: "test_reaches e fs path s" and bad: "bad_store s"
  shows "\<exists>r r'. initProgram e fs path (new_runner out) = (Inr True, r) \<and> runner_exec dbg r = Some (Inr False, r')"
proof -
  from test_follows [OF reaches, of out dbg] obtain r r1 r2 where
    ini: "initProgram e fs path (new_runner out) = (Inr True, r)"
    and st: "on_base start (r\<lparr>base_vm := enable_debugging dbg (base_vm r)\<rparr>) = (Inr (), r1)" "runner_run r1 = runner_run r2"
    and r2: "in_state s r2" "opcodes (base_vm r2) = isa_registry" "running (base_vm r2)" by blast
  from bad obtain ad k v where eff: "arch_effect (core s) = Some (Store_At ad k v)" and dev: "in_device ad (of_nat k)"
    and al: "ad mod of_nat k = 0" and word: "\<not> device_word ad k" and out: "\<not> in_device (arch_pc (core s)) 4"
    unfolding bad_store_def by (elim conjE exE) (rule that; assumption)
  have inv: "runner_inv test_mapped r2" and abs: "abs_vm (base_vm r2) = core s" using r2(1) by (simp_all add: in_state_def)
  have ok: "runner_ok r2" using inv by (rule runner_inv_ok)
  have pc: "arch_pc (core s) = get_pc (base_vm r2)" by (simp add: abs [symmetric] abs_vm_def)
  have k: "unat (of_nat k :: u32) \<le> 256" using small_size [OF store_size, OF eff] by simp
  have nd: "\<not> at_device r2 (get_pc (base_vm r2)) 4" using out by (simp add: at_device_in [OF ok] pc)
  have "at_device r2 ad (of_nat k)" using dev at_device_in [OF ok k] by simp
  moreover have "\<not> (k = 4 \<and> (ad - 0x800000) div 4 < 4)"
  proof -
    have "k = 4 \<Longrightarrow> ad mod 4 = 0" using al by simp
    then show ?thesis using word dev device_index(2) [of ad] unfolding device_word_def in_device_def by satx
  qed
  ultimately obtain r' where step: "runner_step r2 = (Inl (data_access_error ''store: write error''), r')"
    and same: "abs_vm (base_vm r') = abs_vm (base_vm r2)"
    using runner_store_step [OF ok r2(2) nd eff [folded abs] _ al] by auto
  have ended: "runner_run r1 = Some (Inl (data_access_error ''store: write error''), r')"
    using st(2) step r2(3) by (simp add: runner_run_unfold [of r2] is_running_def)
  have inv': "runner_inv test_mapped r'" using safe_state [OF runner_step_safe inv step] .
  have dump: "\<exists>d. runner_dump (r'\<lparr>cerr := t\<rparr>) = Inr d" for t
  proof (rule runner_dump_fetched)
    show "runner_ok (r'\<lparr>cerr := t\<rparr>)" using runner_inv_ok [OF inv'] by (simp add: runner_ok_def)
    have "arch_pc (abs_vm (base_vm r')) = arch_pc (core s)" by (simp add: same abs)
    then have pc': "get_pc (base_vm r') = arch_pc (core s)" by (simp add: abs_vm_def)
    then show "\<not> in_device (get_pc (base_vm (r'\<lparr>cerr := t\<rparr>))) 4" using out by simp
    show "arch_access (get_pc (base_vm (r'\<lparr>cerr := t\<rparr>))) 4 (abs_vm (base_vm (r'\<lparr>cerr := t\<rparr>)))"
      using eff pc' by (simp add: same abs arch_effect_def split: if_splits)
  qed
  then obtain d where "runner_dump (r'\<lparr>cerr := cerr r' @ endl @ ''Exception: '' @ what (data_access_error ''store: write error'') @ endl\<rparr>) = Inr d"
    by blast
  with ini st(1) ended show ?thesis by (simp add: runner_exec_def write_cerr_def action_simps)
qed

lemma bad_break_verdict:
  assumes "test_reaches e fs path s" and "bad_break s"
  shows "\<exists>r r'. initProgram e fs path (new_runner out) = (Inr True, r) \<and> runner_exec dbg r = Some (Inr False, r')"
proof -
  from test_follows [OF assms(1), of out dbg] obtain r r1 r2 where
    ini: "initProgram e fs path (new_runner out) = (Inr True, r)"
      "on_base start (r\<lparr>base_vm := enable_debugging dbg (base_vm r)\<rparr>) = (Inr (), r1)" "runner_run r1 = runner_run r2"
    and r2: "in_state s r2" "opcodes (base_vm r2) = isa_registry" "running (base_vm r2)" by blast
  from runner_breaks [OF r2 assms(2)] ini show ?thesis by (auto simp: runner_exec_def)
qed

text \<open>A run that ends ends with the verdict of the RISC-V machine.\<close>

definition test_stops :: "test_state \<Rightarrow> bool" where
  "test_stops s \<longleftrightarrow> at_exit (core s) \<or> bad_store s \<or> bad_break s"

lemma test_verdict:
  assumes "test_reaches e fs path s" and "test_stops s"
  shows "\<exists>r r'. initProgram e fs path (new_runner out) = (Inr True, r) \<and> runner_exec dbg r = Some (Inr (test_passes e fs path), r')"
proof (cases "test_passes e fs path")
  case True
  then obtain s' where "test_reaches e fs path s'" "at_exit (core s')" "\<not> written s'" by (auto simp: test_passes_def)
  with exit_verdict [of e fs path s' out dbg] True show ?thesis by auto
next
  case False
  with assms have "at_exit (core s) \<and> written s \<or> bad_store s \<or> bad_break s" by (auto simp: test_passes_def test_stops_def)
  with exit_verdict [OF assms(1), of out dbg] bad_store_verdict [OF assms(1), of out dbg]
    bad_break_verdict [OF assms(1), of out dbg] False show ?thesis by auto
qed

lemma written_fails:
  assumes "test_reaches e fs path s" and "at_exit (core s)" and "written s"
  shows "\<not> test_passes e fs path"
proof
  assume "test_passes e fs path"
  then obtain s' where "test_reaches e fs path s'" "at_exit (core s')" "\<not> written s'" by (auto simp: test_passes_def)
  with exit_verdict [of e fs path s' "[]" False] exit_verdict [OF assms(1,2), of "[]" False] assms(3) show False by auto
qed

section \<open>Properties\<close>

text \<open>
  C10: The verdict on a test. If the RISC-V machine with the device executes the test of a file up to the exit call, the
  runner loads it, its run ends there, the verdict is true exactly when nothing was stored into the device, and the
  registers, the memory and the words of the device are those of the RISC-V machine.
\<close>

theorem runner_verdict:
  assumes "test_reaches empty_null fs path s" and "at_exit (core s)"
  shows "\<exists>r r'. initProgram empty_null fs path (new_runner out) = (Inr True, r)
    \<and> runner_exec dbg r = Some (Inr (\<not> written s), r') \<and> dev_mem r' = words s \<and> cerr r' = out
    \<and> abs_vm (base_vm r') = (core s)\<lparr>arch_pc := arch_pc (core s) + 4\<rparr>"
  using assms by (rule exit_verdict)

text \<open>
  C15: The exit status. If each test of the command line executes up to the exit call, to a store that the device
  does not take, or to an \<open>ebreak\<close> after a store into the device, all tests are run and the status is the number
  of those that do not pass.
\<close>

theorem failures_counted:
  assumes "\<forall>path \<in> set paths. \<exists>s. test_reaches empty_null fs path s \<and> test_stops s"
  shows "\<exists>text. runner_main empty_null fs (exe # paths)
    = Some (Num_Fails (length (filter (\<lambda>path. \<not> test_passes empty_null fs path) paths)), text)"
proof -
  have "\<exists>text. run_tests empty_null fs dbg i paths k out
      = Some (Num_Fails (k + length (filter (\<lambda>path. \<not> test_passes empty_null fs path) paths)), text)" for dbg i k out
    using assms
  proof (induction paths arbitrary: i k out)
    case (Cons path paths)
    then obtain s where "test_reaches empty_null fs path s" "test_stops s" by auto
    from test_verdict [OF this, of out dbg] obtain r r' where
      "initProgram empty_null fs path (new_runner out) = (Inr True, r)"
      "runner_exec dbg r = Some (Inr (test_passes empty_null fs path), r')" by blast
    moreover have "\<exists>text. run_tests empty_null fs dbg i paths k out
      = Some (Num_Fails (k + length (filter (\<lambda>path. \<not> test_passes empty_null fs path) paths)), text)" for i k out
      using Cons by simp
    from this [of "Suc i" k "cerr r'"] this [of "Suc i" "Suc k" "cerr r' @ ''Fail: '' @ show_nat i @ '' '' @ path @ endl"]
    have "if test_passes empty_null fs path
      then \<exists>text. run_tests empty_null fs dbg (Suc i) paths k (cerr r')
        = Some (Num_Fails (k + length (filter (\<lambda>path. \<not> test_passes empty_null fs path) paths)), text)
      else \<exists>text. run_tests empty_null fs dbg (Suc i) paths (Suc k) (cerr r' @ ''Fail: '' @ show_nat i @ '' '' @ path @ endl)
        = Some (Num_Fails (Suc k + length (filter (\<lambda>path. \<not> test_passes empty_null fs path) paths)), text)"
      by simp
    ultimately show ?case by (cases "test_passes empty_null fs path") simp_all
  qed simp
  from this [of "length (exe # paths) = 2" 1 0 "[]"] show ?thesis by (simp add: runner_main_def)
qed

section \<open>Two tests\<close>

text \<open>The file of a test with one segment at address 0.\<close>

definition test_file :: "u8 list \<Rightarrow> u32 \<Rightarrow> u8 list" where
  "test_file bytes entry = map of_char (file_text (program_file 0 [(0, bytes)] entry) @ file_text [(0, 1, [])])"

lemma test_file_parsed:
  assumes "fs path = Some (test_file bytes entry)" and "length bytes \<le> 255"
  shows "\<exists>code. parse_hex_file fs path = Inr (Some code) \<and> hex_image code 0 0 = Some ([(0, bytes)], entry)"
proof -
  let ?rs = "map (\<lambda>(offs, ty, data). written_record offs ty data) (program_file 0 [(0, bytes)] entry @ [(0, 1, [])])"
  have segs: "\<forall>(offs, data) \<in> set [(0 :: u16, bytes)]. length data \<le> 255" using assms(2) by simp
  then have "\<forall>(offs, ty, data) \<in> set (program_file 0 [(0, bytes)] entry). ty \<noteq> 1 \<and> length data \<le> 255"
    by (auto simp: program_file_def)
  from parse_written_file [OF this, of "[]" 0 "[]"] have
    "parse_hex (file_text (program_file 0 [(0, bytes)] entry) @ file_text [(0, 1, [])]) = Inr (Some ?rs)" by simp
  then have "parse_hex_file fs path = Inr (Some ?rs)"
    by (simp only: parse_hex_file_def assms(1) option.case test_file_def char_bytes)
  moreover have "hex_image ?rs 0 0 = Some (map (placed 0) [(0, bytes)], entry)" using segs by (rule image_of_program)
  then have "hex_image ?rs 0 0 = Some ([(0, bytes)], entry)" by (simp add: placed_def)
  ultimately show ?thesis by blast
qed

definition image_start :: "u8 list \<Rightarrow> test_state" where
  "image_start bytes = test_start [(0, bytes)] 0"

lemma test_file_reaches:
  assumes "fs path = Some (test_file bytes 0)" and "bytes \<noteq> []" and "length bytes \<le> 255" and "test_run n (image_start bytes) = Some s"
  shows "test_reaches e fs path s"
proof -
  have "unat (of_nat (length bytes) :: u32) = length bytes" using assms(3) by (intro unat_of_nat_u32) simp
  then have "list_all (segment_fits e) [(0, bytes)]" using assms(2,3) by (simp add: segment_fits_def in_memory_def)
  moreover have "in_memory 0 4" by (simp add: in_memory_def)
  ultimately show ?thesis
    using test_file_parsed [where fs = fs and path = path, OF assms(1,3)] assms(4) unfolding test_reaches_def image_start_def by blast
qed

text \<open>\<open>lui x1, 0x800; sw x1, 0(x1); addi a7, x0, 10; ecall\<close>\<close>

definition store_image :: "u8 list" where
  "store_image = [0xB7, 0x00, 0x80, 0x00, 0x23, 0xA0, 0x10, 0x00, 0x93, 0x08, 0xA0, 0x00, 0x73, 0x00, 0x00, 0x00]"

definition image_core :: "u8 list \<Rightarrow> (register_no \<Rightarrow> register_t) \<Rightarrow> register_t \<Rightarrow> arch" where
  "image_core bytes x pc = (core (image_start bytes))\<lparr>arch_x := x, arch_pc := pc\<rparr>"

lemma image_core_sel [simp]:
  "arch_x (image_core bytes x pc) = x" "arch_pc (image_core bytes x pc) = pc"
  "arch_mapped (image_core bytes x pc) a n \<longleftrightarrow> in_memory a n \<or> in_device a n"
  "arch_write d v (image_core bytes x pc) = image_core bytes (if d = 0 then x else x(d := v)) pc"
  "(image_core bytes x pc)\<lparr>arch_pc := pc'\<rparr> = image_core bytes x pc'"
  by (simp_all add: image_core_def image_start_def test_start_def arch_write_def)

lemma image_start_eq: "image_start bytes = \<lparr>core = image_core bytes (\<lambda>_. 0) 0, written = False, words = [0, 0, 0, 0]\<rparr>"
  by (simp add: image_core_def image_start_def test_start_def numeral_eq_Suc)

lemma image_fetch:
  "arch_fetch (image_core store_image x 0) = 0x008000B7" "arch_fetch (image_core store_image x 4) = 0x0010A023"
  "arch_fetch (image_core store_image x 8) = 0x00A00893" "arch_fetch (image_core store_image x 12) = 0x73"
  "arch_fetch (image_core exit_image x 0) = 0x00A00893" "arch_fetch (image_core exit_image x 4) = 0x73"
  by (simp_all add: arch_fetch_def arch_load_def arch_bytes_def image_core_def image_start_def test_start_def put_segment_def
    in_area_def store_image_def exit_image_def upt_rec)

lemma store_decodes:
  "find_handler isa_registry 0x008000B7 = Some C_lui" "find_handler isa_registry 0x0010A023 = Some C_sw"
  by (simp_all add: find_handler_isa class_entry_def class_id_simps get_code_def get_func3_def get_bits_def
    make_mask_def all_bits_mask_def mask_eq_exp_minus_1)

lemma store_fields:
  "rd 0x008000B7 = 1" "imm_U 0x008000B7 = 0x800000" "rs1 0x0010A023 = 1" "rs2 0x0010A023 = 1" "imm_S 0x0010A023 = 0"
  by (simp_all add: isa_fields field_def place_def mask_eq_exp_minus_1)

lemma exit_test_run: "test_run 1 (image_start exit_image)
    = Some \<lparr>core = image_core exit_image ((\<lambda>_. 0)(17 := 10)) 4, written = False, words = [0, 0, 0, 0]\<rparr>"
proof -
  have "arch_effect (image_core exit_image (\<lambda>_. 0) 0) = Some (Set_Reg 17 10)"
    by (simp add: arch_effect_def image_fetch image_decodes image_fields cxx_defined_def arch_access_def in_memory_def)
  then show ?thesis
    by (simp add: image_start_eq test_step_def arch_step_def arch_next_def arch_at_def in_memory_def in_device_def)
qed

lemma store_test_run: "test_run 3 (image_start store_image)
    = Some \<lparr>core = image_core store_image ((\<lambda>_. 0)(1 := 0x800000, 17 := 10)) 12, written = True, words = [0x800000, 0, 0, 0]\<rparr>"
proof -
  have "arch_effect (image_core store_image x 0) = Some (Set_Reg 1 0x800000)"
    "arch_effect (image_core store_image x 4) = Some (Store_At (x 1) 4 (x 1))"
    "arch_effect (image_core store_image x 8) = Some (Set_Reg 17 (x 0 + 10))" for x
    by (simp_all add: arch_effect_def image_fetch image_decodes image_fields store_decodes store_fields cxx_defined_def
      arch_access_def in_memory_def)
  then show ?thesis
    by (simp add: numeral_3_eq_3 image_start_eq test_step_def arch_step_def arch_next_def arch_at_def in_memory_def in_device_def
      device_word_def)
qed

lemma images_exit: "at_exit (image_core exit_image ((\<lambda>_. 0)(17 := 10)) 4)"
  "at_exit (image_core store_image ((\<lambda>_. 0)(1 := 0x800000, 17 := 10)) 12)"
  by (simp_all add: at_exit_def at_env_def field_def system_samples image_fetch arch_access_def in_memory_def in_device_def)

definition two_tests :: file_system where
  "two_tests = [''good.hex'' \<mapsto> test_file exit_image 0, ''bad.hex'' \<mapsto> test_file store_image 0]"

lemma good_reaches: "test_reaches e two_tests ''good.hex''
    \<lparr>core = image_core exit_image ((\<lambda>_. 0)(17 := 10)) 4, written = False, words = [0, 0, 0, 0]\<rparr>"
  by (rule test_file_reaches [OF _ _ _ exit_test_run]) (simp_all add: two_tests_def, simp_all add: exit_image_def)

lemma bad_reaches: "test_reaches e two_tests ''bad.hex''
    \<lparr>core = image_core store_image ((\<lambda>_. 0)(1 := 0x800000, 17 := 10)) 12, written = True, words = [0x800000, 0, 0, 0]\<rparr>"
  by (rule test_file_reaches [OF _ _ _ store_test_run]) (simp_all add: two_tests_def, simp_all add: store_image_def)

theorem runner_verdict_witness:
  "\<exists>r r'. initProgram True two_tests ''bad.hex'' (new_runner []) = (Inr True, r)
     \<and> runner_exec False r = Some (Inr False, r') \<and> dev_mem r' = [0x800000, 0, 0, 0]"
  using runner_verdict [OF bad_reaches, of True "[]" False] images_exit(2) by auto

theorem failures_counted_witness:
  "\<exists>text. runner_main True two_tests [''runner'', ''good.hex'', ''bad.hex''] = Some (Num_Fails 1, text)"
proof -
  have good: "\<exists>s. test_reaches True two_tests ''good.hex'' s \<and> at_exit (core s) \<and> \<not> written s"
    using good_reaches [of True] images_exit(1) by (metis test_state.select_convs(1,2))
  have bad: "\<exists>s. test_reaches True two_tests ''bad.hex'' s \<and> at_exit (core s) \<and> written s"
    using bad_reaches [of True] images_exit(2) by (metis test_state.select_convs(1,2))
  from good bad have "\<forall>path \<in> set [''good.hex'', ''bad.hex'']. \<exists>s. test_reaches True two_tests path s \<and> test_stops s"
    by (auto simp: test_stops_def)
  moreover from good have "test_passes True two_tests ''good.hex''" by (simp only: test_passes_def)
  moreover from bad have "\<not> test_passes True two_tests ''bad.hex''" using written_fails by blast
  ultimately show ?thesis using failures_counted [of "[''good.hex'', ''bad.hex'']" True two_tests "''runner''"] by simp
qed

text \<open>An entry point without memory: \<open>start\<close> throws, outside of the \<open>try\<close> block.\<close>

theorem runner_main_safe_witness:
  "\<exists>fs msg. runner_main True fs [''runner'', ''a.hex''] = Some (Uncaught (code_access_error msg), [])
     \<and> code_access_error msg \<noteq> undefined Null_Dereference"
proof -
  obtain fs :: file_system where fs: "fs ''a.hex'' = Some (test_file exit_image 0x10000000)"
    by (rule that [of "[''a.hex'' \<mapsto> test_file exit_image 0x10000000]"]) (rule fun_upd_same)
  from test_file_parsed [where fs = fs and path = "''a.hex''", OF fs] obtain code where
    loads: "parse_hex_file fs ''a.hex'' = Inr (Some code)" "hex_image code 0 0 = Some ([(0, exit_image)], 0x10000000)"
    by (auto simp: exit_image_def)
  have "list_all (segment_fits True) [(0, exit_image)]" by (simp add: segment_fits_def in_memory_def exit_image_def)
  from test_loaded [OF loads this, of "[]"] obtain m where
    ini: "initProgram True fs ''a.hex'' (new_runner []) = (Inr True, (fresh_runner [])\<lparr>base_vm := m\<rparr>)"
    and pc: "initial_pc m = 0x10000000" by auto
  from initProgram_config [OF ini] have cfg: "runner_config test_mapped ((fresh_runner [])\<lparr>base_vm := m\<rparr>)" by (simp add: fresh_mapped)
  have "\<not> test_mapped 0x10000000 4" by (simp add: test_mapped_def in_memory_def in_device_def)
  with runner_started [OF cfg, of True] pc obtain msg r1 where
    "on_base start (((fresh_runner [])\<lparr>base_vm := m\<rparr>)\<lparr>base_vm := enable_debugging True (base_vm ((fresh_runner [])\<lparr>base_vm := m\<rparr>))\<rparr>)
      = (Inl (code_access_error msg), r1)" by auto
  moreover from this have "cerr r1 = []" by (auto simp: on_base_def fresh_fields split: prod.splits)
  ultimately have run: "runner_main True fs [''runner'', ''a.hex''] = Some (Uncaught (code_access_error msg), [])"
    using ini by (simp add: runner_main_def runner_exec_def)
  from runner_main_safe [OF run] run show ?thesis by blast
qed

end
