(* ===== verification/Spec2Isabelle.thy ===== *)
theory Spec2Isabelle
  imports Base_Types VM_Memory Hex_Loading Yeti_Execution Yeti_Tools Bit_Checks Yeti_Debug Guest_Sys_Calls
    Runner_Execution
begin

text \<open>
  yeti-vm is an emulator of a 32-bit RISC-V machine (RV32I, Zifencei, Zicsr as far as decoding goes,
  and RV32M) written in C++20. This development models the library under src/src/yeti-vm, the three
  programs under src/tools and the test runner, and proves what makes them correct. File names like vm_basic without a
  directory are those of the library.

  \<^bold>\<open>The program.\<close> A \<open>basic_vm\<close> owns a register file, a memory management unit, a registry of
  instruction handlers and a registry of system calls. \<open>run\<close> repeats \<open>run_step\<close> while the machine is
  running; a step fetches the word at the program counter, finds the handler of its opcode and function
  codes, lets the handler act on the machine through the virtual interface \<open>MachineInterface\<close>, and
  advances the program counter unless the handler did. Before that the machine is configured: memory is
  added, the instruction set registered and a program loaded, as bytes or as Intel HEX records. The
  emulator tools/yeti_main does this for a file given on its command line, with six system calls; it can
  also list a program. tools/view_hex lists the records of a HEX file, tools/make_dummy writes a source file.
  examples/sys_calls_main is a guest program that uses these system calls. tests/arch-tests/yeti_runner runs the
  architecture tests, guest programs that report a failed check by a store into a device, on a subclass of
  \<open>basic_vm\<close>.

  \<^bold>\<open>Theories, in the order of import.\<close>
  \<^item> \<open>Prelude\<close>: the integer widths, the exceptions, the actions (state passing with errors as a sum
    type) and their rules, little-endian words. Undefined behaviour of C++ is an error value of its own,
    so that a theorem can say that it does not happen.
  \<^item> \<open>Base_Types\<close>, \<open>Bit_Tools\<close>, \<open>Opcode\<close>: vm_base_types, vm_bit_tools, vm_opcode; register names, bit
    fields and sign extension, the instruction decoder and encoder. \<open>Bit_Checks\<close>: the assertions that the compiler
    checks on them, which hold of the model.
  \<^item> \<open>Interface\<close>: vm_interface; the virtual functions as a record of actions, and the laws that a
    machine keeps as the locale \<open>register_machine\<close>.
  \<^item> \<open>Registry\<close>: the contract of a registry that accepts a key once, as the locale \<open>keyed_registry\<close>; it
    is interpreted on the handler registry (\<open>Handler\<close>, vm_handler) and on the system call registry
    (\<open>Syscall\<close>, vm_syscall).
  \<^item> \<open>Handlers_RV32I\<close>, \<open>Handlers_RV32M\<close>, \<open>Instruction_Set\<close>: the handler classes of vm_handlers_rv32i.hxx
    and vm_handlers_rv32m.hxx, one definition each, and the registration of both sets.
  \<^item> \<open>Byte_Memory\<close>, \<open>Memory\<close>: the contract of byte-addressed memory as a locale, and vm_memory, which
    provides it twice: for one block and for the unit of all blocks.
  \<^item> \<open>ISA_Spec\<close>: the specification the handlers are checked against, written from the RISC-V manual and
    not from the code: fields and immediates by bit position, the effect of each instruction, and an
    abstract machine of registers, program counter and bytes.
  \<^item> \<open>Handler_Effects\<close>: on every machine that keeps the laws of the locale \<open>loading_machine\<close>, each handler
    has the effect of its instruction.
  \<^item> \<open>Utility\<close>: vm_utility; Intel HEX records and their parser.
  \<^item> \<open>Output\<close>: the manipulators of output streams, and the text of what is inserted into \<open>std::cout\<close>.
  \<^item> \<open>Basic_VM\<close>: vm_basic; the record \<open>basic_vm\<close>, every operation of it, and the interpretation of
    \<open>loading_machine\<close>.
  \<^item> \<open>VM_Refinement\<close>: a step of \<open>basic_vm\<close> refines a step of the abstract machine.
  \<^item> \<open>VM_Safety\<close>, \<open>VM_Run\<close>: the invariant of a running machine, with or without the alignment of its program
    counter, the operands a decoded word can have, the errors a step can raise, that no fetch fails, and the loop
    \<open>run\<close>, which need not end and is therefore a partial function; \<open>run_fuel\<close> counts its steps, and any
    number of steps that suffices gives the result of \<open>run\<close>.
  \<^item> \<open>VM_Execution\<close>: many steps; \<open>arch_run n\<close> is \<open>n\<close> instructions of the abstract machine, and \<open>run\<close> follows
    them. A program with a loop and a system call at its end is shown to end from every state.
  \<^item> \<open>VM_Program\<close>: configuration by any sequence of calls (\<open>configured\<close>), \<open>start\<close> and the loading of programs as bytes.
    Blocks may lie anywhere; that they are apart, which the running machine needs, holds if none ends in the last 256
    bytes of the address space or beyond (\<open>block_fits\<close>), since the range checks of the code wrap there.
  \<^item> \<open>VM_Memory\<close>, \<open>VM_System\<close>, \<open>VM_Dump\<close>: loads after stores; system calls and the instructions on control
    and status registers; \<open>dump_state\<close>, as the text it writes.
  \<^item> \<open>Hex_Format\<close>, \<open>Hex_Loading\<close>: the Intel HEX format as text, the inverse of the parser and the checksum;
    the image that a list of records stands for, which \<open>set_program\<close> stores, and the way from the text of a
    file into the memory.
  \<^item> \<open>Yeti_Syscalls\<close>, \<open>Yeti_Main\<close>, \<open>Yeti_Execution\<close>: tools/yeti_main.cxx; the six system calls, the options,
    loading, running and listing, the report of an exception, and the emulator from end to end: an image does in
    it what it does on the RISC-V machine.
  \<^item> \<open>VM_Debug\<close>, \<open>Yeti_Debug\<close>: the debug output does not influence the machine; operations that do not see it, and the
    front end with and without the option, which changes the number base of what a program prints.
  \<^item> \<open>Yeti_Tools\<close>: tools/view_hex.cxx and tools/make_dummy.cxx.
  \<^item> \<open>Guest_Sys_Calls\<close>: examples/sys_calls_main.c with the calls of sys_calls_asm.S, at the level of the C
    statements, on the emulator; what it prints, and which row it divides by.
  \<^item> \<open>Arch_Runner\<close>, \<open>Runner_Safety\<close>, \<open>Runner_Execution\<close>: tests/arch-tests/yeti_runner.cxx; the class \<open>Runner\<close>, which holds
    a \<open>basic_vm\<close> (\<open>on_base\<close> calls its member functions) and the state of the device, the virtual calls on a memory
    block, which the device overrides, and the second interpretation of \<open>loading_machine\<close>; that every run is safe
    and the flag of the device is never cleared; and the RISC-V machine with the device (\<open>test_step\<close>, \<open>test_run n\<close>
    for \<open>n\<close> instructions), which decides the verdict of a test and the exit status of the runner.

  \<^bold>\<open>How the code is modelled.\<close> Machine integers are words of their width. A C++ function that may throw
  or has undefined behaviour returns \<open>exn + 'a\<close>; one that changes the machine is an action
  \<open>'s \<Rightarrow> (exn + 'a) \<times> 's\<close>, and the state at the moment of the exception is kept. A class is a record; a
  class template is a function of its arguments; an object without fields is the name of its class, and
  a virtual call goes through the table \<open>vtable\<close> of that class. The ordered map of memory blocks is a list
  in the order of the keys; the unordered map of handlers is a function, because only look-up and
  insertion are used. A system call is a value of a type parameter \<open>'c\<close>, and \<open>call :: 'c \<Rightarrow> action\<close> says
  what running it does, since the functions are supplied by the program that embeds the library.
  Exception texts are kept. The output of the steps and of the system calls is a list in the machine of what was
  inserted into \<open>std::cout\<close>; \<open>stream_text\<close> is its text, with the number base that the insertions before leave. The
  output of the reports and of the tools is text.
  Three loops need not end: \<open>run\<close>, the same loop on the runner, and the one of the system call \<open>read\<close>. They are
  partial functions, and theorems say when they return. A member function of \<open>basic_vm\<close> that makes a virtual call on
  a memory block is given twice, for blocks of bytes and for the blocks of the runner, and shown to be the same where
  the block is not the device. The files are a parameter of the tools, a map from a path to its bytes;
  the theorems hold for every such map.

  \<^bold>\<open>Not modelled.\<close> Destructors and reference counting have no effect on values. A file whose reading fails
  half-way is not distinguished from one that cannot be opened. The order of \<open>std::cout\<close> and \<open>std::cerr\<close> is
  not part of the model. The compiler that turns the guest program into instructions is not modelled, nor is
  examples/startup.c, whose inline assembly sets the stack pointer and jumps to the program. The other examples are
  assembly, and lib_test.c is an \<open>#error\<close>. tests/rv32_encoder.cxx tests the encoder with values, and vm_shared only
  includes headers. The narrowing of an exit status to 8 bits is left to the system. The runner's stores into the
  device while a test is being loaded are modelled, but the theorems on verdicts are about tests that lie in the 8 MiB.
\<close>

end
